(* ===== verification/Rx_Prelude.thy ===== *)
theory Rx_Prelude
  imports Main "HOL-Library.Word"
begin

text \<open>
  What every component of the development shares: the machine integers of the target, the
  result of running a piece of Rust code, the sequencing of effectful code, the generic facts
  on them, and the collections of rewrite rules the component proofs use.

  A Rust function that may touch the outside world is an \<^emph>\<open>action\<close>: a function from the world
  before the call to an outcome and the world after it. A call returns a value, or it unwinds
  with a panic, or it blocks (a receive on an empty queue whose senders are alive, a send on a
  full bounded queue): the last two carry the world at the moment the call got there, because
  what was printed or sent before stays printed or sent.
\<close>

section \<open>Machine integers\<close>

text \<open>
  The crate is built for a 64-bit target. Its compiler (the pre-1.0 nightly that still has
  \<open>isize\<close> literals written \<open>0is\<close>) wraps around on overflow, as word arithmetic does.
\<close>

type_synonym u8 = "8 word"
type_synonym u32 = "32 word"
type_synonym u64 = "64 word"
type_synonym usize = "64 word"

named_theorems act_simps \<open>evaluation of actions\<close>
named_theorems trait_defs \<open>the methods of a trait implementation\<close>

section \<open>Actions\<close>

datatype 'a outcome = Ret 'a | Panic string | Blocked

type_synonym ('w, 'a) act = "'w \<Rightarrow> 'a outcome \<times> 'w"

definition ret :: "'a \<Rightarrow> ('w, 'a) act" where
  "ret a = (\<lambda>w. (Ret a, w))"

definition panic :: "string \<Rightarrow> ('w, 'a) act" where
  "panic msg = (\<lambda>w. (Panic msg, w))"

definition block :: "('w, 'a) act" where
  "block = (\<lambda>w. (Blocked, w))"

definition effect :: "('w \<Rightarrow> 'w) \<Rightarrow> ('w, unit) act" where
  "effect f = (\<lambda>w. (Ret (), f w))"

definition abind :: "('w, 'a) act \<Rightarrow> ('a \<Rightarrow> ('w, 'b) act) \<Rightarrow> ('w, 'b) act" where
  "abind m f = (\<lambda>w. case m w of
      (Ret a, w') \<Rightarrow> f a w'
    | (Panic e, w') \<Rightarrow> (Panic e, w')
    | (Blocked, w') \<Rightarrow> (Blocked, w'))"

text \<open>The simplifier's normal form of a pure action is the partially applied pair.\<close>

lemma ret_eq [simp, act_simps]: "ret a = Pair (Ret a)"
  by (simp add: ret_def fun_eq_iff)

lemma Pair_fun_inject [simp]: "Pair a = Pair b \<longleftrightarrow> a = b"
  by (auto dest: fun_cong)

lemma ret_apply: "ret a w = (Ret a, w)"
  by simp

lemma panic_apply [simp, act_simps]: "panic e w = (Panic e, w)"
  by (simp add: panic_def)

lemma block_apply [simp, act_simps]: "block w = (Blocked, w)"
  by (simp add: block_def)

lemma effect_apply [simp, act_simps]: "effect f w = (Ret (), f w)"
  by (simp add: effect_def)

lemma abind_ret: "abind (ret a) f = f a"
  by (simp add: abind_def)

lemma abind_panic [simp, act_simps]: "abind (panic e) f = panic e"
  by (simp add: abind_def panic_def)

lemma abind_block [simp, act_simps]: "abind block f = block"
  by (simp add: abind_def block_def)

lemma abind_Pair [simp, act_simps]:
  "abind (Pair (Ret a)) f = f a"
  "abind (Pair (Panic e)) f = panic e"
  "abind (Pair Blocked) f = block"
  by (simp_all add: abind_def panic_def block_def fun_eq_iff)

lemma abind_ret_right [simp]: "abind m (\<lambda>x. Pair (Ret x)) = m"
  by (rule ext) (simp add: abind_def split: prod.splits outcome.splits)

lemma abind_assoc: "abind (abind m f) g = abind m (\<lambda>x. abind (f x) g)"
  by (rule ext) (simp add: abind_def split: prod.splits outcome.splits)

lemma abind_Ret: "m w = (Ret a, w') \<Longrightarrow> abind m f w = f a w'"
  by (simp add: abind_def)

lemma abind_Panic: "m w = (Panic e, w') \<Longrightarrow> abind m f w = (Panic e, w')"
  by (simp add: abind_def)

lemma abind_Blocked: "m w = (Blocked, w') \<Longrightarrow> abind m f w = (Blocked, w')"
  by (simp add: abind_def)

lemmas abind_steps = abind_Ret abind_Panic abind_Blocked

lemma abind_effect [simp, act_simps]: "abind (effect g) f w = f () (g w)"
  by (simp add: abind_def effect_def)

lemma abind_eq_Ret:
  "abind m f w = (Ret b, w'') \<longleftrightarrow> (\<exists>a w'. m w = (Ret a, w') \<and> f a w' = (Ret b, w''))"
  by (auto simp: abind_def split: prod.splits outcome.splits)

lemma abind_RetE:
  assumes "abind m f w = (Ret b, w'')"
  obtains a w' where "m w = (Ret a, w')" "f a w' = (Ret b, w'')"
  using assms by (auto simp: abind_eq_Ret)

lemma outcome_exhaust3:
  obtains (Ret) a w' where "r = (Ret a, w')"
    | (Panic) e w' where "r = (Panic e, w')"
    | (Blocked) w' where "r = (Blocked, w')"
  by (cases r; cases "fst r") auto

section \<open>Actions that may not end\<close>

text \<open>A piece of code with a loop in it may never come back, which is the result \<open>None\<close>.\<close>

type_synonym ('w, 'a) pact = "'w \<Rightarrow> ('a outcome \<times> 'w) option"

definition once :: "('w, 'a) act \<Rightarrow> ('w, 'a) pact" where
  "once m = (\<lambda>w. Some (m w))"

definition pbind :: "('w, 'a) pact \<Rightarrow> ('a \<Rightarrow> ('w, 'b) pact) \<Rightarrow> ('w, 'b) pact" where
  "pbind m f = (\<lambda>w. case m w of
      None \<Rightarrow> None
    | Some (Ret a, w') \<Rightarrow> f a w'
    | Some (Panic e, w') \<Rightarrow> Some (Panic e, w')
    | Some (Blocked, w') \<Rightarrow> Some (Blocked, w'))"

lemma once_apply [simp, act_simps]: "once m w = Some (m w)"
  by (simp add: once_def)

lemma pbind_Ret: "m w = Some (Ret a, w') \<Longrightarrow> pbind m f w = f a w'"
  by (simp add: pbind_def)

lemma pbind_once_Ret: "m w = (Ret a, w') \<Longrightarrow> pbind (once m) f w = f a w'"
  by (simp add: pbind_def)

lemma pbind_Panic: "m w = Some (Panic e, w') \<Longrightarrow> pbind m f w = Some (Panic e, w')"
  by (simp add: pbind_def)

lemma pbind_Blocked: "m w = Some (Blocked, w') \<Longrightarrow> pbind m f w = Some (Blocked, w')"
  by (simp add: pbind_def)

lemma pbind_eq_Ret:
  "pbind m f w = Some (Ret b, w'') \<longleftrightarrow> (\<exists>a w'. m w = Some (Ret a, w') \<and> f a w' = Some (Ret b, w''))"
  by (auto simp: pbind_def split: option.splits prod.splits outcome.splits)

text \<open>A loop: the body says whether to go round again, and with which state.\<close>

partial_function (option) loop_act :: "('s \<Rightarrow> ('w, bool \<times> 's) act) \<Rightarrow> 's \<Rightarrow> ('w, 's) pact" where
  "loop_act body s w =
     (case body s w of
        (r, w') \<Rightarrow>
          (case r of
             Ret bs \<Rightarrow> if fst bs then loop_act body (snd bs) w' else Some (Ret (snd bs), w')
           | Panic e \<Rightarrow> Some (Panic e, w')
           | Blocked \<Rightarrow> Some (Blocked, w')))"

lemma loop_act_again: "body s w = (Ret (True, s'), w') \<Longrightarrow> loop_act body s w = loop_act body s' w'"
  by (simp add: loop_act.simps [of body s w])

lemma loop_act_leave: "body s w = (Ret (False, s'), w') \<Longrightarrow> loop_act body s w = Some (Ret s', w')"
  by (simp add: loop_act.simps [of body s w])

lemma loop_act_Panic: "body s w = (Panic e, w') \<Longrightarrow> loop_act body s w = Some (Panic e, w')"
  by (simp add: loop_act.simps [of body s w])

lemma loop_act_Blocked: "body s w = (Blocked, w') \<Longrightarrow> loop_act body s w = Some (Blocked, w')"
  by (simp add: loop_act.simps [of body s w])

text \<open>A loop that ends can be followed from its last round back to the first.\<close>

lemma loop_act_induct [consumes 1, case_names again leave]:
  assumes "loop_act body s w = Some r"
    and "\<And>s w s' w'. body s w = (Ret (True, s'), w') \<Longrightarrow> P s' w' \<Longrightarrow> P s w"
    and "\<And>s w. (\<nexists>s' w'. body s w = (Ret (True, s'), w')) \<Longrightarrow> P s w"
  shows "P s w"
proof -
  have "body = body \<longrightarrow> P s w"
  proof (rule loop_act.raw_induct [where P = "\<lambda>b s w r. b = body \<longrightarrow> P s w", OF _ assms(1)], rule impI)
    fix f b s w r
    assume IH: "\<And>b s w r. f b s w = Some r \<Longrightarrow> b = body \<longrightarrow> P s w"
      and eq: "(case b s w of
        (r, w') \<Rightarrow>
          (case r of
             Ret bs \<Rightarrow> if fst bs then f b (snd bs) w' else Some (Ret (snd bs), w')
           | Panic e \<Rightarrow> Some (Panic e, w')
           | Blocked \<Rightarrow> Some (Blocked, w'))) = Some r"
      and b: "b = body"
    show "P s w"
    proof (cases "\<exists>s' w'. body s w = (Ret (True, s'), w')")
      case True
      then obtain s' w' where again: "body s w = (Ret (True, s'), w')" by blast
      with eq b IH [of body s' w' r] have "P s' w'" by simp
      with again show ?thesis by (rule assms(2))
    qed (rule assms(3))
  qed
  then show ?thesis by simp
qed

lemma loop_act_invariant_world:
  assumes "loop_act body s w = Some (Ret s', w')" "I s w"
    and keep: "\<And>s w b s' w'. I s w \<Longrightarrow> body s w = (Ret (b, s'), w') \<Longrightarrow> I s' w'"
  shows "I s' w'"
proof -
  from assms(1) have "I s w \<longrightarrow> loop_act body s w = Some (Ret s', w') \<longrightarrow> I s' w'"
  proof (induction rule: loop_act_induct)
    case (again s w s1 w1)
    then show ?case using keep [of s w True s1 w1] by (auto simp: loop_act_again)
  next
    case (leave s w)
    then show ?case using keep [of s w False s' w']
      by (cases "body s w" rule: outcome_exhaust3) (auto simp: loop_act.simps [of body s w] split: if_splits)
  qed
  with assms(1,2) show ?thesis by simp
qed

lemma loop_act_invariant:
  assumes "loop_act body s w = Some (Ret s', w')" "I s"
    and "\<And>s w b s' w'. I s \<Longrightarrow> body s w = (Ret (b, s'), w') \<Longrightarrow> I s'"
  shows "I s'"
  using loop_act_invariant_world [of body s w s' w' "\<lambda>s _. I s"] assms by blast

text \<open>A loop whose body keeps a condition and always goes round again never ends.\<close>

lemma loop_act_never:
  assumes "\<And>s w. I s w \<Longrightarrow> \<exists>s' w'. body s w = (Ret (True, s'), w') \<and> I s' w'" "I s w"
  shows "loop_act body s w = None"
proof (rule ccontr)
  assume "loop_act body s w \<noteq> None"
  then obtain r where "loop_act body s w = Some r" by blast
  then have "\<not> I s w"
  proof (induction rule: loop_act_induct)
    case (again s w s' w')
    with assms(1) [of s w] show ?case by auto
  next
    case (leave s w)
    with assms(1) [of s w] show ?case by blast
  qed
  with assms(2) show False by simp
qed

text \<open>Two loops whose bodies agree through a map of the states agree.\<close>

lemma loop_act_map:
  assumes "\<And>s w. b1 (h s) w = map_prod (map_outcome (map_prod id h)) id (b2 s w)"
  shows "loop_act b1 (h s) w = map_option (map_prod (map_outcome h) id) (loop_act b2 s w)"
proof -
  let ?eq = "\<lambda>s w. loop_act b1 (h s) w = map_option (map_prod (map_outcome h) id) (loop_act b2 s w)"
  have step: "b2 s w = (Ret (True, s'), w') \<Longrightarrow> ?eq s' w' \<Longrightarrow> ?eq s w" for s w s' w'
    using assms [of s w] by (simp add: loop_act_again)
  have stop: "(\<nexists>s' w'. b2 s w = (Ret (True, s'), w')) \<Longrightarrow> ?eq s w" for s w
    using assms [of s w] by (cases "b2 s w" rule: outcome_exhaust3)
      (auto simp: loop_act_leave loop_act_Panic loop_act_Blocked)
  show ?thesis
  proof (cases "loop_act b2 s w")
    case (Some r)
    then show ?thesis by (induction rule: loop_act_induct) (rule step stop; assumption)+
  next
    case None
    have "\<forall>s. s1 = h s \<longrightarrow> ?eq s w" if "loop_act b1 s1 w = Some r" for s1 w r
      using that
    proof (induction rule: loop_act_induct)
      case (again s1 w s1' w')
      show ?case
      proof (intro allI impI)
        fix s assume s: "s1 = h s"
        with again.hyps assms [of s w] obtain s' where "b2 s w = (Ret (True, s'), w')" "s1' = h s'"
          by (cases "b2 s w" rule: outcome_exhaust3) auto
        with again.IH step show "?eq s w" by blast
      qed
    next
      case (leave s1 w)
      show ?case
      proof (intro allI impI)
        fix s assume "s1 = h s"
        with leave.hyps assms [of s w] have "\<nexists>s' w'. b2 s w = (Ret (True, s'), w')" by auto
        then show "?eq s w" by (rule stop)
      qed
    qed
    from this [of "h s" w] None show ?thesis by (cases "loop_act b1 (h s) w") simp_all
  qed
qed

text \<open>\<^verbatim>\<open>for i in range(i0, i0 + k)\<close>, with the variables the body assigns to as its state.\<close>

primrec for_range :: "nat \<Rightarrow> nat \<Rightarrow> (nat \<Rightarrow> 's \<Rightarrow> ('w, 's) pact) \<Rightarrow> 's \<Rightarrow> ('w, 's) pact" where
  "for_range i 0 body s = once (ret s)"
| "for_range i (Suc k) body s = pbind (body i s) (for_range (Suc i) k body)"

lemma for_range_invariant:
  assumes "\<And>j s w. i \<le> j \<Longrightarrow> j < i + k \<Longrightarrow> I j s w \<Longrightarrow> \<exists>s' w'. body j s w = Some (Ret s', w') \<and> I (Suc j) s' w'"
    and "I i s w"
  shows "\<exists>s' w'. for_range i k body s w = Some (Ret s', w') \<and> I (i + k) s' w'"
  using assms
proof (induction k arbitrary: i s w)
  case (Suc k)
  from Suc.prems(1) [of i s w] Suc.prems(2) obtain s1 w1 where s1: "body i s w = Some (Ret s1, w1)" "I (Suc i) s1 w1" by auto
  have "\<exists>s' w'. for_range (Suc i) k body s1 w1 = Some (Ret s', w') \<and> I (Suc i + k) s' w'"
    by (rule Suc.IH) (use Suc.prems(1) s1 in auto)
  with s1 show ?case by (auto simp: pbind_Ret)
qed simp

section \<open>Machine integers: counting\<close>

lemma word64_of_nat_less_iff:
  "m < 2 ^ 64 \<Longrightarrow> n < 2 ^ 64 \<Longrightarrow> ((of_nat m :: 64 word) < of_nat n) = (m < n)"
  by (simp add: word_less_nat_alt unat_of_nat)

lemma unat_of_nat64: "n < 2 ^ 64 \<Longrightarrow> unat (of_nat n :: 64 word) = n"
  by (simp add: unat_of_nat)

lemma unat_less64: "unat (x :: 64 word) < 2 ^ 64"
  using unsigned_less [of x] by simp

lemma unat_max64: "unat (-1 :: 64 word) = 2 ^ 64 - 1"
  by (simp add: unsigned_minus_1_eq_mask mask_eq_exp_minus_1)

lemma unat_plus_one64: "unat (c :: 64 word) < unat (d :: 64 word) \<Longrightarrow> unat (c + 1) = unat c + 1"
  using unat_less64 [of d] by (simp add: unat_word_ariths)

lemma less_plus_one64: "(x :: 64 word) \<noteq> -1 \<Longrightarrow> x < x + 1"
  by (meson inc_less_eq_triv_imp linorder_not_le)

section \<open>Lists\<close>

text \<open>A Mealy machine on lists: the specification of every one-to-one processor.\<close>

fun mealy :: "('k \<Rightarrow> 'i \<Rightarrow> 'o \<times> 'k) \<Rightarrow> 'k \<Rightarrow> 'i list \<Rightarrow> 'o list" where
  "mealy g k [] = []"
| "mealy g k (x # xs) = fst (g k x) # mealy g (snd (g k x)) xs"

fun mealy_end :: "('k \<Rightarrow> 'i \<Rightarrow> 'o \<times> 'k) \<Rightarrow> 'k \<Rightarrow> 'i list \<Rightarrow> 'k" where
  "mealy_end g k [] = k"
| "mealy_end g k (x # xs) = mealy_end g (snd (g k x)) xs"

lemma length_mealy [simp]: "length (mealy g k xs) = length xs"
  by (induction xs arbitrary: k) auto

lemma mealy_append: "mealy g k (xs @ ys) = mealy g k xs @ mealy g (mealy_end g k xs) ys"
  by (induction xs arbitrary: k) auto

lemma mealy_take: "mealy g k (take n xs) = take n (mealy g k xs)"
proof (induction xs arbitrary: k n)
  case Nil
  then show ?case by simp
next
  case (Cons x xs)
  then show ?case by (cases n) auto
qed

lemma mealy_unit [simp]: "mealy (\<lambda>k x. (f x, ())) k xs = map f xs"
  by (induction xs) auto

lemma mealy_stateless: "mealy (\<lambda>k x. (f x, k)) k xs = map f xs"
  by (induction xs) auto

section \<open>Assertions\<close>

text \<open>A failed assertion panics.\<close>

definition assert_that :: "bool \<Rightarrow> ('w, unit) act" where
  "assert_that b = (if b then ret () else panic ''assertion failed'')"

end
