(* ===== verification/Rx_Channel.thy ===== *)
theory Rx_Channel
  imports Rx_Prelude
begin

text \<open>
  The queues of \<^verbatim>\<open>std::sync::mpsc\<close> as the crate uses them, the world they live in, and
  the \<^verbatim>\<open>Sendable\<close> trait of \<^verbatim>\<open>src/sendable.rs\<close>, which wraps the three kinds of sender.

  A queue is a first-in first-out buffer with a count of live senders and a flag for the
  receiver; \<open>ch_bound\<close> is \<open>None\<close> for \<^verbatim>\<open>channel()\<close> and the capacity for
  \<^verbatim>\<open>sync_channel(n)\<close>. A handle (\<^verbatim>\<open>Sender\<close>, \<^verbatim>\<open>SyncSender\<close>, \<^verbatim>\<open>Receiver\<close>) is the
  index of its queue in the world. A send to a queue whose receiver is gone gives the
  message back; a receive on an empty queue blocks while a sender lives and reports the
  disconnection when none does.
\<close>

section \<open>The world\<close>

record 'm channel =
  ch_buf :: "'m list"
  ch_bound :: "nat option"
  ch_senders :: nat
  ch_receiver :: bool

text \<open>
  \<open>stdout\<close> holds the lines printed so far, oldest first; \<open>chans\<close> the queues of the
  process. The world is an extensible record: the components that touch something else
  (a file mapping, a socket) work in a world of their own.
\<close>

record 'm world =
  stdout :: "string list"
  chans :: "nat \<Rightarrow> 'm channel"

type_synonym chan_id = nat

definition println :: "string \<Rightarrow> (('m, 'z) world_scheme, unit) act" where
  "println line = effect (\<lambda>w. w\<lparr>stdout := stdout w @ [line]\<rparr>)"

definition set_chan :: "chan_id \<Rightarrow> 'm channel \<Rightarrow> ('m, 'z) world_scheme \<Rightarrow> ('m, 'z) world_scheme" where
  "set_chan q c w = w\<lparr>chans := (chans w)(q := c)\<rparr>"

lemma chans_set_chan [simp]: "chans (set_chan q c w) q' = (if q' = q then c else chans w q')"
  by (simp add: set_chan_def)

lemma stdout_set_chan [simp]: "stdout (set_chan q c w) = stdout w"
  by (simp add: set_chan_def)

section \<open>Sending and receiving\<close>

datatype 'a SendError = SendError 'a

datatype TryRecvError = Empty | Disconnected

definition mpsc_push :: "chan_id \<Rightarrow> 'm \<Rightarrow> (('m, 'z) world_scheme, 'm SendError + unit) act" where
  "mpsc_push q a = (\<lambda>w. (Ret (Inr ()), set_chan q ((chans w q)\<lparr>ch_buf := ch_buf (chans w q) @ [a]\<rparr>) w))"

text \<open>\<^verbatim>\<open>Sender::send\<close>: never waits.\<close>

definition Sender_send :: "chan_id \<Rightarrow> 'm \<Rightarrow> (('m, 'z) world_scheme, 'm SendError + unit) act" where
  "Sender_send q a = (\<lambda>w.
     if ch_receiver (chans w q) then mpsc_push q a w else (Ret (Inl (SendError a)), w))"

text \<open>\<^verbatim>\<open>SyncSender::send\<close>: waits while the buffer is full and the receiver lives.\<close>

definition SyncSender_send :: "chan_id \<Rightarrow> 'm \<Rightarrow> (('m, 'z) world_scheme, 'm SendError + unit) act" where
  "SyncSender_send q a = (\<lambda>w.
     if \<not> ch_receiver (chans w q) then (Ret (Inl (SendError a)), w)
     else case ch_bound (chans w q) of
       None \<Rightarrow> mpsc_push q a w
     | Some n \<Rightarrow> if length (ch_buf (chans w q)) < n then mpsc_push q a w else (Blocked, w))"

definition mpsc_pop :: "chan_id \<Rightarrow> 'm list \<Rightarrow> ('m, 'z) world_scheme \<Rightarrow> ('m, 'z) world_scheme" where
  "mpsc_pop q rest w = set_chan q ((chans w q)\<lparr>ch_buf := rest\<rparr>) w"

definition Receiver_recv :: "chan_id \<Rightarrow> (('m, 'z) world_scheme, unit + 'm) act" where
  "Receiver_recv q = (\<lambda>w. case ch_buf (chans w q) of
      d # rest \<Rightarrow> (Ret (Inr d), mpsc_pop q rest w)
    | [] \<Rightarrow> if ch_senders (chans w q) = 0 then (Ret (Inl ()), w) else (Blocked, w))"

definition Receiver_try_recv :: "chan_id \<Rightarrow> (('m, 'z) world_scheme, TryRecvError + 'm) act" where
  "Receiver_try_recv q = (\<lambda>w. case ch_buf (chans w q) of
      d # rest \<Rightarrow> (Ret (Inr d), mpsc_pop q rest w)
    | [] \<Rightarrow> if ch_senders (chans w q) = 0 then (Ret (Inl Disconnected), w)
            else (Ret (Inl Empty), w))"

text \<open>
  The ends of a queue come and go: \<^verbatim>\<open>sync_channel\<close> makes a bounded queue on a number not used so far,
  a sender is cloned, and either end is dropped.
\<close>

definition sync_queue :: "nat \<Rightarrow> 'm channel" where
  "sync_queue n = \<lparr>ch_buf = [], ch_bound = Some n, ch_senders = 1, ch_receiver = True\<rparr>"

definition clone_sender :: "chan_id \<Rightarrow> ('m, 'z) world_scheme \<Rightarrow> ('m, 'z) world_scheme" where
  "clone_sender q w = set_chan q ((chans w q)\<lparr>ch_senders := ch_senders (chans w q) + 1\<rparr>) w"

definition drop_sender :: "chan_id \<Rightarrow> ('m, 'z) world_scheme \<Rightarrow> ('m, 'z) world_scheme" where
  "drop_sender q w = set_chan q ((chans w q)\<lparr>ch_senders := ch_senders (chans w q) - 1\<rparr>) w"

definition drop_receiver :: "chan_id \<Rightarrow> ('m, 'z) world_scheme \<Rightarrow> ('m, 'z) world_scheme" where
  "drop_receiver q w = set_chan q ((chans w q)\<lparr>ch_receiver := False\<rparr>) w"

lemmas mpsc_defs = Sender_send_def SyncSender_send_def mpsc_push_def mpsc_pop_def
  Receiver_recv_def Receiver_try_recv_def

lemma abind_recv:
  "abind (Receiver_recv q) f w = (case ch_buf (chans w q) of
      d # rest \<Rightarrow> f (Inr d) (mpsc_pop q rest w)
    | [] \<Rightarrow> if ch_senders (chans w q) = 0 then f (Inl ()) w else (Blocked, w))"
  by (simp add: Receiver_recv_def abind_def split: list.split)

lemma abind_try_recv:
  "abind (Receiver_try_recv q) f w = (case ch_buf (chans w q) of
      d # rest \<Rightarrow> f (Inr d) (mpsc_pop q rest w)
    | [] \<Rightarrow> f (Inl (if ch_senders (chans w q) = 0 then Disconnected else Empty)) w)"
  by (simp add: Receiver_try_recv_def abind_def split: list.split)

section \<open>The Sendable trait\<close>

record ('w, 'q, 'a) sendable =
  send :: "'q \<Rightarrow> 'a \<Rightarrow> ('w, 'a + unit) act"

definition Sender_Sendable_send :: "chan_id \<Rightarrow> 'm \<Rightarrow> (('m, 'z) world_scheme, 'm + unit) act" where
  "Sender_Sendable_send self a = abind (Sender_send self a) (\<lambda>r. case r of
      Inr _ \<Rightarrow> ret (Inr ())
    | Inl (SendError e) \<Rightarrow> ret (Inl e))"

definition SyncSender_Sendable_send :: "chan_id \<Rightarrow> 'm \<Rightarrow> (('m, 'z) world_scheme, 'm + unit) act" where
  "SyncSender_Sendable_send self a = abind (SyncSender_send self a) (\<lambda>r. case r of
      Inr _ \<Rightarrow> ret (Inr ())
    | Inl (SendError e) \<Rightarrow> ret (Inl e))"

text \<open>
  The event loop's sender is \<^verbatim>\<open>mio\<close>'s: its own \<^verbatim>\<open>send\<close> is the parameter \<open>el_send\<close>, whose
  error already carries the message.
\<close>

definition EventLoopSender_Sendable_send ::
  "('q \<Rightarrow> 'a \<Rightarrow> ('w, 'a + unit) act) \<Rightarrow> 'q \<Rightarrow> 'a \<Rightarrow> ('w, 'a + unit) act" where
  "EventLoopSender_Sendable_send el_send self a = abind (el_send self a) (\<lambda>r. case r of
      Inr _ \<Rightarrow> ret (Inr ())
    | Inl e \<Rightarrow> ret (Inl e))"

definition Sender_Sendable :: "(('m, 'z) world_scheme, chan_id, 'm) sendable" where
  "Sender_Sendable = \<lparr>send = Sender_Sendable_send\<rparr>"

definition SyncSender_Sendable :: "(('m, 'z) world_scheme, chan_id, 'm) sendable" where
  "SyncSender_Sendable = \<lparr>send = SyncSender_Sendable_send\<rparr>"

definition EventLoopSender_Sendable ::
  "('q \<Rightarrow> 'a \<Rightarrow> ('w, 'a + unit) act) \<Rightarrow> ('w, 'q, 'a) sendable" where
  "EventLoopSender_Sendable el_send = \<lparr>send = EventLoopSender_Sendable_send el_send\<rparr>"

lemma Sender_send_Ok:
  "ch_receiver (chans w q) \<Longrightarrow>
   send Sender_Sendable q a w =
     (Ret (Inr ()), set_chan q ((chans w q)\<lparr>ch_buf := ch_buf (chans w q) @ [a]\<rparr>) w)"
  by (simp add: Sender_Sendable_def Sender_Sendable_send_def mpsc_defs abind_def)

lemma Sender_send_Err:
  "\<not> ch_receiver (chans w q) \<Longrightarrow> send Sender_Sendable q a w = (Ret (Inl a), w)"
  by (simp add: Sender_Sendable_def Sender_Sendable_send_def mpsc_defs abind_def)

lemma EventLoopSender_send [simp]: "send (EventLoopSender_Sendable el_send) q a = el_send q a"
  by (rule ext) (auto simp: EventLoopSender_Sendable_def EventLoopSender_Sendable_send_def abind_def
      split: prod.splits outcome.splits sum.splits)

lemma SyncSender_send_cases:
  "send SyncSender_Sendable q a w =
     (if \<not> ch_receiver (chans w q) then (Ret (Inl a), w)
      else if \<forall>n. ch_bound (chans w q) = Some n \<longrightarrow> length (ch_buf (chans w q)) < n
      then (Ret (Inr ()), set_chan q ((chans w q)\<lparr>ch_buf := ch_buf (chans w q) @ [a]\<rparr>) w)
      else (Blocked, w))"
  by (auto simp: SyncSender_Sendable_def SyncSender_Sendable_send_def mpsc_defs abind_def
      split: option.splits)

section \<open>Room in a queue\<close>

lemma set_chan_twice [simp]: "set_chan q x (set_chan q y w) = set_chan q x w"
  by (simp add: set_chan_def)

lemma set_chan_same [simp]: "set_chan q (chans w q) w = w"
  by (simp add: set_chan_def)

definition push_all :: "chan_id \<Rightarrow> 'm list \<Rightarrow> ('m, 'z) world_scheme \<Rightarrow> ('m, 'z) world_scheme" where
  "push_all q ms w = set_chan q ((chans w q)\<lparr>ch_buf := ch_buf (chans w q) @ ms\<rparr>) w"

definition has_room :: "'m channel \<Rightarrow> nat \<Rightarrow> bool" where
  "has_room ch n \<longleftrightarrow> ch_receiver ch \<and> (\<forall>k. ch_bound ch = Some k \<longrightarrow> length (ch_buf ch) + n \<le> k)"

lemma push_all_Nil [simp]: "push_all q [] w = w"
  by (simp add: push_all_def)

lemma push_all_Cons: "push_all q ms (push_all q [m] w) = push_all q (m # ms) w"
  by (simp add: push_all_def)

lemma SyncSender_send_room: "has_room (chans w q) (Suc n) \<Longrightarrow> SyncSender_send q m w = (Ret (Inr ()), push_all q [m] w)"
  by (auto simp: has_room_def SyncSender_send_def mpsc_push_def push_all_def split: option.split)

lemma chans_push_all: "chans w1 = chans (push_all q ms w) \<Longrightarrow> chans (push_all q ms' w1) = chans (push_all q (ms @ ms') w)"
  by (rule ext) (simp add: push_all_def)

lemma has_room_push_all: "has_room (chans w q) (length ms + n) \<Longrightarrow> has_room (chans (push_all q ms w) q) n"
  by (auto simp: has_room_def push_all_def)

lemma has_room_push: "has_room (chans w q) (Suc n) \<Longrightarrow> has_room (chans (push_all q [m] w) q) n"
  by (simp add: has_room_def push_all_def)

end
