(* ===== verification/Rx_Reactive.thy ===== *)
theory Rx_Reactive
  imports Rx_Channel
begin

text \<open>
  The two traits of \<^verbatim>\<open>src/reactive.rs\<close>. A trait object is a state together with its table
  of methods; \<^verbatim>\<open>Box<Subscriber<Input=I>>\<close> held in a field is a state of some type \<open>'s\<close>, and
  the operations that call it take its table \<open>S :: ('w, 's, 'i) subscriber\<close> as an argument.
  The default methods of the traits are definitions of their own; \<^verbatim>\<open>run\<close>, whose loop may go
  on for ever, is a partial function (\<open>None\<close>: it never returns).

  Second half: the contract of a subscriber (locale \<open>Subscriber_refines\<close>). The concrete
  object together with the world implements an abstract machine: \<open>sabs\<close> maps a state and a
  world to an abstract state, \<open>sinv\<close> says which ones are meant, and each method returns (it
  neither panics nor blocks) with the boolean and the abstract state the machine has.
\<close>

section \<open>Subscriber\<close>

record ('w, 's, 'i) subscriber =
  on_next :: "'s \<Rightarrow> 'i \<Rightarrow> ('w, bool \<times> 's) act"
  on_subscribe :: "'s \<Rightarrow> usize \<Rightarrow> ('w, 's) act"
  on_error :: "'s \<Rightarrow> string \<Rightarrow> ('w, 's) act"
  on_complete :: "'s \<Rightarrow> bool \<Rightarrow> ('w, 's) act"

text \<open>The default methods only write to the log, which is not modelled.\<close>

definition Subscriber_on_subscribe :: "'s \<Rightarrow> usize \<Rightarrow> ('w, 's) act" where
  "Subscriber_on_subscribe self index = ret self"

definition Subscriber_on_error :: "'s \<Rightarrow> string \<Rightarrow> ('w, 's) act" where
  "Subscriber_on_error self err = ret self"

definition Subscriber_on_complete :: "'s \<Rightarrow> bool \<Rightarrow> ('w, 's) act" where
  "Subscriber_on_complete self force = ret self"

lemmas Subscriber_defaults [simp, trait_defs] =
  Subscriber_on_subscribe_def Subscriber_on_error_def Subscriber_on_complete_def

section \<open>Publisher\<close>

record ('w, 'p, 's) publisher =
  subscribe :: "'p \<Rightarrow> 's \<Rightarrow> ('w, 'p) act"
  pub_next :: "'p \<Rightarrow> ('w, bool \<times> 'p) act"
  try_next :: "'p \<Rightarrow> ('w, bool \<times> 'p) act"

definition Publisher_try_next :: "'p \<Rightarrow> ('w, bool \<times> 'p) act" where
  "Publisher_try_next self = panic ''Unimplemented fn, presumably run() or next() is being attempted on a processor, not a publisher''"

definition Publisher_next :: "('p \<Rightarrow> ('w, bool \<times> 'p) act) \<Rightarrow> 'p \<Rightarrow> ('w, bool \<times> 'p) act" where
  "Publisher_next tn self = tn self"

definition run :: "('w, 'p, 's) publisher \<Rightarrow> 'p \<Rightarrow> ('w, 'p) pact" where
  "run pb = loop_act (pub_next pb)"

lemma run_unfold:
  "run pb p w =
     (case pub_next pb p w of
        (r, w') \<Rightarrow>
          (case r of
             Ret bp \<Rightarrow> if fst bp then run pb (snd bp) w' else Some (Ret (snd bp), w')
           | Panic e \<Rightarrow> Some (Panic e, w')
           | Blocked \<Rightarrow> Some (Blocked, w')))"
  unfolding run_def by (rule loop_act.simps)

lemma run_step_True: "pub_next P p w = (Ret (True, p'), w') \<Longrightarrow> run P p w = run P p' w'"
  by (simp add: run_def loop_act_again)

lemma run_step_False: "pub_next P p w = (Ret (False, p'), w') \<Longrightarrow> run P p w = Some (Ret p', w')"
  by (simp add: run_def loop_act_leave)

lemma run_step_Panic: "pub_next P p w = (Panic e, w') \<Longrightarrow> run P p w = Some (Panic e, w')"
  by (simp add: run_def loop_act_Panic)

lemma run_step_Blocked: "pub_next P p w = (Blocked, w') \<Longrightarrow> run P p w = Some (Blocked, w')"
  by (simp add: run_def loop_act_Blocked)

lemmas run_steps = run_step_True run_step_False run_step_Panic run_step_Blocked

text \<open>A loop whose invariant makes every round answer \<open>True\<close> never returns.\<close>

lemma run_diverges:
  assumes keep: "\<And>p w. I p w \<Longrightarrow> \<exists>p' w'. pub_next pb p w = (Ret (True, p'), w') \<and> I p' w'"
    and start: "I p w"
  shows "run pb p w = None"
  using loop_act_never [where I = I, OF keep start] by (simp add: run_def)

section \<open>The driving loop over a finite batch\<close>

text \<open>
  \<open>feed nx s xs\<close> hands the items of a list to \<^verbatim>\<open>on_next\<close> one after the other and stops at
  the first \<open>False\<close>: what the publishers' loops amount to, and the yardstick the processors
  are compared on.
\<close>

fun feed :: "('s \<Rightarrow> 'i \<Rightarrow> ('w, bool \<times> 's) act) \<Rightarrow> 's \<Rightarrow> 'i list \<Rightarrow> ('w, bool \<times> 's) act" where
  "feed nx s [] = ret (True, s)"
| "feed nx s (x # xs) = abind (nx s x) (\<lambda>(b, s'). if b then feed nx s' xs else ret (False, s'))"

text \<open>The same loop on an abstract machine.\<close>

fun a_feed :: "('a \<Rightarrow> 'i \<Rightarrow> bool \<times> 'a) \<Rightarrow> 'a \<Rightarrow> 'i list \<Rightarrow> bool \<times> 'a" where
  "a_feed nx a [] = (True, a)"
| "a_feed nx a (x # xs) = (if fst (nx a x) then a_feed nx (snd (nx a x)) xs else (False, snd (nx a x)))"

lemma feed_Cons_Ret:
  "nx s x w = (Ret (b, s'), w') \<Longrightarrow>
   feed nx s (x # xs) w = (if b then feed nx s' xs w' else (Ret (False, s'), w'))"
  by (simp add: abind_Ret)

lemma feed_append:
  "feed nx s (xs @ ys) = abind (feed nx s xs) (\<lambda>(b, s'). if b then feed nx s' ys else ret (False, s'))"
proof (induction xs arbitrary: s)
  case (Cons x xs)
  have "abind (nx s x) (\<lambda>(b, s'). if b then feed nx s' (xs @ ys) else ret (False, s')) =
        abind (nx s x) (\<lambda>bs. abind (case bs of (b, s') \<Rightarrow> if b then feed nx s' xs else ret (False, s'))
          (\<lambda>(b, s'). if b then feed nx s' ys else ret (False, s')))"
    by (rule arg_cong [where f = "abind (nx s x)"]) (auto simp: Cons.IH fun_eq_iff)
  then show ?case by (simp add: abind_assoc)
qed simp

lemma a_feed_append:
  "a_feed nx a (xs @ ys) =
     (if fst (a_feed nx a xs) then a_feed nx (snd (a_feed nx a xs)) ys else a_feed nx a xs)"
  by (induction xs arbitrary: a) auto

section \<open>The contract of a subscriber\<close>

definition meets :: "('s \<Rightarrow> 'w \<Rightarrow> bool) \<Rightarrow> ('s \<Rightarrow> 'w \<Rightarrow> 'a) \<Rightarrow> 's outcome \<times> 'w \<Rightarrow> 'a \<Rightarrow> bool" where
  "meets sinv sabs r a \<longleftrightarrow> (\<exists>s' w'. r = (Ret s', w') \<and> sinv s' w' \<and> sabs s' w' = a)"

definition meets_next ::
  "('s \<Rightarrow> 'w \<Rightarrow> bool) \<Rightarrow> ('s \<Rightarrow> 'w \<Rightarrow> 'a) \<Rightarrow> (bool \<times> 's) outcome \<times> 'w \<Rightarrow> bool \<times> 'a \<Rightarrow> bool" where
  "meets_next sinv sabs r ba \<longleftrightarrow>
     (\<exists>s' w'. r = (Ret (fst ba, s'), w') \<and> sinv s' w' \<and> sabs s' w' = snd ba)"

lemma meetsI: "r = (Ret s', w') \<Longrightarrow> sinv s' w' \<Longrightarrow> sabs s' w' = a \<Longrightarrow> meets sinv sabs r a"
  by (auto simp: meets_def)

lemma meetsE:
  assumes "meets sinv sabs r a"
  obtains s' w' where "r = (Ret s', w')" "sinv s' w'" "sabs s' w' = a"
  using assms by (auto simp: meets_def)

lemma meets_nextI:
  "r = (Ret (b, s'), w') \<Longrightarrow> sinv s' w' \<Longrightarrow> sabs s' w' = a \<Longrightarrow> meets_next sinv sabs r (b, a)"
  by (auto simp: meets_next_def)

lemma meets_nextE:
  assumes "meets_next sinv sabs r ba"
  obtains s' w' where "r = (Ret (fst ba, s'), w')" "sinv s' w'" "sabs s' w' = snd ba"
  using assms by (auto simp: meets_next_def)

locale Subscriber_refines =
  fixes S :: "('w, 's, 'i) subscriber"
    and sinv :: "'s \<Rightarrow> 'w \<Rightarrow> bool"
    and sabs :: "'s \<Rightarrow> 'w \<Rightarrow> 'a"
    and a_next :: "'a \<Rightarrow> 'i \<Rightarrow> bool \<times> 'a"
    and a_complete :: "'a \<Rightarrow> bool \<Rightarrow> 'a"
    and a_error :: "'a \<Rightarrow> string \<Rightarrow> 'a"
  assumes refines_next: "sinv s w \<Longrightarrow> meets_next sinv sabs (on_next S s x w) (a_next (sabs s w) x)"
    and refines_complete: "sinv s w \<Longrightarrow> meets sinv sabs (on_complete S s force w) (a_complete (sabs s w) force)"
    and refines_error: "sinv s w \<Longrightarrow> meets sinv sabs (on_error S s err w) (a_error (sabs s w) err)"
    and refines_subscribe: "sinv s w \<Longrightarrow> meets sinv sabs (on_subscribe S s index w) (sabs s w)"
begin

text \<open>The laws as elimination rules: the call, its final state, and what that state stands for.\<close>

lemma nextE:
  assumes "sinv s w"
  obtains s' w' where "on_next S s x w = (Ret (fst (a_next (sabs s w) x), s'), w')"
    "sinv s' w'" "sabs s' w' = snd (a_next (sabs s w) x)"
  using refines_next [OF assms, of x] by (rule meets_nextE)

lemma completeE:
  assumes "sinv s w"
  obtains s' w' where "on_complete S s force w = (Ret s', w')"
    "sinv s' w'" "sabs s' w' = a_complete (sabs s w) force"
  using refines_complete [OF assms, of force] by (rule meetsE)

lemma errorE:
  assumes "sinv s w"
  obtains s' w' where "on_error S s err w = (Ret s', w')"
    "sinv s' w'" "sabs s' w' = a_error (sabs s w) err"
  using refines_error [OF assms, of err] by (rule meetsE)

text \<open>A whole batch of items refines the abstract loop: the subscriber returns, and its answer
  and final state are the machine's.\<close>

lemma refines_feed: "sinv s w \<Longrightarrow> meets_next sinv sabs (feed (on_next S) s xs w) (a_feed a_next (sabs s w) xs)"
proof (induction xs arbitrary: s w)
  case Nil
  then show ?case by (simp add: meets_next_def)
next
  case (Cons x xs)
  obtain s' w' where
    step: "on_next S s x w = (Ret (fst (a_next (sabs s w) x), s'), w')"
    and sinv': "sinv s' w'" and sabs': "sabs s' w' = snd (a_next (sabs s w) x)"
    using Cons.prems by (rule nextE)
  show ?case
  proof (cases "fst (a_next (sabs s w) x)")
    case True
    with Cons.IH [OF sinv'] show ?thesis by (simp add: feed_Cons_Ret [where nx = "on_next S", OF step] sabs' del: feed.simps)
  next
    case False
    with sinv' sabs' show ?thesis by (simp add: feed_Cons_Ret [where nx = "on_next S", OF step] meets_next_def del: feed.simps)
  qed
qed

end

end
