(* ===== verification/Rx_Subscribers.thy ===== *)
theory Rx_Subscribers
  imports Rx_Reactive
begin

text \<open>
  The three subscribers of \<^verbatim>\<open>src/subscriber.rs\<close>: the ends of a chain. Each is shown to meet
  the subscriber contract with the list of what it has taken in as its abstract state: the
  printed lines, the queue, the vector.
\<close>

section \<open>StdoutSubscriber\<close>

text \<open>The item type's \<^verbatim>\<open>Display\<close> implementation is the parameter \<open>fmt\<close>.\<close>

record StdoutSubscriber =
  StdoutSubscriber_index :: "usize option"

definition StdoutSubscriber_new :: StdoutSubscriber where
  "StdoutSubscriber_new = \<lparr>StdoutSubscriber_index = None\<rparr>"

definition StdoutSubscriber_on_next ::
  "('i \<Rightarrow> string) \<Rightarrow> StdoutSubscriber \<Rightarrow> 'i \<Rightarrow> (('m, 'z) world_scheme, bool \<times> StdoutSubscriber) act" where
  "StdoutSubscriber_on_next fmt self t = abind (println (fmt t)) (\<lambda>_. ret (True, self))"

definition StdoutSubscriber_Subscriber ::
  "('i \<Rightarrow> string) \<Rightarrow> (('m, 'z) world_scheme, StdoutSubscriber, 'i) subscriber" where
  "StdoutSubscriber_Subscriber fmt =
     \<lparr>on_next = StdoutSubscriber_on_next fmt,
      on_subscribe = Subscriber_on_subscribe,
      on_error = Subscriber_on_error,
      on_complete = Subscriber_on_complete\<rparr>"

section \<open>Decoupler\<close>

text \<open>The queue is any \<^verbatim>\<open>Sendable\<close>, so its table is the parameter \<open>Q\<close>.\<close>

record 'q Decoupler =
  Decoupler_index :: "usize option"
  Decoupler_data_tx :: 'q

definition Decoupler_new :: "'q \<Rightarrow> 'q Decoupler" where
  "Decoupler_new tx = \<lparr>Decoupler_index = None, Decoupler_data_tx = tx\<rparr>"

definition Decoupler_on_next ::
  "('w, 'q, 'i) sendable \<Rightarrow> 'q Decoupler \<Rightarrow> 'i \<Rightarrow> ('w, bool \<times> 'q Decoupler) act" where
  "Decoupler_on_next Q self t = abind (send Q (Decoupler_data_tx self) t) (\<lambda>r. case r of
      Inr _ \<Rightarrow> ret (True, self)
    | Inl _ \<Rightarrow> ret (False, self))"

definition Decoupler_Subscriber ::
  "('w, 'q, 'i) sendable \<Rightarrow> ('w, 'q Decoupler, 'i) subscriber" where
  "Decoupler_Subscriber Q =
     \<lparr>on_next = Decoupler_on_next Q,
      on_subscribe = Subscriber_on_subscribe,
      on_error = Subscriber_on_error,
      on_complete = Subscriber_on_complete\<rparr>"

section \<open>Collect\<close>

text \<open>
  \<^verbatim>\<open>val\<close> is an exclusive borrow of the caller's vector: while the subscriber lives nobody
  else can reach it, so the vector is a field of the subscriber and the caller reads it there
  when the chain is dropped.
\<close>

record 'i Collect =
  Collect_index :: "usize option"
  Collect_val :: "'i list"

definition Collect_new :: "'i list \<Rightarrow> 'i Collect" where
  "Collect_new v = \<lparr>Collect_index = None, Collect_val = v\<rparr>"

definition Collect_on_next :: "'i Collect \<Rightarrow> 'i \<Rightarrow> ('w, bool \<times> 'i Collect) act" where
  "Collect_on_next self t = ret (True, self\<lparr>Collect_val := Collect_val self @ [t]\<rparr>)"

definition Collect_Subscriber :: "('w, 'i Collect, 'i) subscriber" where
  "Collect_Subscriber =
     \<lparr>on_next = Collect_on_next,
      on_subscribe = Subscriber_on_subscribe,
      on_error = Subscriber_on_error,
      on_complete = Subscriber_on_complete\<rparr>"

lemmas subscriber_impls [trait_defs] =
  StdoutSubscriber_Subscriber_def StdoutSubscriber_on_next_def
  Decoupler_Subscriber_def Decoupler_on_next_def
  Collect_Subscriber_def Collect_on_next_def

section \<open>The abstract machines of the three ends\<close>

definition sink_next :: "('i \<Rightarrow> 'r) \<Rightarrow> 'r list \<Rightarrow> 'i \<Rightarrow> bool \<times> 'r list" where
  "sink_next r taken x = (True, taken @ [r x])"

definition queue_next :: "bool \<times> 'i list \<Rightarrow> 'i \<Rightarrow> bool \<times> (bool \<times> 'i list)" where
  "queue_next q x = (if fst q then (True, (True, snd q @ [x])) else (False, q))"

definition ignore :: "'a \<Rightarrow> 'b \<Rightarrow> 'a" where
  "ignore a _ = a"

lemma ignore_simp [simp]: "ignore a b = a"
  by (simp add: ignore_def)

lemma a_feed_sink [simp]: "a_feed (sink_next r) taken xs = (True, taken @ map r xs)"
  by (induction xs arbitrary: taken) (auto simp: sink_next_def)

lemma a_feed_queue:
  "a_feed queue_next (alive, buf) xs =
     (if alive then (True, (True, buf @ xs)) else if xs = [] then (True, (False, buf)) else (False, (False, buf)))"
  by (induction xs arbitrary: buf) (auto simp: queue_next_def)

interpretation collect: Subscriber_refines
  "Collect_Subscriber :: ('w, 'i Collect, 'i) subscriber" "\<lambda>_ _. True" "\<lambda>s _. Collect_val s" "sink_next (\<lambda>x. x)" ignore ignore
  by unfold_locales (auto simp: trait_defs sink_next_def meets_def meets_next_def)

text \<open>The same contract with the whole world in view: a \<^verbatim>\<open>Collect\<close> leaves it as it is.\<close>

definition vec_next :: "'i list \<times> 'w \<Rightarrow> 'i \<Rightarrow> bool \<times> ('i list \<times> 'w)" where
  "vec_next vw x = (True, (fst vw @ [x], snd vw))"

interpretation collect_world: Subscriber_refines
  "Collect_Subscriber :: ('w, 'i Collect, 'i) subscriber" "\<lambda>_ _. True" "\<lambda>s w. (Collect_val s, w)" vec_next ignore ignore
  by unfold_locales (auto simp: trait_defs vec_next_def meets_def meets_next_def)

interpretation stdout_sub: Subscriber_refines
  "StdoutSubscriber_Subscriber fmt" "\<lambda>_ _. True" "\<lambda>_ w. stdout w" "sink_next fmt" ignore ignore for fmt
  by unfold_locales (auto simp: trait_defs sink_next_def meets_def meets_next_def println_def)

interpretation decoupler: Subscriber_refines
  "Decoupler_Subscriber Sender_Sendable" "\<lambda>s _. Decoupler_data_tx s = q"
  "\<lambda>s w. (ch_receiver (chans w q), ch_buf (chans w q))" queue_next ignore ignore for q
proof (unfold_locales, goal_cases)
  case (1 s w x)
  then show ?case
    by (cases "ch_receiver (chans w q)")
      (auto simp: trait_defs queue_next_def meets_next_def abind_def Sender_send_Ok
        Sender_send_Err)
qed (auto simp: trait_defs meets_def)

end
