(* ===== verification/Rx_Processors.thy ===== *)
theory Rx_Processors
  imports Rx_Reactive
begin

text \<open>
  The processors of \<^verbatim>\<open>src/processorimpl.rs\<close> and the method macros of
  \<^verbatim>\<open>src/default_macros.rs\<close> they use. Each struct is a record with the source's fields, each
  \<^verbatim>\<open>impl\<close> a table of methods that takes the table \<open>S\<close> of the boxed subscriber. A closure
  field is an action, because a Rust closure may print, send, read a clock or panic. The
  item type's \<^verbatim>\<open>Debug\<close> implementation is the parameter \<open>dbg\<close>; \<^verbatim>\<open>clone()\<close> gives an equal value.
\<close>

section \<open>The method macros\<close>

text \<open>
  A macro is expanded in the \<^verbatim>\<open>impl\<close> block of a struct with the fields \<^verbatim>\<open>subscriber\<close> and
  \<^verbatim>\<open>index\<close>: \<open>sub\<close> reads the first, \<open>put_sub\<close> and \<open>put_index\<close> write them.
\<close>

definition default_pass_error ::
  "('w, 's, 'o) subscriber \<Rightarrow> ('p \<Rightarrow> 's option) \<Rightarrow> ('s option \<Rightarrow> 'p \<Rightarrow> 'p) \<Rightarrow> 'p \<Rightarrow> string \<Rightarrow> ('w, 'p) act" where
  "default_pass_error S sub put_sub self err = (case sub self of
      Some s \<Rightarrow> abind (on_error S s err) (\<lambda>s'. ret (put_sub (Some s') self))
    | None \<Rightarrow> panic ''on_error called but I don't have a subscriber'')"

definition default_pass_complete ::
  "('w, 's, 'o) subscriber \<Rightarrow> ('p \<Rightarrow> 's option) \<Rightarrow> ('s option \<Rightarrow> 'p \<Rightarrow> 'p) \<Rightarrow> 'p \<Rightarrow> bool \<Rightarrow> ('w, 'p) act" where
  "default_pass_complete S sub put_sub self force = (case sub self of
      Some s \<Rightarrow> abind (on_complete S s force) (\<lambda>s'. ret (put_sub (Some s') self))
    | None \<Rightarrow> panic ''on_complete called but I don't have a subscriber'')"

definition default_pass_subscribe ::
  "(usize option \<Rightarrow> 'p \<Rightarrow> 'p) \<Rightarrow> 'p \<Rightarrow> usize \<Rightarrow> ('w, 'p) act" where
  "default_pass_subscribe put_index self index = ret (put_index (Some index) self)"

section \<open>DoDebug\<close>

record 's DoDebug =
  DoDebug_subscriber :: "'s option"
  DoDebug_index :: "usize option"

definition DoDebug_new :: "'s DoDebug" where
  "DoDebug_new = \<lparr>DoDebug_subscriber = None, DoDebug_index = None\<rparr>"

definition DoDebug_subscribe :: "(('m, 'z) world_scheme, 's, 'i) subscriber \<Rightarrow> 's DoDebug \<Rightarrow> 's \<Rightarrow> (('m, 'z) world_scheme, 's DoDebug) act" where
  "DoDebug_subscribe S self s = abind (on_subscribe S s 0) (\<lambda>s'. ret (self\<lparr>DoDebug_subscriber := Some s'\<rparr>))"

definition DoDebug_on_next ::
  "('i \<Rightarrow> string) \<Rightarrow> (('m, 'z) world_scheme, 's, 'i) subscriber \<Rightarrow> 's DoDebug \<Rightarrow> 'i \<Rightarrow> (('m, 'z) world_scheme, bool \<times> 's DoDebug) act" where
  "DoDebug_on_next dbg S self t = (case DoDebug_subscriber self of
      Some s \<Rightarrow>
        abind (println (dbg t)) (\<lambda>_. abind (on_next S s t) (\<lambda>(b, s').
        ret (b, self\<lparr>DoDebug_subscriber := Some s'\<rparr>)))
    | None \<Rightarrow> ret (True, self))"

definition DoDebug_Subscriber ::
  "('i \<Rightarrow> string) \<Rightarrow> (('m, 'z) world_scheme, 's, 'i) subscriber \<Rightarrow> (('m, 'z) world_scheme, 's DoDebug, 'i) subscriber" where
  "DoDebug_Subscriber dbg S =
     \<lparr>on_next = DoDebug_on_next dbg S,
      on_subscribe = default_pass_subscribe (\<lambda>i. DoDebug_index_update (\<lambda>_. i)),
      on_error = default_pass_error S DoDebug_subscriber (\<lambda>s. DoDebug_subscriber_update (\<lambda>_. s)),
      on_complete = default_pass_complete S DoDebug_subscriber (\<lambda>s. DoDebug_subscriber_update (\<lambda>_. s))\<rparr>"

definition DoDebug_Publisher :: "(('m, 'z) world_scheme, 's, 'i) subscriber \<Rightarrow> (('m, 'z) world_scheme, 's DoDebug, 's) publisher" where
  "DoDebug_Publisher S =
     \<lparr>subscribe = DoDebug_subscribe S,
      pub_next = Publisher_next Publisher_try_next,
      try_next = Publisher_try_next\<rparr>"

section \<open>DebugWhile\<close>

record ('w, 'i, 's) DebugWhile =
  DebugWhile_fun :: "'i \<Rightarrow> ('w, bool) act"
  DebugWhile_subscriber :: "'s option"
  DebugWhile_index :: "usize option"

definition DebugWhile_new :: "('i \<Rightarrow> ('w, bool) act) \<Rightarrow> ('w, 'i, 's) DebugWhile" where
  "DebugWhile_new f = \<lparr>DebugWhile_fun = f, DebugWhile_subscriber = None, DebugWhile_index = None\<rparr>"

definition DebugWhile_subscribe :: "(('m, 'z) world_scheme, 's, 'i) subscriber \<Rightarrow> (('m, 'z) world_scheme, 'i, 's) DebugWhile \<Rightarrow> 's \<Rightarrow> (('m, 'z) world_scheme, (('m, 'z) world_scheme, 'i, 's) DebugWhile) act" where
  "DebugWhile_subscribe S self s = abind (on_subscribe S s 0) (\<lambda>s'. ret (self\<lparr>DebugWhile_subscriber := Some s'\<rparr>))"

definition DebugWhile_on_next ::
  "('i \<Rightarrow> string) \<Rightarrow> (('m, 'z) world_scheme, 's, 'i) subscriber \<Rightarrow> (('m, 'z) world_scheme, 'i, 's) DebugWhile \<Rightarrow> 'i \<Rightarrow> (('m, 'z) world_scheme, bool \<times> (('m, 'z) world_scheme, 'i, 's) DebugWhile) act" where
  "DebugWhile_on_next dbg S self t = (case DebugWhile_subscriber self of
      Some s \<Rightarrow>
        abind (DebugWhile_fun self t) (\<lambda>c. abind (if c then println (dbg t) else ret ()) (\<lambda>_.
        abind (on_next S s t) (\<lambda>(b, s'). ret (b, self\<lparr>DebugWhile_subscriber := Some s'\<rparr>))))
    | None \<Rightarrow> ret (True, self))"

definition DebugWhile_Subscriber ::
  "('i \<Rightarrow> string) \<Rightarrow> (('m, 'z) world_scheme, 's, 'i) subscriber \<Rightarrow> (('m, 'z) world_scheme, (('m, 'z) world_scheme, 'i, 's) DebugWhile, 'i) subscriber" where
  "DebugWhile_Subscriber dbg S =
     \<lparr>on_next = DebugWhile_on_next dbg S,
      on_subscribe = default_pass_subscribe (\<lambda>i. DebugWhile_index_update (\<lambda>_. i)),
      on_error = default_pass_error S DebugWhile_subscriber (\<lambda>s. DebugWhile_subscriber_update (\<lambda>_. s)),
      on_complete = default_pass_complete S DebugWhile_subscriber (\<lambda>s. DebugWhile_subscriber_update (\<lambda>_. s))\<rparr>"

definition DebugWhile_Publisher :: "(('m, 'z) world_scheme, 's, 'i) subscriber \<Rightarrow> (('m, 'z) world_scheme, (('m, 'z) world_scheme, 'i, 's) DebugWhile, 's) publisher" where
  "DebugWhile_Publisher S =
     \<lparr>subscribe = DebugWhile_subscribe S,
      pub_next = Publisher_next Publisher_try_next,
      try_next = Publisher_try_next\<rparr>"

section \<open>Do\<close>

record ('w, 'i, 's) Do =
  Do_fun :: "'i \<Rightarrow> ('w, unit) act"
  Do_subscriber :: "'s option"
  Do_index :: "usize option"

definition Do_new :: "('i \<Rightarrow> ('w, unit) act) \<Rightarrow> ('w, 'i, 's) Do" where
  "Do_new f = \<lparr>Do_fun = f, Do_subscriber = None, Do_index = None\<rparr>"

definition Do_subscribe :: "('w, 's, 'i) subscriber \<Rightarrow> ('w, 'i, 's) Do \<Rightarrow> 's \<Rightarrow> ('w, ('w, 'i, 's) Do) act" where
  "Do_subscribe S self s = abind (on_subscribe S s 0) (\<lambda>s'. ret (self\<lparr>Do_subscriber := Some s'\<rparr>))"

definition Do_on_next ::
  "('w, 's, 'i) subscriber \<Rightarrow> ('w, 'i, 's) Do \<Rightarrow> 'i \<Rightarrow> ('w, bool \<times> ('w, 'i, 's) Do) act" where
  "Do_on_next S self t = (case Do_subscriber self of
      Some s \<Rightarrow>
        abind (Do_fun self t) (\<lambda>_. abind (on_next S s t) (\<lambda>(b, s').
        ret (b, self\<lparr>Do_subscriber := Some s'\<rparr>)))
    | None \<Rightarrow> ret (True, self))"

definition Do_Subscriber ::
  "('w, 's, 'i) subscriber \<Rightarrow> ('w, ('w, 'i, 's) Do, 'i) subscriber" where
  "Do_Subscriber S =
     \<lparr>on_next = Do_on_next S,
      on_subscribe = default_pass_subscribe (\<lambda>i. Do_index_update (\<lambda>_. i)),
      on_error = default_pass_error S Do_subscriber (\<lambda>s. Do_subscriber_update (\<lambda>_. s)),
      on_complete = default_pass_complete S Do_subscriber (\<lambda>s. Do_subscriber_update (\<lambda>_. s))\<rparr>"

definition Do_Publisher :: "('w, 's, 'i) subscriber \<Rightarrow> ('w, ('w, 'i, 's) Do, 's) publisher" where
  "Do_Publisher S =
     \<lparr>subscribe = Do_subscribe S,
      pub_next = Publisher_next Publisher_try_next,
      try_next = Publisher_try_next\<rparr>"

section \<open>Map\<close>

text \<open>The struct \<^verbatim>\<open>Map\<close> is the record \<open>Map_Proc\<close>: the name \<open>Map\<close> belongs to a library theory.\<close>

record ('w, 'i, 'o, 's) Map_Proc =
  Map_fun :: "'i \<Rightarrow> ('w, 'o) act"
  Map_subscriber :: "'s option"
  Map_index :: "usize option"

definition Map_new :: "('i \<Rightarrow> ('w, 'o) act) \<Rightarrow> ('w, 'i, 'o, 's) Map_Proc" where
  "Map_new f = \<lparr>Map_fun = f, Map_subscriber = None, Map_index = None\<rparr>"

definition Map_subscribe :: "('w, 's, 'o) subscriber \<Rightarrow> ('w, 'i, 'o, 's) Map_Proc \<Rightarrow> 's \<Rightarrow> ('w, ('w, 'i, 'o, 's) Map_Proc) act" where
  "Map_subscribe S self s = abind (on_subscribe S s 0) (\<lambda>s'. ret (self\<lparr>Map_subscriber := Some s'\<rparr>))"

definition Map_on_next ::
  "('w, 's, 'o) subscriber \<Rightarrow> ('w, 'i, 'o, 's) Map_Proc \<Rightarrow> 'i \<Rightarrow> ('w, bool \<times> ('w, 'i, 'o, 's) Map_Proc) act" where
  "Map_on_next S self t = (case Map_subscriber self of
      Some s \<Rightarrow>
        abind (Map_fun self t) (\<lambda>y. abind (on_next S s y) (\<lambda>(b, s').
        ret (b, self\<lparr>Map_subscriber := Some s'\<rparr>)))
    | None \<Rightarrow> ret (True, self))"

definition Map_Subscriber ::
  "('w, 's, 'o) subscriber \<Rightarrow> ('w, ('w, 'i, 'o, 's) Map_Proc, 'i) subscriber" where
  "Map_Subscriber S =
     \<lparr>on_next = Map_on_next S,
      on_subscribe = default_pass_subscribe (\<lambda>i. Map_index_update (\<lambda>_. i)),
      on_error = default_pass_error S Map_subscriber (\<lambda>s. Map_subscriber_update (\<lambda>_. s)),
      on_complete = default_pass_complete S Map_subscriber (\<lambda>s. Map_subscriber_update (\<lambda>_. s))\<rparr>"

definition Map_Publisher :: "('w, 's, 'o) subscriber \<Rightarrow> ('w, ('w, 'i, 'o, 's) Map_Proc, 's) publisher" where
  "Map_Publisher S =
     \<lparr>subscribe = Map_subscribe S,
      pub_next = Publisher_next Publisher_try_next,
      try_next = Publisher_try_next\<rparr>"

section \<open>MapVal1\<close>

record ('w, 'i, 'v, 'o, 's) MapVal1 =
  MapVal1_fun :: "'i \<Rightarrow> 'v \<Rightarrow> ('w, 'o) act"
  MapVal1_subscriber :: "'s option"
  MapVal1_index :: "usize option"
  MapVal1_val :: 'v

definition MapVal1_new :: "'v \<Rightarrow> ('i \<Rightarrow> 'v \<Rightarrow> ('w, 'o) act) \<Rightarrow> ('w, 'i, 'v, 'o, 's) MapVal1" where
  "MapVal1_new v f = \<lparr>MapVal1_fun = f, MapVal1_subscriber = None, MapVal1_index = None, MapVal1_val = v\<rparr>"

definition MapVal1_subscribe :: "('w, 's, 'o) subscriber \<Rightarrow> ('w, 'i, 'v, 'o, 's) MapVal1 \<Rightarrow> 's \<Rightarrow> ('w, ('w, 'i, 'v, 'o, 's) MapVal1) act" where
  "MapVal1_subscribe S self s = abind (on_subscribe S s 0) (\<lambda>s'. ret (self\<lparr>MapVal1_subscriber := Some s'\<rparr>))"

definition MapVal1_on_next ::
  "('w, 's, 'o) subscriber \<Rightarrow> ('w, 'i, 'v, 'o, 's) MapVal1 \<Rightarrow> 'i \<Rightarrow> ('w, bool \<times> ('w, 'i, 'v, 'o, 's) MapVal1) act" where
  "MapVal1_on_next S self t = (case MapVal1_subscriber self of
      Some s \<Rightarrow>
        abind (MapVal1_fun self t (MapVal1_val self)) (\<lambda>y. abind (on_next S s y) (\<lambda>(b, s').
        ret (b, self\<lparr>MapVal1_subscriber := Some s'\<rparr>)))
    | None \<Rightarrow> ret (True, self))"

definition MapVal1_Subscriber ::
  "('w, 's, 'o) subscriber \<Rightarrow> ('w, ('w, 'i, 'v, 'o, 's) MapVal1, 'i) subscriber" where
  "MapVal1_Subscriber S =
     \<lparr>on_next = MapVal1_on_next S,
      on_subscribe = default_pass_subscribe (\<lambda>i. MapVal1_index_update (\<lambda>_. i)),
      on_error = default_pass_error S MapVal1_subscriber (\<lambda>s. MapVal1_subscriber_update (\<lambda>_. s)),
      on_complete = default_pass_complete S MapVal1_subscriber (\<lambda>s. MapVal1_subscriber_update (\<lambda>_. s))\<rparr>"

definition MapVal1_Publisher :: "('w, 's, 'o) subscriber \<Rightarrow> ('w, ('w, 'i, 'v, 'o, 's) MapVal1, 's) publisher" where
  "MapVal1_Publisher S =
     \<lparr>subscribe = MapVal1_subscribe S,
      pub_next = Publisher_next Publisher_try_next,
      try_next = Publisher_try_next\<rparr>"

section \<open>Reduce\<close>

text \<open>The fold function is applied, and the state updated, before the subscriber is looked up.\<close>

record ('w, 'i, 'v, 'o, 's) Reduce =
  Reduce_fun :: "'v \<Rightarrow> 'i \<Rightarrow> ('w, 'v \<times> 'o) act"
  Reduce_subscriber :: "'s option"
  Reduce_index :: "usize option"
  Reduce_state :: 'v

definition Reduce_new :: "'v \<Rightarrow> ('v \<Rightarrow> 'i \<Rightarrow> ('w, 'v \<times> 'o) act) \<Rightarrow> ('w, 'i, 'v, 'o, 's) Reduce" where
  "Reduce_new initial f = \<lparr>Reduce_fun = f, Reduce_subscriber = None, Reduce_index = None, Reduce_state = initial\<rparr>"

definition Reduce_subscribe :: "('w, 's, 'o) subscriber \<Rightarrow> ('w, 'i, 'v, 'o, 's) Reduce \<Rightarrow> 's \<Rightarrow> ('w, ('w, 'i, 'v, 'o, 's) Reduce) act" where
  "Reduce_subscribe S self s = abind (on_subscribe S s 0) (\<lambda>s'. ret (self\<lparr>Reduce_subscriber := Some s'\<rparr>))"

definition Reduce_on_next ::
  "('w, 's, 'o) subscriber \<Rightarrow> ('w, 'i, 'v, 'o, 's) Reduce \<Rightarrow> 'i \<Rightarrow> ('w, bool \<times> ('w, 'i, 'v, 'o, 's) Reduce) act" where
  "Reduce_on_next S self t = abind (Reduce_fun self (Reduce_state self) t) (\<lambda>(newstate, outval).
     let self = self\<lparr>Reduce_state := newstate\<rparr> in
     case Reduce_subscriber self of
       Some s \<Rightarrow> abind (on_next S s outval) (\<lambda>(b, s'). ret (b, self\<lparr>Reduce_subscriber := Some s'\<rparr>))
     | None \<Rightarrow> ret (True, self))"

definition Reduce_Subscriber ::
  "('w, 's, 'o) subscriber \<Rightarrow> ('w, ('w, 'i, 'v, 'o, 's) Reduce, 'i) subscriber" where
  "Reduce_Subscriber S =
     \<lparr>on_next = Reduce_on_next S,
      on_subscribe = default_pass_subscribe (\<lambda>i. Reduce_index_update (\<lambda>_. i)),
      on_error = default_pass_error S Reduce_subscriber (\<lambda>s. Reduce_subscriber_update (\<lambda>_. s)),
      on_complete = default_pass_complete S Reduce_subscriber (\<lambda>s. Reduce_subscriber_update (\<lambda>_. s))\<rparr>"

definition Reduce_Publisher :: "('w, 's, 'o) subscriber \<Rightarrow> ('w, ('w, 'i, 'v, 'o, 's) Reduce, 's) publisher" where
  "Reduce_Publisher S =
     \<lparr>subscribe = Reduce_subscribe S,
      pub_next = Publisher_next Publisher_try_next,
      try_next = Publisher_try_next\<rparr>"

section \<open>Enumerate\<close>

record 's Enumerate =
  Enumerate_subscriber :: "'s option"
  Enumerate_index :: "usize option"
  Enumerate_count :: u64

definition Enumerate_new :: "'s Enumerate" where
  "Enumerate_new = \<lparr>Enumerate_subscriber = None, Enumerate_index = None, Enumerate_count = 0\<rparr>"

definition Enumerate_subscribe :: "('w, 's, 'i \<times> u64) subscriber \<Rightarrow> 's Enumerate \<Rightarrow> 's \<Rightarrow> ('w, 's Enumerate) act" where
  "Enumerate_subscribe S self s = abind (on_subscribe S s 0) (\<lambda>s'. ret (self\<lparr>Enumerate_subscriber := Some s'\<rparr>))"

definition Enumerate_on_next ::
  "('w, 's, 'i \<times> u64) subscriber \<Rightarrow> 's Enumerate \<Rightarrow> 'i \<Rightarrow> ('w, bool \<times> 's Enumerate) act" where
  "Enumerate_on_next S self t = (case Enumerate_subscriber self of
      Some s \<Rightarrow>
        (let c = Enumerate_count self; self = self\<lparr>Enumerate_count := Enumerate_count self + 1\<rparr> in
        abind (on_next S s (t, c)) (\<lambda>(b, s'). ret (b, self\<lparr>Enumerate_subscriber := Some s'\<rparr>)))
    | None \<Rightarrow> ret (True, self))"

definition Enumerate_Subscriber ::
  "('w, 's, 'i \<times> u64) subscriber \<Rightarrow> ('w, 's Enumerate, 'i) subscriber" where
  "Enumerate_Subscriber S =
     \<lparr>on_next = Enumerate_on_next S,
      on_subscribe = default_pass_subscribe (\<lambda>i. Enumerate_index_update (\<lambda>_. i)),
      on_error = default_pass_error S Enumerate_subscriber (\<lambda>s. Enumerate_subscriber_update (\<lambda>_. s)),
      on_complete = default_pass_complete S Enumerate_subscriber (\<lambda>s. Enumerate_subscriber_update (\<lambda>_. s))\<rparr>"

definition Enumerate_Publisher :: "('w, 's, 'i \<times> u64) subscriber \<Rightarrow> ('w, 's Enumerate, 's) publisher" where
  "Enumerate_Publisher S =
     \<lparr>subscribe = Enumerate_subscribe S,
      pub_next = Publisher_next Publisher_try_next,
      try_next = Publisher_try_next\<rparr>"

section \<open>Tee\<close>

text \<open>The result of the send is ignored.\<close>

record ('q, 's) Tee =
  Tee_subscriber :: "'s option"
  Tee_index :: "usize option"
  Tee_data_tx :: 'q

definition Tee_new :: "'q \<Rightarrow> ('q, 's) Tee" where
  "Tee_new tx = \<lparr>Tee_subscriber = None, Tee_index = None, Tee_data_tx = tx\<rparr>"

definition Tee_subscribe :: "('w, 's, 'i) subscriber \<Rightarrow> ('q, 's) Tee \<Rightarrow> 's \<Rightarrow> ('w, ('q, 's) Tee) act" where
  "Tee_subscribe S self s = abind (on_subscribe S s 0) (\<lambda>s'. ret (self\<lparr>Tee_subscriber := Some s'\<rparr>))"

definition Tee_on_next ::
  "('w, 'q, 'i) sendable \<Rightarrow> ('w, 's, 'i) subscriber \<Rightarrow> ('q, 's) Tee \<Rightarrow> 'i \<Rightarrow> ('w, bool \<times> ('q, 's) Tee) act" where
  "Tee_on_next Q S self t = (case Tee_subscriber self of
      Some s \<Rightarrow>
        abind (send Q (Tee_data_tx self) t) (\<lambda>_. abind (on_next S s t) (\<lambda>(b, s').
        ret (b, self\<lparr>Tee_subscriber := Some s'\<rparr>)))
    | None \<Rightarrow> ret (True, self))"

definition Tee_Subscriber ::
  "('w, 'q, 'i) sendable \<Rightarrow> ('w, 's, 'i) subscriber \<Rightarrow> ('w, ('q, 's) Tee, 'i) subscriber" where
  "Tee_Subscriber Q S =
     \<lparr>on_next = Tee_on_next Q S,
      on_subscribe = default_pass_subscribe (\<lambda>i. Tee_index_update (\<lambda>_. i)),
      on_error = default_pass_error S Tee_subscriber (\<lambda>s. Tee_subscriber_update (\<lambda>_. s)),
      on_complete = default_pass_complete S Tee_subscriber (\<lambda>s. Tee_subscriber_update (\<lambda>_. s))\<rparr>"

definition Tee_Publisher :: "('w, 's, 'i) subscriber \<Rightarrow> ('w, ('q, 's) Tee, 's) publisher" where
  "Tee_Publisher S =
     \<lparr>subscribe = Tee_subscribe S,
      pub_next = Publisher_next Publisher_try_next,
      try_next = Publisher_try_next\<rparr>"

section \<open>Unzip\<close>

text \<open>\<^verbatim>\<open>s.on_next(t.0) | s.on_next(t.1)\<close>: the strict disjunction always makes both calls.\<close>

record 's Unzip =
  Unzip_subscriber :: "'s option"
  Unzip_index :: "usize option"

definition Unzip_new :: "'s Unzip" where
  "Unzip_new = \<lparr>Unzip_subscriber = None, Unzip_index = None\<rparr>"

definition Unzip_subscribe :: "('w, 's, 'i) subscriber \<Rightarrow> 's Unzip \<Rightarrow> 's \<Rightarrow> ('w, 's Unzip) act" where
  "Unzip_subscribe S self s = abind (on_subscribe S s 0) (\<lambda>s'. ret (self\<lparr>Unzip_subscriber := Some s'\<rparr>))"

definition Unzip_on_next ::
  "('w, 's, 'i) subscriber \<Rightarrow> 's Unzip \<Rightarrow> 'i \<times> 'i \<Rightarrow> ('w, bool \<times> 's Unzip) act" where
  "Unzip_on_next S self t = (case Unzip_subscriber self of
      Some s \<Rightarrow>
        abind (on_next S s (fst t)) (\<lambda>(b0, s0). abind (on_next S s0 (snd t)) (\<lambda>(b1, s1).
        ret (b0 \<or> b1, self\<lparr>Unzip_subscriber := Some s1\<rparr>)))
    | None \<Rightarrow> ret (True, self))"

definition Unzip_Subscriber ::
  "('w, 's, 'i) subscriber \<Rightarrow> ('w, 's Unzip, 'i \<times> 'i) subscriber" where
  "Unzip_Subscriber S =
     \<lparr>on_next = Unzip_on_next S,
      on_subscribe = default_pass_subscribe (\<lambda>i. Unzip_index_update (\<lambda>_. i)),
      on_error = default_pass_error S Unzip_subscriber (\<lambda>s. Unzip_subscriber_update (\<lambda>_. s)),
      on_complete = default_pass_complete S Unzip_subscriber (\<lambda>s. Unzip_subscriber_update (\<lambda>_. s))\<rparr>"

definition Unzip_Publisher :: "('w, 's, 'i) subscriber \<Rightarrow> ('w, 's Unzip, 's) publisher" where
  "Unzip_Publisher S =
     \<lparr>subscribe = Unzip_subscribe S,
      pub_next = Publisher_next Publisher_try_next,
      try_next = Publisher_try_next\<rparr>"

section \<open>Take\<close>

text \<open>The item that exceeds \<^verbatim>\<open>max\<close> is dropped; \<^verbatim>\<open>notified\<close> is written here and read nowhere.\<close>

record 's Take =
  Take_subscriber :: "'s option"
  Take_index :: "usize option"
  Take_count :: usize
  Take_max :: usize
  Take_notified :: bool

definition Take_new :: "usize \<Rightarrow> 's Take" where
  "Take_new mx = \<lparr>Take_subscriber = None, Take_index = None, Take_count = 0, Take_max = mx, Take_notified = False\<rparr>"

definition Take_subscribe :: "('w, 's, 'o) subscriber \<Rightarrow> 's Take \<Rightarrow> 's \<Rightarrow> ('w, 's Take) act" where
  "Take_subscribe S self s = abind (on_subscribe S s 0) (\<lambda>s'. ret (self\<lparr>Take_subscriber := Some s'\<rparr>))"

definition Take_on_next ::
  "('w, 's, 'o) subscriber \<Rightarrow> 's Take \<Rightarrow> 'o \<Rightarrow> ('w, bool \<times> 's Take) act" where
  "Take_on_next S self t = (case Take_subscriber self of
      Some s \<Rightarrow>
        (let self = self\<lparr>Take_count := Take_count self + 1\<rparr> in
        if Take_max self < Take_count self
        then abind (on_complete S s False) (\<lambda>s'.
          ret (False, self\<lparr>Take_subscriber := Some s', Take_notified := True\<rparr>))
        else abind (on_next S s t) (\<lambda>(b, s'). ret (b, self\<lparr>Take_subscriber := Some s'\<rparr>)))
    | None \<Rightarrow> ret (True, self))"

definition Take_Subscriber ::
  "('w, 's, 'o) subscriber \<Rightarrow> ('w, 's Take, 'o) subscriber" where
  "Take_Subscriber S =
     \<lparr>on_next = Take_on_next S,
      on_subscribe = default_pass_subscribe (\<lambda>i. Take_index_update (\<lambda>_. i)),
      on_error = default_pass_error S Take_subscriber (\<lambda>s. Take_subscriber_update (\<lambda>_. s)),
      on_complete = default_pass_complete S Take_subscriber (\<lambda>s. Take_subscriber_update (\<lambda>_. s))\<rparr>"

definition Take_Publisher :: "('w, 's, 'o) subscriber \<Rightarrow> ('w, 's Take, 's) publisher" where
  "Take_Publisher S =
     \<lparr>subscribe = Take_subscribe S,
      pub_next = Publisher_next Publisher_try_next,
      try_next = Publisher_try_next\<rparr>"

lemmas processor_impls [trait_defs] =
  default_pass_error_def default_pass_complete_def default_pass_subscribe_def
  DoDebug_Subscriber_def DoDebug_on_next_def DoDebug_subscribe_def DoDebug_Publisher_def
  DebugWhile_Subscriber_def DebugWhile_on_next_def DebugWhile_subscribe_def DebugWhile_Publisher_def
  Do_Subscriber_def Do_on_next_def Do_subscribe_def Do_Publisher_def
  Map_Subscriber_def Map_on_next_def Map_subscribe_def Map_Publisher_def
  MapVal1_Subscriber_def MapVal1_on_next_def MapVal1_subscribe_def MapVal1_Publisher_def
  Reduce_Subscriber_def Reduce_on_next_def Reduce_subscribe_def Reduce_Publisher_def
  Enumerate_Subscriber_def Enumerate_on_next_def Enumerate_subscribe_def Enumerate_Publisher_def
  Tee_Subscriber_def Tee_on_next_def Tee_subscribe_def Tee_Publisher_def
  Unzip_Subscriber_def Unzip_on_next_def Unzip_subscribe_def Unzip_Publisher_def
  Take_Subscriber_def Take_on_next_def Take_subscribe_def Take_Publisher_def

lemmas processor_news = DoDebug_new_def DebugWhile_new_def Do_new_def Map_new_def MapVal1_new_def Reduce_new_def Enumerate_new_def Tee_new_def Unzip_new_def Take_new_def

end
