(* ===== verification/Rx_Stages.thy ===== *)
theory Rx_Stages
  imports Rx_Processors Rx_Subscribers
begin

text \<open>
  What a processor does to the contract of its subscriber. The locale \<open>stage\<close> is the shape
  eight of the ten processors share: one item in, one item out, computed by a Mealy machine
  \<open>g\<close> on the processor's own state, after a side effect \<open>eff\<close>; completion and errors are
  passed on. It is interpreted on each of them, and from a contract of the subscriber it gives
  a contract of the processor in front of it. \<^verbatim>\<open>Unzip\<close> and \<^verbatim>\<open>Take\<close>, which send two items or
  stop the stream, have lemmas of their own.
\<close>

section \<open>The list functions behind the stages\<close>

lemma mealy_enumerate:
  "mealy (\<lambda>c x. ((x, c), c + 1)) c xs = zip xs (map (\<lambda>i. (c :: u64) + of_nat i) [0..<length xs])"
proof (induction xs arbitrary: c)
  case (Cons x xs)
  have "map (\<lambda>i. c + of_nat i) [0..<length (x # xs)] = c # map (\<lambda>i. (c + 1) + of_nat i) [0..<length xs]"
    by (simp add: upt_conv_Cons map_Suc_upt [symmetric] comp_def add.assoc del: upt_Suc map_Suc_upt)
  with Cons show ?case by simp
qed simp

lemma mealy_reduce:
  "mealy (\<lambda>v x. (snd (f v x), fst (f v x))) v xs =
   map (\<lambda>i. snd (f (foldl (\<lambda>v x. fst (f v x)) v (take i xs)) (xs ! i))) [0..<length xs]"
proof (induction xs arbitrary: v)
  case (Cons x xs)
  then show ?case
    by (simp add: upt_conv_Cons map_Suc_upt [symmetric] comp_def del: upt_Suc map_Suc_upt)
qed simp

section \<open>One-to-one stages\<close>

definition lift_eff ::
  "('k \<Rightarrow> 'i \<Rightarrow> 'o \<times> 'k) \<Rightarrow> ('k \<Rightarrow> 'i \<Rightarrow> 'a \<Rightarrow> 'a) \<Rightarrow> ('a \<Rightarrow> 'o \<Rightarrow> bool \<times> 'a) \<Rightarrow> 'k \<times> 'a \<Rightarrow> 'i \<Rightarrow> bool \<times> ('k \<times> 'a)" where
  "lift_eff g ae nx ka x =
     (let r = nx (ae (fst ka) x (snd ka)) (fst (g (fst ka) x))
      in (fst r, (snd (g (fst ka) x), snd r)))"

definition lift_next ::
  "('k \<Rightarrow> 'i \<Rightarrow> 'o \<times> 'k) \<Rightarrow> ('a \<Rightarrow> 'o \<Rightarrow> bool \<times> 'a) \<Rightarrow> 'k \<times> 'a \<Rightarrow> 'i \<Rightarrow> bool \<times> ('k \<times> 'a)" where
  "lift_next g nx = lift_eff g (\<lambda>_ _ a. a) nx"

definition lift_keep :: "('a \<Rightarrow> 'b \<Rightarrow> 'a) \<Rightarrow> 'k \<times> 'a \<Rightarrow> 'b \<Rightarrow> 'k \<times> 'a" where
  "lift_keep f ka x = (fst ka, f (snd ka) x)"

lemma lift_keep_apply [simp]: "lift_keep f (k, a) x = (k, f a x)"
  by (simp add: lift_keep_def)

lemma fst_a_feed_lift: "fst (a_feed (lift_next g nx) (k, a) xs) = fst (a_feed nx a (mealy g k xs))"
  by (induction xs arbitrary: k a) (auto simp: lift_next_def lift_eff_def)

lemma snd_a_feed_lift:
  "snd (snd (a_feed (lift_next g nx) (k, a) xs)) = snd (a_feed nx a (mealy g k xs))"
  by (induction xs arbitrary: k a) (auto simp: lift_next_def lift_eff_def)

lemmas a_feed_lift = fst_a_feed_lift snd_a_feed_lift

locale stage =
  fixes P :: "('w, 'p, 'i) subscriber"
    and S :: "('w, 's, 'o) subscriber"
    and sub :: "'p \<Rightarrow> 's option"
    and put :: "'s \<Rightarrow> 'p \<Rightarrow> 'p"
    and wf :: "'p \<Rightarrow> bool"
    and key :: "'p \<Rightarrow> 'k"
    and adv :: "'p \<Rightarrow> 'i \<Rightarrow> 'p"
    and g :: "'k \<Rightarrow> 'i \<Rightarrow> 'o \<times> 'k"
    and eff :: "'k \<Rightarrow> 'i \<Rightarrow> 'w \<Rightarrow> 'w"
  assumes stage_next: "wf p \<Longrightarrow> sub p = Some s \<Longrightarrow>
      on_next P p x w = abind (on_next S s (fst (g (key p) x)))
        (\<lambda>(b, s'). ret (b, put s' (adv p x))) (eff (key p) x w)"
    and stage_complete: "sub p = Some s \<Longrightarrow>
      on_complete P p force = abind (on_complete S s force) (\<lambda>s'. ret (put s' p))"
    and stage_error: "sub p = Some s \<Longrightarrow>
      on_error P p err = abind (on_error S s err) (\<lambda>s'. ret (put s' p))"
    and stage_subscribe: "wf p \<Longrightarrow>
      \<exists>p'. on_subscribe P p index = ret p' \<and> wf p' \<and> sub p' = sub p \<and> key p' = key p"
    and stage_put: "wf p \<Longrightarrow> wf (put s p)" "sub (put s p) = Some s" "key (put s p) = key p"
      "sub p = Some s \<Longrightarrow> put s p = p" "put s (put s' p) = put s p"
    and stage_adv: "wf p \<Longrightarrow> wf (adv p x)" "wf p \<Longrightarrow> key (adv p x) = snd (g (key p) x)"
begin

text \<open>A panic or a wait of the subscriber is a panic or a wait of the processor.\<close>

lemma stage_next_fails:
  assumes "wf p" "sub p = Some s"
  shows "on_next S s (fst (g (key p) x)) (eff (key p) x w) = (Panic e, w') \<Longrightarrow> on_next P p x w = (Panic e, w')"
    and "on_next S s (fst (g (key p) x)) (eff (key p) x w) = (Blocked, w') \<Longrightarrow> on_next P p x w = (Blocked, w')"
  using assms by (simp_all add: stage_next abind_def)

text \<open>
  A stage without side effects, fed a batch: the subscriber is fed the Mealy machine's outputs,
  whatever it does with them.
\<close>

lemma stage_feed:
  assumes pure: "\<And>k x w. eff k x w = w" and "wf p" "sub p = Some s"
  shows "\<exists>p1. feed (on_next P) p xs w =
    abind (feed (on_next S) s (mealy g (key p) xs)) (\<lambda>(b, s'). ret (b, put s' p1)) w"
  using assms(2,3)
proof (induction xs arbitrary: p s w)
  case Nil
  then show ?case by (auto simp: stage_put intro: exI [of _ p])
next
  case (Cons x xs)
  show ?case
  proof (cases "on_next S s (fst (g (key p) x)) w" rule: outcome_exhaust3)
    case (Ret bs w')
    obtain b s' where bs: "bs = (b, s')" by force
    let ?p = "put s' (adv p x)"
    have step: "on_next P p x w = (Ret (b, ?p), w')"
      using Ret bs Cons.prems pure by (simp add: stage_next abind_def)
    have p: "wf ?p" "sub ?p = Some s'" "key ?p = snd (g (key p) x)"
      using Cons.prems by (simp_all add: stage_put stage_adv)
    show ?thesis
      using Cons.IH [OF p(1,2), of w'] Ret bs step p(3)
      by (auto simp: feed_Cons_Ret [where nx = "on_next P", OF step] abind_def)
  next
    case (Panic e w')
    then show ?thesis using Cons.prems pure by (auto simp: stage_next abind_def)
  next
    case (Blocked w')
    then show ?thesis using Cons.prems pure by (auto simp: stage_next abind_def)
  qed
qed

text \<open>A stage that keeps no state of its own: only the subscriber changes.\<close>

lemma stage_feed_stateless:
  assumes pure: "\<And>k x w. eff k x w = w" and idle: "\<And>p x. adv p x = p" and "wf p" "sub p = Some s"
  shows "feed (on_next P) p xs w =
    abind (feed (on_next S) s (mealy g (key p) xs)) (\<lambda>(b, s'). ret (b, put s' p)) w"
  using assms(3,4)
proof (induction xs arbitrary: p s w)
  case Nil
  then show ?case by (simp add: stage_put)
next
  case (Cons x xs)
  have step: "on_next P p x w = abind (on_next S s (fst (g (key p) x))) (\<lambda>(b, s'). ret (b, put s' p)) w"
    using Cons.prems pure idle by (simp add: stage_next)
  have key: "snd (g (key p) x) = key p" using stage_adv(2) [OF Cons.prems(1), of x] idle by simp
  show ?case
  proof (cases "on_next S s (fst (g (key p) x)) w" rule: outcome_exhaust3)
    case (Ret bs w')
    obtain b s' where bs: "bs = (b, s')" by force
    have p': "wf (put s' p)" "sub (put s' p) = Some s'" using Cons.prems by (simp_all add: stage_put)
    show ?thesis
      using Cons.IH [OF p', of w'] step Ret bs key by (auto simp: abind_def stage_put)
  qed (use step in \<open>auto simp: abind_def\<close>)
qed

text \<open>
  The contract carries over: \<open>ae\<close> is what the side effect does to the abstract state.
\<close>

lemma stage_refines_eff:
  assumes down: "Subscriber_refines S sinv sabs a_next a_complete a_error"
    and track: "\<And>s w k x. sinv s w \<Longrightarrow> sinv s (eff k x w) \<and> sabs s (eff k x w) = ae k x (sabs s w)"
  shows "Subscriber_refines P
     (\<lambda>p w. wf p \<and> (\<exists>s. sub p = Some s \<and> sinv s w))
     (\<lambda>p w. (key p, sabs (the (sub p)) w))
     (lift_eff g ae a_next) (lift_keep a_complete) (lift_keep a_error)"
proof (unfold_locales, goal_cases)
  case (1 p w x)
  then obtain s where p: "wf p" "sub p = Some s" and inv: "sinv s w" by auto
  let ?w = "eff (key p) x w"
  have inv_eff: "sinv s ?w" and abs_eff: "sabs s ?w = ae (key p) x (sabs s w)" using track [OF inv] by auto
  obtain s' w' where "on_next S s (fst (g (key p) x)) ?w = (Ret (fst (a_next (sabs s ?w) (fst (g (key p) x))), s'), w')"
      "sinv s' w'" "sabs s' w' = snd (a_next (sabs s ?w) (fst (g (key p) x)))"
    using down inv_eff by (rule Subscriber_refines.nextE)
  with p show ?case
    by (simp add: stage_next stage_put stage_adv lift_eff_def Let_def abs_eff meets_next_def abind_def)
next
  case (2 p w force)
  then obtain s where p: "wf p" "sub p = Some s" and inv: "sinv s w" by auto
  obtain s' w' where "on_complete S s force w = (Ret s', w')" "sinv s' w'" "sabs s' w' = a_complete (sabs s w) force"
    using down inv by (rule Subscriber_refines.completeE)
  with p show ?case by (simp add: stage_complete stage_put meets_def abind_def)
next
  case (3 p w err)
  then obtain s where p: "wf p" "sub p = Some s" and inv: "sinv s w" by auto
  obtain s' w' where "on_error S s err w = (Ret s', w')" "sinv s' w'" "sabs s' w' = a_error (sabs s w) err"
    using down inv by (rule Subscriber_refines.errorE)
  with p show ?case by (simp add: stage_error stage_put meets_def abind_def)
next
  case (4 p w index)
  then obtain p' where "on_subscribe P p index = ret p'" "wf p'" "sub p' = sub p" "key p' = key p"
    using stage_subscribe [of p index] by auto
  with 4 show ?case by (auto simp: meets_def)
qed

lemma stage_refines:
  assumes down: "Subscriber_refines S sinv sabs a_next a_complete a_error"
    and stable: "\<And>s w k x. sinv s w \<Longrightarrow> sinv s (eff k x w) \<and> sabs s (eff k x w) = sabs s w"
  shows "Subscriber_refines P
     (\<lambda>p w. wf p \<and> (\<exists>s. sub p = Some s \<and> sinv s w))
     (\<lambda>p w. (key p, sabs (the (sub p)) w))
     (lift_next g a_next) (lift_keep a_complete) (lift_keep a_error)"
  unfolding lift_next_def by (rule stage_refines_eff [OF down stable])

end

section \<open>The stages\<close>

definition no_eff :: "'k \<Rightarrow> 'i \<Rightarrow> 'w \<Rightarrow> 'w" where
  "no_eff k x w = w"

lemma no_eff_simp [simp]: "no_eff k x w = w"
  by (simp add: no_eff_def)

definition print_line :: "string \<Rightarrow> ('m, 'z) world_scheme \<Rightarrow> ('m, 'z) world_scheme" where
  "print_line line w = w\<lparr>stdout := stdout w @ [line]\<rparr>"

lemma println_effect: "println line = effect (print_line line)"
  by (simp add: println_def print_line_def [abs_def])

interpretation map_stage: stage
  "Map_Subscriber S" S Map_subscriber "\<lambda>s p. p\<lparr>Map_subscriber := Some s\<rparr>"
  "\<lambda>p. Map_fun p = (\<lambda>x. ret (f x))" "\<lambda>_. ()" "\<lambda>p _. p" "\<lambda>k x. (f x, k)" no_eff
  for S f
  by unfold_locales (auto intro: Map_Proc.equality simp: trait_defs)

interpretation mapval1_stage: stage
  "MapVal1_Subscriber S" S MapVal1_subscriber "\<lambda>s p. p\<lparr>MapVal1_subscriber := Some s\<rparr>"
  "\<lambda>p. MapVal1_fun p = (\<lambda>x v. ret (f x v))" MapVal1_val "\<lambda>p _. p" "\<lambda>v x. (f x v, v)" no_eff
  for S f
  by unfold_locales (auto intro: MapVal1.equality simp: trait_defs)

interpretation do_stage: stage
  "Do_Subscriber S" S Do_subscriber "\<lambda>s p. p\<lparr>Do_subscriber := Some s\<rparr>"
  "\<lambda>p. Do_fun p = (\<lambda>x. effect (f x))" "\<lambda>_. ()" "\<lambda>p _. p" "\<lambda>k x. (x, k)" "\<lambda>k. f"
  for S f
  by unfold_locales (auto intro: Do.equality simp: trait_defs)

interpretation dodebug_stage: stage
  "DoDebug_Subscriber dbg S" S DoDebug_subscriber "\<lambda>s p. p\<lparr>DoDebug_subscriber := Some s\<rparr>"
  "\<lambda>p. True" "\<lambda>_. ()" "\<lambda>p _. p" "\<lambda>k x. (x, k)" "\<lambda>k x. print_line (dbg x)"
  for dbg S
  by unfold_locales (auto intro: DoDebug.equality simp: trait_defs println_effect)

interpretation debugwhile_stage: stage
  "DebugWhile_Subscriber dbg S" S DebugWhile_subscriber "\<lambda>s p. p\<lparr>DebugWhile_subscriber := Some s\<rparr>"
  "\<lambda>p. DebugWhile_fun p = (\<lambda>x. ret (c x))" "\<lambda>_. ()" "\<lambda>p _. p" "\<lambda>k x. (x, k)"
  "\<lambda>k x w. if c x then print_line (dbg x) w else w"
  for dbg S c
  by unfold_locales (auto intro: DebugWhile.equality simp: trait_defs println_effect)

interpretation reduce_stage: stage
  "Reduce_Subscriber S" S Reduce_subscriber "\<lambda>s p. p\<lparr>Reduce_subscriber := Some s\<rparr>"
  "\<lambda>p. Reduce_fun p = (\<lambda>v x. ret (f v x))" Reduce_state
  "\<lambda>p x. p\<lparr>Reduce_state := fst (f (Reduce_state p) x)\<rparr>" "\<lambda>v x. (snd (f v x), fst (f v x))" no_eff
  for S f
  by unfold_locales (auto intro: Reduce.equality simp: trait_defs split: prod.splits)

interpretation enumerate_stage: stage
  "Enumerate_Subscriber S" S Enumerate_subscriber "\<lambda>s p. p\<lparr>Enumerate_subscriber := Some s\<rparr>"
  "\<lambda>p. True" Enumerate_count "\<lambda>p _. p\<lparr>Enumerate_count := Enumerate_count p + 1\<rparr>"
  "\<lambda>c x. ((x, c), c + 1)" no_eff
  for S
  by unfold_locales (auto intro: Enumerate.equality simp: trait_defs Let_def)

text \<open>
  \<^verbatim>\<open>Tee\<close> in front of an unbounded queue: the copy goes into the queue while its receiver lives
  and is dropped otherwise.
\<close>

definition chan_push :: "chan_id \<Rightarrow> 'm \<Rightarrow> ('m, 'z) world_scheme \<Rightarrow> ('m, 'z) world_scheme" where
  "chan_push q x w =
     (if ch_receiver (chans w q)
      then set_chan q ((chans w q)\<lparr>ch_buf := ch_buf (chans w q) @ [x]\<rparr>) w else w)"

lemma send_Sender_chan_push:
  "send Sender_Sendable q x w = (Ret (if ch_receiver (chans w q) then Inr () else Inl x), chan_push q x w)"
  by (simp add: chan_push_def Sender_send_Ok Sender_send_Err)

interpretation tee_stage: stage
  "Tee_Subscriber Sender_Sendable S" S Tee_subscriber "\<lambda>s p. p\<lparr>Tee_subscriber := Some s\<rparr>"
  "\<lambda>p. Tee_data_tx p = q" "\<lambda>_. ()" "\<lambda>p _. p" "\<lambda>k x. (x, k)" "\<lambda>k. chan_push q"
  for S q
  by unfold_locales (auto intro: Tee.equality simp: trait_defs abind_def send_Sender_chan_push)

section \<open>Unzip\<close>

definition unzip_next :: "('a \<Rightarrow> 'i \<Rightarrow> bool \<times> 'a) \<Rightarrow> 'a \<Rightarrow> 'i \<times> 'i \<Rightarrow> bool \<times> 'a" where
  "unzip_next nx a t =
     (let r0 = nx a (fst t); r1 = nx (snd r0) (snd t) in (fst r0 \<or> fst r1, snd r1))"

lemma Unzip_refines:
  assumes down: "Subscriber_refines S sinv sabs a_next a_complete a_error"
  shows "Subscriber_refines (Unzip_Subscriber S)
     (\<lambda>p w. \<exists>s. Unzip_subscriber p = Some s \<and> sinv s w) (\<lambda>p w. sabs (the (Unzip_subscriber p)) w)
     (unzip_next a_next) a_complete a_error"
proof (unfold_locales, goal_cases)
  case (1 p w t)
  then obtain s where p: "Unzip_subscriber p = Some s" and inv: "sinv s w" by blast
  obtain s0 w0 where step0: "on_next S s (fst t) w = (Ret (fst (a_next (sabs s w) (fst t)), s0), w0)"
      and inv0: "sinv s0 w0" and abs0: "sabs s0 w0 = snd (a_next (sabs s w) (fst t))"
    using down inv by (rule Subscriber_refines.nextE)
  obtain s1 w1 where step1: "on_next S s0 (snd t) w0 = (Ret (fst (a_next (sabs s0 w0) (snd t)), s1), w1)"
      "sinv s1 w1" "sabs s1 w1 = snd (a_next (sabs s0 w0) (snd t))"
    using down inv0 by (rule Subscriber_refines.nextE)
  show ?case
    using p step0 abs0 step1 by (simp add: trait_defs abind_def unzip_next_def Let_def meets_next_def)
next
  case (2 p w force)
  then obtain s where p: "Unzip_subscriber p = Some s" and inv: "sinv s w" by blast
  obtain s' w' where "on_complete S s force w = (Ret s', w')" "sinv s' w'" "sabs s' w' = a_complete (sabs s w) force"
    using down inv by (rule Subscriber_refines.completeE)
  with p show ?case by (simp add: trait_defs abind_def meets_def)
next
  case (3 p w err)
  then obtain s where p: "Unzip_subscriber p = Some s" and inv: "sinv s w" by blast
  obtain s' w' where "on_error S s err w = (Ret s', w')" "sinv s' w'" "sabs s' w' = a_error (sabs s w) err"
    using down inv by (rule Subscriber_refines.errorE)
  with p show ?case by (simp add: trait_defs abind_def meets_def)
next
  case (4 p w index)
  then show ?case by (auto simp: trait_defs meets_def)
qed

text \<open>While the subscriber keeps asking for more, the pairs arrive flattened.\<close>

lemma a_feed_unzip_True:
  assumes "fst (a_feed nx a (concat (map (\<lambda>t. [fst t, snd t]) ts)))"
  shows "a_feed (unzip_next nx) a ts = a_feed nx a (concat (map (\<lambda>t. [fst t, snd t]) ts))"
  using assms by (induction ts arbitrary: a) (auto simp: unzip_next_def Let_def split: if_splits)

section \<open>Take\<close>

definition take_next ::
  "usize \<Rightarrow> ('a \<Rightarrow> 'i \<Rightarrow> bool \<times> 'a) \<Rightarrow> ('a \<Rightarrow> bool \<Rightarrow> 'a) \<Rightarrow> usize \<times> 'a \<Rightarrow> 'i \<Rightarrow> bool \<times> (usize \<times> 'a)" where
  "take_next mx nx cp ka x =
     (if mx < fst ka + 1 then (False, (fst ka + 1, cp (snd ka) False))
      else (fst (nx (snd ka) x), (fst ka + 1, snd (nx (snd ka) x))))"

lemma Take_refines:
  assumes down: "Subscriber_refines S sinv sabs a_next a_complete a_error"
  shows "Subscriber_refines (Take_Subscriber S)
     (\<lambda>p w. Take_max p = mx \<and> (\<exists>s. Take_subscriber p = Some s \<and> sinv s w))
     (\<lambda>p w. (Take_count p, sabs (the (Take_subscriber p)) w))
     (take_next mx a_next a_complete) (lift_keep a_complete) (lift_keep a_error)"
proof (unfold_locales, goal_cases)
  case (1 p w x)
  then obtain s where p: "Take_subscriber p = Some s" "Take_max p = mx" and inv: "sinv s w" by blast
  show ?case
  proof (cases "mx < Take_count p + 1")
    case True
    obtain s' w' where "on_complete S s False w = (Ret s', w')" "sinv s' w'" "sabs s' w' = a_complete (sabs s w) False"
      using down inv by (rule Subscriber_refines.completeE)
    with True p show ?thesis by (simp add: trait_defs abind_def take_next_def Let_def meets_next_def)
  next
    case False
    obtain s' w' where "on_next S s x w = (Ret (fst (a_next (sabs s w) x), s'), w')"
        "sinv s' w'" "sabs s' w' = snd (a_next (sabs s w) x)"
      using down inv by (rule Subscriber_refines.nextE)
    with False p show ?thesis by (simp add: trait_defs abind_def take_next_def Let_def meets_next_def)
  qed
next
  case (2 p w force)
  then obtain s where p: "Take_subscriber p = Some s" "Take_max p = mx" and inv: "sinv s w" by blast
  obtain s' w' where "on_complete S s force w = (Ret s', w')" "sinv s' w'" "sabs s' w' = a_complete (sabs s w) force"
    using down inv by (rule Subscriber_refines.completeE)
  with p show ?case by (simp add: trait_defs abind_def meets_def)
next
  case (3 p w err)
  then obtain s where p: "Take_subscriber p = Some s" "Take_max p = mx" and inv: "sinv s w" by blast
  obtain s' w' where "on_error S s err w = (Ret s', w')" "sinv s' w'" "sabs s' w' = a_error (sabs s w) err"
    using down inv by (rule Subscriber_refines.errorE)
  with p show ?case by (simp add: trait_defs abind_def meets_def)
next
  case (4 p w index)
  then show ?case by (auto simp: trait_defs meets_def)
qed

text \<open>
  With \<open>n\<close> items left to take, the subscriber sees the first \<open>n\<close>; one more item completes it
  and stops the stream.
\<close>

lemma a_feed_take_within:
  assumes "length xs \<le> n" "unat c + n = unat mx"
  shows "a_feed (take_next mx nx cp) (c, a) xs =
    (fst (a_feed nx a xs), (fst (snd (a_feed (take_next mx nx cp) (c, a) xs)), snd (a_feed nx a xs)))"
  using assms
proof (induction xs arbitrary: c a n)
  case Nil
  then show ?case by simp
next
  case (Cons x xs)
  then obtain m where n: "n = Suc m" by (cases n) auto
  have c: "unat (c + 1) = unat c + 1"
    using Cons.prems n by (intro unat_plus_one64 [of _ mx]) simp
  have le: "\<not> mx < c + 1" using c Cons.prems n by (simp add: word_less_nat_alt)
  show ?case
    using Cons.IH [of m "c + 1" "snd (nx a x)"] Cons.prems n c le
    by (auto simp: take_next_def)
qed

lemma a_feed_take_over:
  assumes "n < length xs" "unat c + n = unat mx" "mx \<noteq> -1"
  shows "a_feed (take_next mx nx cp) (c, a) xs =
    (False, (fst (snd (a_feed (take_next mx nx cp) (c, a) xs)),
       let r = a_feed nx a (take n xs) in if fst r then cp (snd r) False else snd r))"
  using assms
proof (induction n arbitrary: c a xs)
  case 0
  then obtain x xs' where xs: "xs = x # xs'" by (cases xs) auto
  have "c = mx" using 0 by (simp add: word_unat_eq_iff)
  moreover have "mx < mx + 1" using "0.prems"(3) by (rule less_plus_one64)
  ultimately show ?case using xs by (simp add: take_next_def)
next
  case (Suc n)
  then obtain x xs' where xs: "xs = x # xs'" by (cases xs) auto
  have c: "unat (c + 1) = unat c + 1"
    using Suc.prems by (intro unat_plus_one64 [of _ mx]) simp
  have le: "\<not> mx < c + 1" using c Suc.prems by (simp add: word_less_nat_alt)
  show ?case
    using Suc.IH [of xs' "c + 1" "snd (nx a x)"] Suc.prems xs c le
    by (auto simp: take_next_def Let_def)
qed

section \<open>What the stages do to a batch\<close>

text \<open>C22. A batch of items handed to \<^verbatim>\<open>Map\<close> is, for the subscriber behind it, the batch of their
  images: same calls, same answer, same panics and waits, and nothing of the processor changes
  but its subscriber.\<close>

theorem Map_feed_images:
  assumes "Map_fun p = (\<lambda>x. ret (f x))" "Map_subscriber p = Some s"
  shows "feed (on_next (Map_Subscriber S)) p xs w =
    abind (feed (on_next S) s (map f xs)) (\<lambda>(b, s'). ret (b, p\<lparr>Map_subscriber := Some s'\<rparr>)) w"
  using map_stage.stage_feed_stateless [OF _ _ assms] by simp

theorem Map_feed_images_witness:
  "feed (on_next (Map_Subscriber Collect_Subscriber))
     (Map_new (\<lambda>x :: int. ret (x * 10))\<lparr>Map_subscriber := Some (Collect_new [])\<rparr>) [1, 2, 3] () =
   (Ret (True, (Map_new (\<lambda>x. ret (x * 10)))\<lparr>Map_subscriber := Some ((Collect_new [])\<lparr>Collect_val := [10, 20, 30]\<rparr>)\<rparr>), ())"
  using Map_feed_images [of "Map_new (\<lambda>x :: int. ret (x * 10))\<lparr>Map_subscriber := Some (Collect_new [])\<rparr>"
      "\<lambda>x. x * 10" "Collect_new []" Collect_Subscriber "[1, 2, 3]" "()"]
  by (simp add: Map_new_def Collect_new_def trait_defs)

text \<open>\<^verbatim>\<open>Enumerate\<close> pairs the items of a batch with consecutive numbers, starting from its counter
  and modulo \<open>2 ^ 64\<close>.\<close>

theorem Enumerate_feed_numbers:
  assumes "Enumerate_subscriber p = Some s"
  shows "\<exists>p1. feed (on_next (Enumerate_Subscriber S)) p xs w =
    abind (feed (on_next S) s (zip xs (map (\<lambda>i. Enumerate_count p + of_nat i) [0..<length xs])))
      (\<lambda>(b, s'). ret (b, p1\<lparr>Enumerate_subscriber := Some s'\<rparr>)) w"
  using enumerate_stage.stage_feed [OF _ TrueI assms, of S xs w] by (simp add: mealy_enumerate)

theorem Enumerate_feed_numbers_witness:
  "\<exists>p1. feed (on_next (Enumerate_Subscriber Collect_Subscriber))
     (Enumerate_new\<lparr>Enumerate_subscriber := Some (Collect_new []), Enumerate_count := -1\<rparr>) [True, False] () =
   (Ret (True, p1\<lparr>Enumerate_subscriber := Some \<lparr>Collect_index = None, Collect_val = [(True, -1), (False, 0)]\<rparr>\<rparr>), ())"
  using Enumerate_feed_numbers
    [of "Enumerate_new\<lparr>Enumerate_subscriber := Some (Collect_new []), Enumerate_count := -1\<rparr>"
      "Collect_new []" Collect_Subscriber "[True, False]" "()"]
  by (simp add: Enumerate_new_def Collect_new_def trait_defs upt_rec)

text \<open>\<^verbatim>\<open>Reduce\<close> sends, for every item of a batch, the output of its fold function at the state
  all earlier items have led to.\<close>

theorem Reduce_feed_running:
  assumes "Reduce_fun p = (\<lambda>v x. ret (f v x))" "Reduce_subscriber p = Some s"
  shows "\<exists>p1. feed (on_next (Reduce_Subscriber S)) p xs w =
    abind (feed (on_next S) s
        (map (\<lambda>i. snd (f (foldl (\<lambda>v x. fst (f v x)) (Reduce_state p) (take i xs)) (xs ! i))) [0..<length xs]))
      (\<lambda>(b, s'). ret (b, p1\<lparr>Reduce_subscriber := Some s'\<rparr>)) w"
  using reduce_stage.stage_feed [OF _ assms, of S xs w] by (simp add: mealy_reduce)

theorem Reduce_feed_running_witness:
  "\<exists>p1. feed (on_next (Reduce_Subscriber Collect_Subscriber))
     (Reduce_new 0 (\<lambda>v x :: int. ret (v + x, v + x))\<lparr>Reduce_subscriber := Some (Collect_new [])\<rparr>) [1, 2, 3] () =
   (Ret (True, p1\<lparr>Reduce_subscriber := Some \<lparr>Collect_index = None, Collect_val = [1, 3, 6]\<rparr>\<rparr>), ())"
  using Reduce_feed_running
    [of "Reduce_new 0 (\<lambda>v x :: int. ret (v + x, v + x))\<lparr>Reduce_subscriber := Some (Collect_new [])\<rparr>"
      "\<lambda>v x. (v + x, v + x)" "Collect_new []" Collect_Subscriber "[1, 2, 3]" "()"]
  by (simp add: Reduce_new_def Collect_new_def trait_defs upt_rec)

text \<open>C31. \<^verbatim>\<open>Unzip\<close> in front of a full \<^verbatim>\<open>Take\<close>: one pair completes the subscriber behind them twice,
  because the strict disjunction makes the second call although the first answered \<open>False\<close>, and
  \<^verbatim>\<open>Take\<close> never looks at its \<^verbatim>\<open>notified\<close> flag.\<close>

theorem Unzip_Take_completes_twice:
  assumes "Unzip_subscriber p = Some t" "Take_subscriber t = Some s"
    and "Take_max t < Take_count t + 1" "Take_max t < Take_count t + 2"
  shows "on_next (Unzip_Subscriber (Take_Subscriber S)) p (x, y) =
    abind (on_complete S s False) (\<lambda>s1. abind (on_complete S s1 False) (\<lambda>s2.
      ret (False, p\<lparr>Unzip_subscriber := Some
        (t\<lparr>Take_count := Take_count t + 2, Take_subscriber := Some s2, Take_notified := True\<rparr>)\<rparr>)))"
  using assms by (simp add: trait_defs abind_assoc Let_def add.assoc)

theorem Unzip_Take_completes_twice_witness:
  "on_next (Unzip_Subscriber (Take_Subscriber \<lparr>on_next = (\<lambda>s _. ret (True, s)), on_subscribe = (\<lambda>s _. ret s),
       on_error = (\<lambda>s _. ret s), on_complete = (\<lambda>n _. ret (n + 1))\<rparr>))
     (Unzip_new\<lparr>Unzip_subscriber := Some ((Take_new 0)\<lparr>Take_subscriber := Some (0 :: nat)\<rparr>)\<rparr>) (True, False) =
   ret (False, Unzip_new\<lparr>Unzip_subscriber := Some
      ((Take_new 0)\<lparr>Take_subscriber := Some 2, Take_count := 2, Take_notified := True\<rparr>)\<rparr>)"
  using Unzip_Take_completes_twice
    [of "Unzip_new\<lparr>Unzip_subscriber := Some ((Take_new 0)\<lparr>Take_subscriber := Some (0 :: nat)\<rparr>)\<rparr>"
      "(Take_new 0)\<lparr>Take_subscriber := Some (0 :: nat)\<rparr>" 0
      "\<lparr>on_next = (\<lambda>s _. ret (True, s)), on_subscribe = (\<lambda>s _. ret s),
       on_error = (\<lambda>s _. ret s), on_complete = (\<lambda>n _. ret (n + 1))\<rparr>" True False]
  by (simp add: Unzip_new_def Take_new_def numeral_2_eq_2)

end
