(* ===== verification/Rx_Publishers.thy ===== *)
theory Rx_Publishers
  imports Rx_Subscribers
begin

text \<open>
  The publishers of \<^verbatim>\<open>src/publisherimpl.rs\<close>. What they pull from is a parameter: the
  iterator's \<^verbatim>\<open>next\<close> (an action \<open>it_next\<close>) for \<^verbatim>\<open>IterPublisher\<close>, \<^verbatim>\<open>quickcheck\<close>'s generator
  (\<open>arbitrary\<close>, \<open>stdgen_new\<close>) for \<^verbatim>\<open>RndGen\<close>; \<^verbatim>\<open>Coupler\<close> receives from a queue of the world.
  The lemmas relate \<^verbatim>\<open>run\<close> over each publisher to the batch loop \<open>feed\<close>, and so to the
  contract of the subscriber.
\<close>

section \<open>TestIncGen\<close>

record TestIncGen =
  TestIncGen_current :: u64

definition TestIncGen_next_u32 :: "TestIncGen \<Rightarrow> u32 \<times> TestIncGen" where
  "TestIncGen_next_u32 self =
     (let c = TestIncGen_current self
      in (ucast c, self\<lparr>TestIncGen_current := TestIncGen_current self + 1\<rparr>))"

definition TestIncGen_next_u64 :: "TestIncGen \<Rightarrow> u64 \<times> TestIncGen" where
  "TestIncGen_next_u64 self =
     (let c = TestIncGen_current self
      in (c, self\<lparr>TestIncGen_current := TestIncGen_current self + 1\<rparr>))"

section \<open>RndGen\<close>

record ('g, 's) RndGen =
  RndGen_subscriber :: "'s option"
  RndGen_gen :: 'g

definition RndGen_new :: "(TestIncGen \<Rightarrow> usize \<Rightarrow> 'g) \<Rightarrow> ('g, 's) RndGen" where
  "RndGen_new stdgen_new =
     \<lparr>RndGen_subscriber = None, RndGen_gen = stdgen_new \<lparr>TestIncGen_current = 0\<rparr> 1000000\<rparr>"

definition RndGen_subscribe ::
  "('w, 's, 'o) subscriber \<Rightarrow> ('g, 's) RndGen \<Rightarrow> 's \<Rightarrow> ('w, ('g, 's) RndGen) act" where
  "RndGen_subscribe S self s = abind (on_subscribe S s 0) (\<lambda>s'. ret (self\<lparr>RndGen_subscriber := Some s'\<rparr>))"

definition RndGen_try_next ::
  "('g \<Rightarrow> ('w, 'o \<times> 'g) act) \<Rightarrow> ('w, 's, 'o) subscriber \<Rightarrow> ('g, 's) RndGen \<Rightarrow> ('w, bool \<times> ('g, 's) RndGen) act" where
  "RndGen_try_next arbitrary S self = (case RndGen_subscriber self of
      Some s \<Rightarrow>
        abind (arbitrary (RndGen_gen self)) (\<lambda>(x, gen').
          abind (on_next S s x) (\<lambda>(b, s').
            ret (b, self\<lparr>RndGen_gen := gen', RndGen_subscriber := Some s'\<rparr>)))
    | None \<Rightarrow> ret (False, self))"

definition RndGen_Publisher ::
  "('g \<Rightarrow> ('w, 'o \<times> 'g) act) \<Rightarrow> ('w, 's, 'o) subscriber \<Rightarrow> ('w, ('g, 's) RndGen, 's) publisher" where
  "RndGen_Publisher arbitrary S =
     \<lparr>subscribe = RndGen_subscribe S,
      pub_next = Publisher_next (RndGen_try_next arbitrary S),
      try_next = RndGen_try_next arbitrary S\<rparr>"

section \<open>IterPublisher\<close>

record ('it, 's) IterPublisher =
  IterPublisher_iter :: 'it
  IterPublisher_subscriber :: "'s option"

definition IterPublisher_new :: "'it \<Rightarrow> ('it, 's) IterPublisher" where
  "IterPublisher_new iter = \<lparr>IterPublisher_iter = iter, IterPublisher_subscriber = None\<rparr>"

definition IterPublisher_subscribe ::
  "('w, 's, 'o) subscriber \<Rightarrow> ('it, 's) IterPublisher \<Rightarrow> 's \<Rightarrow> ('w, ('it, 's) IterPublisher) act" where
  "IterPublisher_subscribe S self s =
     abind (on_subscribe S s 0) (\<lambda>s'. ret (self\<lparr>IterPublisher_subscriber := Some s'\<rparr>))"

definition IterPublisher_next ::
  "('it \<Rightarrow> ('w, 'o option \<times> 'it) act) \<Rightarrow> ('w, 's, 'o) subscriber \<Rightarrow> ('it, 's) IterPublisher
   \<Rightarrow> ('w, bool \<times> ('it, 's) IterPublisher) act" where
  "IterPublisher_next it_next S self = (case IterPublisher_subscriber self of
      Some s \<Rightarrow>
        abind (it_next (IterPublisher_iter self)) (\<lambda>(item, it').
          let self = self\<lparr>IterPublisher_iter := it'\<rparr> in
          case item of
            Some x \<Rightarrow> abind (on_next S s x) (\<lambda>(b, s').
              ret (b, self\<lparr>IterPublisher_subscriber := Some s'\<rparr>))
          | None \<Rightarrow> abind (on_complete S s False) (\<lambda>s'.
              ret (False, self\<lparr>IterPublisher_subscriber := Some s'\<rparr>)))
    | None \<Rightarrow> ret (False, self))"

definition IterPublisher_Publisher ::
  "('it \<Rightarrow> ('w, 'o option \<times> 'it) act) \<Rightarrow> ('w, 's, 'o) subscriber \<Rightarrow> ('w, ('it, 's) IterPublisher, 's) publisher" where
  "IterPublisher_Publisher it_next S =
     \<lparr>subscribe = IterPublisher_subscribe S,
      pub_next = IterPublisher_next it_next S,
      try_next = Publisher_try_next\<rparr>"

section \<open>Coupler\<close>

record 's Coupler =
  Coupler_data_rx :: chan_id
  Coupler_subscriber :: "'s option"

definition Coupler_new :: "chan_id \<Rightarrow> 's Coupler" where
  "Coupler_new rx = \<lparr>Coupler_data_rx = rx, Coupler_subscriber = None\<rparr>"

definition Coupler_subscribe ::
  "('w, 's, 'o) subscriber \<Rightarrow> 's Coupler \<Rightarrow> 's \<Rightarrow> ('w, 's Coupler) act" where
  "Coupler_subscribe S self s = abind (on_subscribe S s 0) (\<lambda>s'. ret (self\<lparr>Coupler_subscriber := Some s'\<rparr>))"

definition Coupler_next ::
  "(('o, 'z) world_scheme, 's, 'o) subscriber \<Rightarrow> 's Coupler \<Rightarrow> (('o, 'z) world_scheme, bool \<times> 's Coupler) act" where
  "Coupler_next S self = (case Coupler_subscriber self of
      Some s \<Rightarrow> abind (Receiver_recv (Coupler_data_rx self)) (\<lambda>r. case r of
          Inr d \<Rightarrow> abind (on_next S s d) (\<lambda>(b, s'). ret (b, self\<lparr>Coupler_subscriber := Some s'\<rparr>))
        | Inl _ \<Rightarrow> abind (on_complete S s False) (\<lambda>s'.
            ret (False, self\<lparr>Coupler_subscriber := Some s'\<rparr>)))
    | None \<Rightarrow> ret (False, self))"

definition Coupler_try_next ::
  "(('o, 'z) world_scheme, 's, 'o) subscriber \<Rightarrow> 's Coupler \<Rightarrow> (('o, 'z) world_scheme, bool \<times> 's Coupler) act" where
  "Coupler_try_next S self = (case Coupler_subscriber self of
      Some s \<Rightarrow> abind (Receiver_try_recv (Coupler_data_rx self)) (\<lambda>r. case r of
          Inr d \<Rightarrow> abind (on_next S s d) (\<lambda>(b, s'). ret (b, self\<lparr>Coupler_subscriber := Some s'\<rparr>))
        | Inl Empty \<Rightarrow> ret (True, self)
        | Inl Disconnected \<Rightarrow> abind (on_complete S s False) (\<lambda>s'.
            ret (False, self\<lparr>Coupler_subscriber := Some s'\<rparr>)))
    | None \<Rightarrow> ret (False, self))"

definition Coupler_Publisher ::
  "(('o, 'z) world_scheme, 's, 'o) subscriber \<Rightarrow> (('o, 'z) world_scheme, 's Coupler, 's) publisher" where
  "Coupler_Publisher S =
     \<lparr>subscribe = Coupler_subscribe S, pub_next = Coupler_next S, try_next = Coupler_try_next S\<rparr>"

section \<open>Repeat\<close>

record ('o, 's) Repeat =
  Repeat_val :: 'o
  Repeat_subscriber :: "'s option"

definition Repeat_new :: "'o \<Rightarrow> ('o, 's) Repeat" where
  "Repeat_new v = \<lparr>Repeat_val = v, Repeat_subscriber = None\<rparr>"

definition Repeat_subscribe ::
  "('w, 's, 'o) subscriber \<Rightarrow> ('o, 's) Repeat \<Rightarrow> 's \<Rightarrow> ('w, ('o, 's) Repeat) act" where
  "Repeat_subscribe S self s = abind (on_subscribe S s 0) (\<lambda>s'. ret (self\<lparr>Repeat_subscriber := Some s'\<rparr>))"

definition Repeat_next ::
  "('w, 's, 'o) subscriber \<Rightarrow> ('o, 's) Repeat \<Rightarrow> ('w, bool \<times> ('o, 's) Repeat) act" where
  "Repeat_next S self = (case Repeat_subscriber self of
      Some s \<Rightarrow> abind (on_next S s (Repeat_val self)) (\<lambda>(b, s').
        ret (b, self\<lparr>Repeat_subscriber := Some s'\<rparr>))
    | None \<Rightarrow> ret (False, self))"

definition Repeat_Publisher :: "('w, 's, 'o) subscriber \<Rightarrow> ('w, ('o, 's) Repeat, 's) publisher" where
  "Repeat_Publisher S =
     \<lparr>subscribe = Repeat_subscribe S, pub_next = Repeat_next S, try_next = Publisher_try_next\<rparr>"

lemmas publisher_impls [trait_defs] =
  RndGen_subscribe_def RndGen_try_next_def
  IterPublisher_subscribe_def IterPublisher_next_def
  Coupler_subscribe_def Coupler_next_def Coupler_try_next_def
  Repeat_subscribe_def Repeat_next_def Publisher_next_def

lemma publisher_methods [simp]:
  "pub_next (RndGen_Publisher arbitrary S) = RndGen_try_next arbitrary S"
  "pub_next (IterPublisher_Publisher it_next S) = IterPublisher_next it_next S"
  "pub_next (Coupler_Publisher S') = Coupler_next S'"
  "try_next (Coupler_Publisher S') = Coupler_try_next S'"
  "pub_next (Repeat_Publisher S) = Repeat_next S"
  by (simp_all add: RndGen_Publisher_def IterPublisher_Publisher_def Coupler_Publisher_def
      Repeat_Publisher_def Publisher_next_def [abs_def])

section \<open>Iterators that end\<close>

text \<open>
  \<open>yields it_next it xs it'\<close>: from the state \<open>it\<close> the iterator gives the items of \<open>xs\<close> and
  then \<^verbatim>\<open>None\<close>, in every world and without touching it. The iterator of a vector is the first
  instance, the half-open range of \<^verbatim>\<open>std::iter\<close> the second.
\<close>

fun yields :: "('it \<Rightarrow> ('w, 'o option \<times> 'it) act) \<Rightarrow> 'it \<Rightarrow> 'o list \<Rightarrow> 'it \<Rightarrow> bool" where
  "yields it_next it [] it' \<longleftrightarrow> it_next it = ret (None, it')"
| "yields it_next it (x # xs) it' \<longleftrightarrow> (\<exists>it1. it_next it = ret (Some x, it1) \<and> yields it_next it1 xs it')"

definition vec_iter_next :: "'o list \<Rightarrow> ('w, 'o option \<times> 'o list) act" where
  "vec_iter_next xs = (case xs of [] \<Rightarrow> ret (None, []) | x # rest \<Rightarrow> ret (Some x, rest))"

definition range_next :: "int \<times> int \<Rightarrow> ('w, int option \<times> (int \<times> int)) act" where
  "range_next r =
     (if fst r < snd r then ret (Some (fst r), (fst r + 1, snd r)) else ret (None, r))"

lemma yields_vec [simp]: "yields vec_iter_next xs xs []"
  by (induction xs) (auto simp: vec_iter_next_def)

lemma yields_range: "a \<le> b \<Longrightarrow> yields range_next (a, b) [a..b - 1] (b, b)"
proof (induction "nat (b - a)" arbitrary: a)
  case 0
  then show ?case by (simp add: range_next_def)
next
  case (Suc n)
  then have "a < b" by simp
  then have "[a..b - 1] = a # [a + 1..b - 1]" by (simp add: upto_rec1)
  with Suc.hyps(1) [of "a + 1"] Suc.hyps(2) \<open>a < b\<close> show ?case by (simp add: range_next_def)
qed

section \<open>run over IterPublisher\<close>

text \<open>
  \<open>drain_into S s xs\<close>: hand the items to the subscriber until it declines; if it never does,
  complete it. \<^verbatim>\<open>run\<close> on an iterator that ends does exactly this, panics and waits included.
\<close>

definition drain_into :: "('w, 's, 'o) subscriber \<Rightarrow> 's \<Rightarrow> 'o list \<Rightarrow> ('w, 's) act" where
  "drain_into S s xs = abind (feed (on_next S) s xs) (\<lambda>(b, s'). if b then on_complete S s' False else ret s')"

lemma drain_into_Nil [simp]: "drain_into S s [] = on_complete S s False"
  by (simp add: drain_into_def)

lemma drain_into_Cons:
  "drain_into S s (x # xs) = abind (on_next S s x) (\<lambda>(b, s'). if b then drain_into S s' xs else ret s')"
proof -
  have "(\<lambda>bs. abind (case bs of (b, s') \<Rightarrow> if b then feed (on_next S) s' xs else ret (False, s'))
          (\<lambda>(b, s'). if b then on_complete S s' False else ret s')) =
        (\<lambda>(b, s'). if b then drain_into S s' xs else ret s')"
    by (auto simp: fun_eq_iff drain_into_def)
  then show ?thesis by (simp add: drain_into_def abind_assoc)
qed

lemma abind_drain_into:
  "abind (drain_into S s xs) h =
   abind (feed (on_next S) s xs) (\<lambda>(b, s'). abind (if b then on_complete S s' False else ret s') h)"
  by (simp add: drain_into_def abind_assoc split_def)

lemma IterPublisher_next_item:
  assumes "IterPublisher_subscriber p = Some s" "it_next (IterPublisher_iter p) = ret (Some x, it1)"
  shows "IterPublisher_next it_next S p = abind (on_next S s x)
    (\<lambda>(b, s'). ret (b, \<lparr>IterPublisher_iter = it1, IterPublisher_subscriber = Some s'\<rparr>))"
  using assms by (cases p) (simp add: trait_defs)

lemma IterPublisher_next_end:
  assumes "IterPublisher_subscriber p = Some s" "it_next (IterPublisher_iter p) = ret (None, it1)"
  shows "IterPublisher_next it_next S p = abind (on_complete S s False)
    (\<lambda>s'. ret (False, \<lparr>IterPublisher_iter = it1, IterPublisher_subscriber = Some s'\<rparr>))"
  using assms by (cases p) (simp add: trait_defs)

lemma IterPublisher_run_drains:
  assumes "yields it_next it xs it'" "IterPublisher_iter p = it" "IterPublisher_subscriber p = Some s"
  shows "\<exists>it1. run (IterPublisher_Publisher it_next S) p w =
    Some (abind (drain_into S s xs) (\<lambda>s'. ret \<lparr>IterPublisher_iter = it1, IterPublisher_subscriber = Some s'\<rparr>) w)"
  using assms
proof (induction xs arbitrary: it s p w)
  case Nil
  then have "IterPublisher_next it_next S p = abind (on_complete S s False)
      (\<lambda>s'. ret (False, \<lparr>IterPublisher_iter = it', IterPublisher_subscriber = Some s'\<rparr>))"
    by (simp add: IterPublisher_next_end)
  then show ?case
    by (cases "on_complete S s False w" rule: outcome_exhaust3)
      (auto simp: run_unfold [of _ p w] abind_def)
next
  case (Cons x xs)
  then obtain it1 where step: "it_next it = ret (Some x, it1)" and rest: "yields it_next it1 xs it'" by auto
  then have nx: "IterPublisher_next it_next S p = abind (on_next S s x)
      (\<lambda>(b, s'). ret (b, \<lparr>IterPublisher_iter = it1, IterPublisher_subscriber = Some s'\<rparr>))"
    using Cons.prems by (simp add: IterPublisher_next_item)
  show ?case
  proof (cases "on_next S s x w" rule: outcome_exhaust3)
    case (Ret bs w')
    obtain b s' where bs: "bs = (b, s')" by force
    show ?thesis
      using Cons.IH [OF rest, of "\<lparr>IterPublisher_iter = it1, IterPublisher_subscriber = Some s'\<rparr>" s' w']
        nx Ret bs
      by (auto simp: run_unfold [of _ p w] drain_into_Cons abind_def)
  qed (use nx in \<open>auto simp: run_unfold [of _ p w] drain_into_Cons abind_def\<close>)
qed

text \<open>On a subscriber that meets its contract, \<^verbatim>\<open>run\<close> returns, and with the machine's result.\<close>

definition a_drain :: "('a \<Rightarrow> 'o \<Rightarrow> bool \<times> 'a) \<Rightarrow> ('a \<Rightarrow> bool \<Rightarrow> 'a) \<Rightarrow> 'a \<Rightarrow> 'o list \<Rightarrow> 'a" where
  "a_drain nx cp a xs = (let r = a_feed nx a xs in if fst r then cp (snd r) False else snd r)"

lemma drain_into_refines:
  assumes S: "Subscriber_refines S sinv sabs a_next a_complete a_error" and inv: "sinv s w"
  shows "meets sinv sabs (drain_into S s xs w) (a_drain a_next a_complete (sabs s w) xs)"
proof -
  let ?r = "a_feed a_next (sabs s w) xs"
  from Subscriber_refines.refines_feed [OF S inv] obtain s1 w1 where
    feed: "feed (on_next S) s xs w = (Ret (fst ?r, s1), w1)" and inv1: "sinv s1 w1" and abs1: "sabs s1 w1 = snd ?r"
    by (rule meets_nextE)
  obtain s2 w2 where "on_complete S s1 False w1 = (Ret s2, w2)" "sinv s2 w2" "sabs s2 w2 = a_complete (snd ?r) False"
    using Subscriber_refines.completeE [OF S inv1, of False] abs1 by metis
  with feed inv1 abs1 show ?thesis
    by (cases "fst ?r") (auto simp: drain_into_def abind_def a_drain_def meets_def)
qed

lemma IterPublisher_run_refines:
  assumes S: "Subscriber_refines S sinv sabs a_next a_complete a_error" and inv: "sinv s w"
    and p: "IterPublisher_subscriber p = Some s" "yields it_next (IterPublisher_iter p) xs it'"
    and view: "\<And>it1 s' w'. sinv s' w' \<Longrightarrow> a_drain a_next a_complete (sabs s w) xs = sabs s' w' \<Longrightarrow>
      Q \<lparr>IterPublisher_iter = it1, IterPublisher_subscriber = Some s'\<rparr> w'"
  shows "\<exists>p' w'. run (IterPublisher_Publisher it_next S) p w = Some (Ret p', w') \<and> Q p' w'"
proof -
  obtain it1 where "run (IterPublisher_Publisher it_next S) p w = Some (abind (drain_into S s xs)
      (\<lambda>s'. ret \<lparr>IterPublisher_iter = it1, IterPublisher_subscriber = Some s'\<rparr>) w)"
    using IterPublisher_run_drains [OF p(2) refl p(1)] by blast
  moreover obtain s' w' where "drain_into S s xs w = (Ret s', w')" "sinv s' w'"
      "sabs s' w' = a_drain a_next a_complete (sabs s w) xs"
    using drain_into_refines [OF S inv] by (rule meetsE)
  ultimately show ?thesis using view by (auto simp: abind_def)
qed

section \<open>run over Coupler\<close>

lemma Coupler_next_item:
  assumes "Coupler_subscriber p = Some s" "ch_buf (chans w (Coupler_data_rx p)) = d # rest"
  shows "Coupler_next S p w = abind (on_next S s d)
    (\<lambda>(b, s'). ret (b, p\<lparr>Coupler_subscriber := Some s'\<rparr>)) (mpsc_pop (Coupler_data_rx p) rest w)"
  using assms by (simp add: trait_defs Receiver_recv_def abind_def)

lemma Coupler_next_closed:
  assumes "Coupler_subscriber p = Some s" "ch_buf (chans w (Coupler_data_rx p)) = []"
    "ch_senders (chans w (Coupler_data_rx p)) = 0"
  shows "Coupler_next S p w = abind (on_complete S s False)
    (\<lambda>s'. ret (False, p\<lparr>Coupler_subscriber := Some s'\<rparr>)) w"
  using assms by (simp add: trait_defs Receiver_recv_def abind_def)

lemma Coupler_next_waits:
  assumes "Coupler_subscriber p = Some s" "ch_buf (chans w (Coupler_data_rx p)) = []"
    "ch_senders (chans w (Coupler_data_rx p)) \<noteq> 0"
  shows "Coupler_next S p w = (Blocked, w)"
  using assms by (simp add: trait_defs Receiver_recv_def abind_def)

lemma chans_mpsc_pop [simp]:
  "chans (mpsc_pop q rest w) q' = (if q' = q then (chans w q)\<lparr>ch_buf := rest\<rparr> else chans w q')"
  by (simp add: mpsc_pop_def)

text \<open>
  One round: the item leaves the queue and goes to the subscriber. \<open>aloof\<close> says that the
  subscriber does not depend on the queue the coupler reads and leaves it alone.
\<close>

definition aloof ::
  "chan_id \<Rightarrow> (('o, 'z) world_scheme, 's, 'o) subscriber \<Rightarrow> ('s \<Rightarrow> ('o, 'z) world_scheme \<Rightarrow> bool)
   \<Rightarrow> ('s \<Rightarrow> ('o, 'z) world_scheme \<Rightarrow> 'a) \<Rightarrow> bool" where
  "aloof q S sinv sabs \<longleftrightarrow>
     (\<forall>s w c. sinv s w \<longrightarrow> sinv s (set_chan q c w) \<and> sabs s (set_chan q c w) = sabs s w) \<and>
     (\<forall>s w x. sinv s w \<longrightarrow> chans (snd (on_next S s x w)) q = chans w q) \<and>
     (\<forall>s w b. sinv s w \<longrightarrow> chans (snd (on_complete S s b w)) q = chans w q)"

lemma aloof_pop: "aloof q S sinv sabs \<Longrightarrow> sinv s w \<Longrightarrow> sinv s (mpsc_pop q rest w) \<and> sabs s (mpsc_pop q rest w) = sabs s w"
  by (simp add: aloof_def mpsc_pop_def)

lemma aloof_next: "aloof q S sinv sabs \<Longrightarrow> sinv s w \<Longrightarrow> on_next S s x w = (r, w') \<Longrightarrow> chans w' q = chans w q"
  by (metis aloof_def snd_conv)

lemma aloof_complete: "aloof q S sinv sabs \<Longrightarrow> sinv s w \<Longrightarrow> on_complete S s b w = (r, w') \<Longrightarrow> chans w' q = chans w q"
  by (metis aloof_def snd_conv)

text \<open>How many of some items a subscriber is handed: all of them, or those up to the one it declines.\<close>

fun a_taken :: "('a \<Rightarrow> 'i \<Rightarrow> bool \<times> 'a) \<Rightarrow> 'a \<Rightarrow> 'i list \<Rightarrow> nat" where
  "a_taken nx a [] = 0"
| "a_taken nx a (x # xs) = Suc (if fst (nx a x) then a_taken nx (snd (nx a x)) xs else 0)"

lemma a_taken_all: "fst (a_feed nx a xs) \<Longrightarrow> a_taken nx a xs = length xs"
  by (induction xs arbitrary: a) (auto split: if_splits)

lemma Coupler_round:
  assumes S: "Subscriber_refines S sinv sabs a_next a_complete a_error" and inv: "sinv s w"
    and aloof: "aloof q S sinv sabs"
    and p: "Coupler_data_rx p = q" "Coupler_subscriber p = Some s" and buf: "ch_buf (chans w q) = d # rest"
  obtains s' w' where
    "Coupler_next S p w = (Ret (fst (a_next (sabs s w) d), p\<lparr>Coupler_subscriber := Some s'\<rparr>), w')"
    "sinv s' w'" "sabs s' w' = snd (a_next (sabs s w) d)" "chans w' q = (chans w q)\<lparr>ch_buf := rest\<rparr>"
proof -
  let ?w = "mpsc_pop q rest w"
  have inv1: "sinv s ?w" and abs1: "sabs s ?w = sabs s w" using aloof_pop [OF aloof inv] by auto
  obtain s' w' where step: "on_next S s d ?w = (Ret (fst (a_next (sabs s ?w) d), s'), w')"
      "sinv s' w'" "sabs s' w' = snd (a_next (sabs s ?w) d)"
    using S inv1 by (rule Subscriber_refines.nextE)
  have "chans w' q = chans ?w q" using aloof inv1 step(1) by (rule aloof_next)
  with step show ?thesis
    using Coupler_next_item [of p s w d rest S] p buf abs1 by (intro that) (auto simp: abind_def)
qed

lemma Coupler_run_refines:
  assumes S: "Subscriber_refines S sinv sabs a_next a_complete a_error"
    and aloof: "aloof q S sinv sabs"
    and "sinv s w" "Coupler_data_rx p = q" "Coupler_subscriber p = Some s"
    and "ch_buf (chans w q) = xs" "ch_senders (chans w q) = 0 \<or> \<not> fst (a_feed a_next (sabs s w) xs)"
  shows "\<exists>s' w'. run (Coupler_Publisher S) p w = Some (Ret (p\<lparr>Coupler_subscriber := Some s'\<rparr>), w') \<and>
    sinv s' w' \<and> sabs s' w' = a_drain a_next a_complete (sabs s w) xs \<and> ch_buf (chans w' q) = drop (a_taken a_next (sabs s w) xs) xs"
  using assms(3-)
proof (induction xs arbitrary: s w p)
  case Nil
  obtain s' w' where "on_complete S s False w = (Ret s', w')" "sinv s' w'" "sabs s' w' = a_complete (sabs s w) False"
    using S Nil.prems(1) by (rule Subscriber_refines.completeE)
  with Nil.prems aloof_complete [OF aloof Nil.prems(1)] show ?case
    by (auto simp: run_unfold [of _ p w] Coupler_next_closed abind_def a_drain_def)
next
  case (Cons x xs)
  from S Cons.prems(1) aloof Cons.prems(2-4) obtain s' w' where
    nx: "Coupler_next S p w = (Ret (fst (a_next (sabs s w) x), p\<lparr>Coupler_subscriber := Some s'\<rparr>), w')"
    and inv': "sinv s' w'" and abs': "sabs s' w' = snd (a_next (sabs s w) x)"
    and q: "chans w' q = (chans w q)\<lparr>ch_buf := xs\<rparr>"
    by (rule Coupler_round)
  show ?case
    using Cons.IH [OF inv', of "p\<lparr>Coupler_subscriber := Some s'\<rparr>"] Cons.prems nx inv' abs' q
    by (auto simp: run_unfold [of _ p w] a_drain_def split: if_splits)
qed

text \<open>With a sender alive and a subscriber that keeps asking, \<^verbatim>\<open>run\<close> ends up waiting on the empty queue.\<close>

lemma Coupler_run_waits:
  assumes S: "Subscriber_refines S sinv sabs a_next a_complete a_error"
    and aloof: "aloof q S sinv sabs"
    and "sinv s w" "Coupler_data_rx p = q" "Coupler_subscriber p = Some s"
    and "ch_buf (chans w q) = xs" "ch_senders (chans w q) \<noteq> 0" "fst (a_feed a_next (sabs s w) xs)"
  shows "\<exists>s' w'. run (Coupler_Publisher S) p w = Some (Blocked, w') \<and> ch_buf (chans w' q) = [] \<and>
    sinv s' w' \<and> sabs s' w' = snd (a_feed a_next (sabs s w) xs)"
  using assms(3-)
proof (induction xs arbitrary: s w p)
  case Nil
  then show ?case by (auto simp: run_unfold [of _ p w] Coupler_next_waits)
next
  case (Cons x xs)
  from S Cons.prems(1) aloof Cons.prems(2-4) obtain s' w' where
    nx: "Coupler_next S p w = (Ret (fst (a_next (sabs s w) x), p\<lparr>Coupler_subscriber := Some s'\<rparr>), w')"
    and inv': "sinv s' w'" and abs': "sabs s' w' = snd (a_next (sabs s w) x)"
    and q: "chans w' q = (chans w q)\<lparr>ch_buf := xs\<rparr>"
    by (rule Coupler_round)
  show ?case
    using Cons.IH [OF inv', of "p\<lparr>Coupler_subscriber := Some s'\<rparr>"] Cons.prems nx inv' abs' q
    by (auto simp: run_unfold [of _ p w] split: if_splits)
qed

section \<open>run over Repeat\<close>

lemma Repeat_next_Some:
  assumes S: "Subscriber_refines S sinv sabs a_next a_complete a_error" and inv: "sinv s w"
    and p: "Repeat_subscriber p = Some s"
  obtains s' w' where
    "Repeat_next S p w = (Ret (fst (a_next (sabs s w) (Repeat_val p)), p\<lparr>Repeat_subscriber := Some s'\<rparr>), w')"
    "sinv s' w'" "sabs s' w' = snd (a_next (sabs s w) (Repeat_val p))"
proof -
  obtain s' w' where "on_next S s (Repeat_val p) w = (Ret (fst (a_next (sabs s w) (Repeat_val p)), s'), w')"
      "sinv s' w'" "sabs s' w' = snd (a_next (sabs s w) (Repeat_val p))"
    using S inv by (rule Subscriber_refines.nextE)
  with p show ?thesis by (intro that) (auto simp: trait_defs abind_def)
qed

lemma Repeat_run_stops:
  assumes S: "Subscriber_refines S sinv sabs a_next a_complete a_error"
    and "sinv s w" "Repeat_subscriber p = Some s"
    and "\<not> fst (a_feed a_next (sabs s w) (replicate k (Repeat_val p)))"
  shows "\<exists>s' w'. run (Repeat_Publisher S) p w = Some (Ret (p\<lparr>Repeat_subscriber := Some s'\<rparr>), w') \<and>
    sinv s' w' \<and> sabs s' w' = snd (a_feed a_next (sabs s w) (replicate k (Repeat_val p)))"
  using assms(2-)
proof (induction k arbitrary: s w p)
  case 0
  then show ?case by simp
next
  case (Suc k)
  from S Suc.prems(1,2) obtain s' w' where
    nx: "Repeat_next S p w = (Ret (fst (a_next (sabs s w) (Repeat_val p)), p\<lparr>Repeat_subscriber := Some s'\<rparr>), w')"
    and inv': "sinv s' w'" and abs': "sabs s' w' = snd (a_next (sabs s w) (Repeat_val p))"
    by (rule Repeat_next_Some)
  show ?case
    using Suc.IH [OF inv', of "p\<lparr>Repeat_subscriber := Some s'\<rparr>"] Suc.prems nx inv' abs'
    by (auto simp: run_unfold [of _ p w] split: if_splits)
qed

lemma Repeat_run_diverges:
  assumes S: "Subscriber_refines S sinv sabs a_next a_complete a_error"
    and inv: "sinv s w" and p: "Repeat_subscriber p = Some s"
    and more: "\<And>k. fst (a_feed a_next (sabs s w) (replicate k (Repeat_val p)))"
  shows "run (Repeat_Publisher S) p w = None"
proof (rule run_diverges [where I = "\<lambda>p w. \<exists>s. Repeat_subscriber p = Some s \<and> sinv s w \<and>
    (\<forall>k. fst (a_feed a_next (sabs s w) (replicate k (Repeat_val p))))"], goal_cases)
  case (1 p w)
  then obtain s where p: "Repeat_subscriber p = Some s" and inv: "sinv s w"
    and more: "\<And>k. fst (a_feed a_next (sabs s w) (replicate k (Repeat_val p)))" by blast
  from S inv p obtain s' w' where
    nx: "Repeat_next S p w = (Ret (fst (a_next (sabs s w) (Repeat_val p)), p\<lparr>Repeat_subscriber := Some s'\<rparr>), w')"
    and inv': "sinv s' w'" and abs': "sabs s' w' = snd (a_next (sabs s w) (Repeat_val p))"
    by (rule Repeat_next_Some)
  have more': "fst (a_next (sabs s w) (Repeat_val p))" using more [of 1] by (auto split: if_splits)
  have "fst (a_feed a_next (sabs s' w') (replicate k (Repeat_val p)))" for k
    using more [of "Suc k"] more' abs' by simp
  with nx inv' more' show ?case by auto
next
  case 2
  from inv p more show ?case by blast
qed

section \<open>What the publishers deliver\<close>

text \<open>C19. \<^verbatim>\<open>run\<close> on an \<^verbatim>\<open>IterPublisher\<close> whose iterator ends returns, and does exactly this: hand the
  items over in order, stop at the first \<open>False\<close>, and call \<^verbatim>\<open>on_complete(false)\<close> once if there was
  none; a panic or a wait of the subscriber ends it there.\<close>

theorem IterPublisher_run_exact:
  assumes "yields it_next (IterPublisher_iter p) xs it'" "IterPublisher_subscriber p = Some s"
  shows "\<exists>it1. run (IterPublisher_Publisher it_next S) p w =
    Some (abind (feed (on_next S) s xs) (\<lambda>(b, s').
      abind (if b then on_complete S s' False else ret s') (\<lambda>s''.
        ret \<lparr>IterPublisher_iter = it1, IterPublisher_subscriber = Some s''\<rparr>)) w)"
  using IterPublisher_run_drains [OF assms(1) refl assms(2), of S w] by (simp add: abind_drain_into)

theorem IterPublisher_run_exact_witness:
  "\<exists>it1. run (IterPublisher_Publisher range_next Collect_Subscriber)
      ((IterPublisher_new (0, 3))\<lparr>IterPublisher_subscriber := Some (Collect_new [])\<rparr>) () =
    Some (Ret \<lparr>IterPublisher_iter = it1, IterPublisher_subscriber = Some ((Collect_new [])\<lparr>Collect_val := [0, 1, 2]\<rparr>)\<rparr>, ())"
  using IterPublisher_run_exact [of range_next "(IterPublisher_new (0, 3))\<lparr>IterPublisher_subscriber := Some (Collect_new [])\<rparr>"
      "[0, 1, 2]" "(3, 3)" "Collect_new []" Collect_Subscriber "()"]
  by (simp add: IterPublisher_new_def Collect_new_def range_next_def trait_defs)

text \<open>C20. \<^verbatim>\<open>run\<close> on a \<^verbatim>\<open>Coupler\<close>, over any subscriber that meets a contract and does not use the coupler's own queue,
  hands over the messages in the queue, oldest first, up to the first one that is declined; exactly those have left the
  queue afterwards. When one was declined, \<^verbatim>\<open>run\<close> returns. When none was, the queue is empty, and \<^verbatim>\<open>run\<close> completes the
  subscriber and returns if no sender is left, and waits for more if there is one.\<close>

theorem Coupler_run_hands_over_the_queue:
  assumes "Subscriber_refines S sinv sabs a_next a_complete a_error" "aloof q S sinv sabs"
    and "sinv s w" "Coupler_data_rx p = q" "Coupler_subscriber p = Some s"
  shows "\<exists>s' w'. let xs = ch_buf (chans w q); r = a_feed a_next (sabs s w) xs; alive = (ch_senders (chans w q) \<noteq> 0) in
    run (Coupler_Publisher S) p w = Some (if fst r \<and> alive then Blocked else Ret (p\<lparr>Coupler_subscriber := Some s'\<rparr>), w') \<and> sinv s' w' \<and>
    sabs s' w' = (if fst r \<and> \<not> alive then a_complete (snd r) False else snd r) \<and>
    ch_buf (chans w' q) = drop (a_taken a_next (sabs s w) xs) xs \<and> (fst r \<longrightarrow> ch_buf (chans w' q) = [])"
proof -
  let ?xs = "ch_buf (chans w q)" and ?r = "a_feed a_next (sabs s w) (ch_buf (chans w q))"
  have all: "fst ?r \<Longrightarrow> drop (a_taken a_next (sabs s w) ?xs) ?xs = []" by (simp add: a_taken_all)
  show ?thesis
  proof (cases "fst ?r \<and> ch_senders (chans w q) \<noteq> 0")
    case True
    with Coupler_run_waits [OF assms refl] all show ?thesis by auto
  next
    case False
    then have "ch_senders (chans w q) = 0 \<or> \<not> fst ?r" by blast
    from Coupler_run_refines [OF assms refl this] False all show ?thesis by (auto simp: a_drain_def Let_def)
  qed
qed

theorem Coupler_run_hands_over_the_queue_witness:
  "\<exists>s' w'. run (Coupler_Publisher (StdoutSubscriber_Subscriber (\<lambda>x. x)))
      ((Coupler_new 7)\<lparr>Coupler_subscriber := Some StdoutSubscriber_new\<rparr>)
      \<lparr>stdout = [], chans = (\<lambda>_. \<lparr>ch_buf = [''a'', ''b''], ch_bound = None, ch_senders = 0, ch_receiver = True\<rparr>)\<rparr> =
    Some (Ret (((Coupler_new 7)\<lparr>Coupler_subscriber := Some StdoutSubscriber_new\<rparr>)\<lparr>Coupler_subscriber := Some s'\<rparr>), w') \<and>
    stdout w' = [''a'', ''b''] \<and> ch_buf (chans w' 7) = []"
proof -
  let ?w = "\<lparr>stdout = [], chans = (\<lambda>_. \<lparr>ch_buf = [''a'', ''b''], ch_bound = None, ch_senders = 0, ch_receiver = True\<rparr>)\<rparr>"
  have "aloof 7 (StdoutSubscriber_Subscriber (\<lambda>x. x)) (\<lambda>_ _. True) (\<lambda>_ w. stdout w)"
    by (auto simp: aloof_def trait_defs println_def)
  from Coupler_run_hands_over_the_queue [OF stdout_sub.Subscriber_refines_axioms this,
      where s = StdoutSubscriber_new and w = ?w and p = "(Coupler_new 7)\<lparr>Coupler_subscriber := Some StdoutSubscriber_new\<rparr>"]
  show ?thesis by (simp add: Coupler_new_def sink_next_def Let_def)
qed

text \<open>Over a subscriber that never blocks, \<^verbatim>\<open>Coupler::try_next\<close> never blocks, and
  \<^verbatim>\<open>Coupler::next\<close> blocks exactly when the queue is empty and a sender is alive.\<close>

theorem Coupler_blocking:
  assumes "\<And>s x w. fst (on_next S s x w) \<noteq> Blocked" "\<And>s b w. fst (on_complete S s b w) \<noteq> Blocked"
  shows "fst (Coupler_try_next S p w) \<noteq> Blocked \<and>
    (fst (Coupler_next S p w) = Blocked \<longleftrightarrow>
      Coupler_subscriber p \<noteq> None \<and> ch_buf (chans w (Coupler_data_rx p)) = [] \<and>
      ch_senders (chans w (Coupler_data_rx p)) \<noteq> 0)"
proof -
  have nx: "fst (abind (on_next S s x) (\<lambda>(b, s'). ret (b, p\<lparr>Coupler_subscriber := Some s'\<rparr>)) w) \<noteq> Blocked" for s x w
    using assms(1) [of s x w] by (auto simp: abind_def split: prod.splits outcome.splits)
  have cp: "fst (abind (on_complete S s b) (\<lambda>s'. ret (False, p\<lparr>Coupler_subscriber := Some s'\<rparr>)) w) \<noteq> Blocked" for s b w
    using assms(2) [of s b w] by (auto simp: abind_def split: prod.splits outcome.splits)
  show ?thesis
    using nx cp
    by (simp add: Coupler_next_def Coupler_try_next_def abind_recv abind_try_recv
        split: option.split list.split)
qed

theorem Coupler_blocking_witness:
  "fst (Coupler_next Collect_Subscriber \<lparr>Coupler_data_rx = 0, Coupler_subscriber = Some (Collect_new ([] :: bool list))\<rparr>
     \<lparr>stdout = [], chans = (\<lambda>_. \<lparr>ch_buf = [], ch_bound = None, ch_senders = 1, ch_receiver = True\<rparr>)\<rparr>) = Blocked"
  using Coupler_blocking [of Collect_Subscriber "\<lparr>Coupler_data_rx = 0, Coupler_subscriber = Some (Collect_new ([] :: bool list))\<rparr>"
     "\<lparr>stdout = [], chans = (\<lambda>_. \<lparr>ch_buf = [], ch_bound = None, ch_senders = 1, ch_receiver = True\<rparr>)\<rparr>"]
  by (simp add: trait_defs)

end
