(* ===== verification/Rx_Pipelines.thy ===== *)
theory Rx_Pipelines
  imports Rx_Subscribers Rx_Stages Rx_Publishers
begin

text \<open>
  Whole chains, from a publisher through processors to an end, put together from the contracts
  of the parts: what arrives at the end, that \<^verbatim>\<open>run\<close> returns, and where it does not.
\<close>

section \<open>The list functions behind the stages\<close>

lemma a_drain_lift: "snd (a_drain (lift_next g nx) (lift_keep cp) (k, a) xs) = a_drain nx cp a (mealy g k xs)"
  by (simp add: a_drain_def a_feed_lift Let_def lift_keep_def)

lemma a_drain_take_sink:
  assumes "length xs < 2 ^ 64"
  shows "snd (a_drain (take_next mx (sink_next r) ignore) (lift_keep ignore) (0, taken) xs) = taken @ map r (take (unat mx) xs)"
proof (cases "length xs \<le> unat mx")
  case True
  then show ?thesis
    using a_feed_take_within [of xs "unat mx" 0 mx "sink_next r" ignore taken]
    by (cases "a_feed (take_next mx (sink_next r) ignore) (0, taken) xs") (auto simp: a_drain_def)
next
  case False
  have "mx \<noteq> -1"
  proof
    assume "mx = -1"
    then have "unat mx = 2 ^ 64 - 1" by (simp only: unat_max64)
    with False assms show False by simp
  qed
  then show ?thesis
    using a_feed_take_over [of "unat mx" xs 0 mx "sink_next r" ignore taken] False
    by (cases "a_feed (take_next mx (sink_next r) ignore) (0, taken) xs") (auto simp: a_drain_def)
qed

section \<open>IterPublisher, Map, Enumerate, Take, Collect\<close>

definition collect_chain ::
  "('i \<Rightarrow> 'o) \<Rightarrow> usize \<Rightarrow> 'i list
   \<Rightarrow> ('w, ('i list, ('w, 'i, 'o, ('o \<times> u64) Collect Take Enumerate) Map_Proc) IterPublisher) act" where
  "collect_chain f n xs =
     (let SC = Collect_Subscriber; ST = Take_Subscriber SC; SE = Enumerate_Subscriber ST; SM = Map_Subscriber SE in
      abind (Take_subscribe SC (Take_new n) (Collect_new [])) (\<lambda>take.
      abind (Enumerate_subscribe ST Enumerate_new take) (\<lambda>enum.
      abind (Map_subscribe SE (Map_new (\<lambda>x. ret (f x))) enum) (\<lambda>m.
      IterPublisher_subscribe SM (IterPublisher_new xs) m))))"

definition collect_chain_vec ::
  "('it, ('w, 'i, 'o, 'r Collect Take Enumerate) Map_Proc) IterPublisher \<Rightarrow> 'r list" where
  "collect_chain_vec p =
     Collect_val (the (Take_subscriber (the (Enumerate_subscriber (the (Map_subscriber
       (the (IterPublisher_subscriber p))))))))"

lemma collect_chain_refines:
  "Subscriber_refines (Map_Subscriber (Enumerate_Subscriber (Take_Subscriber Collect_Subscriber)))
     (\<lambda>p w. Map_fun p = (\<lambda>x. ret (f x)) \<and> (\<exists>s. Map_subscriber p = Some s \<and> (True \<and> (\<exists>t. Enumerate_subscriber s = Some t \<and>
        Take_max t = mx \<and> (\<exists>c. Take_subscriber t = Some c \<and> True)))))
     (\<lambda>p w. ((), (Enumerate_count (the (Map_subscriber p)),
        (Take_count (the (Enumerate_subscriber (the (Map_subscriber p)))),
         Collect_val (the (Take_subscriber (the (Enumerate_subscriber (the (Map_subscriber p))))))))))
     (lift_next (\<lambda>k x. (f x, k)) (lift_next (\<lambda>c x. ((x, c), c + 1)) (take_next mx (sink_next (\<lambda>x. x)) ignore)))
     (lift_keep (lift_keep (lift_keep ignore))) (lift_keep (lift_keep (lift_keep ignore)))"
  by (rule map_stage.stage_refines [OF enumerate_stage.stage_refines
        [OF Take_refines [OF collect.Subscriber_refines_axioms]]]) simp_all

lemma collect_chain_assembled:
  "collect_chain f n xs w =
    (Ret \<lparr>IterPublisher_iter = xs, IterPublisher_subscriber = Some
      \<lparr>Map_fun = (\<lambda>x. ret (f x)), Map_subscriber = Some
        \<lparr>Enumerate_subscriber = Some
          \<lparr>Take_subscriber = Some \<lparr>Collect_index = None, Collect_val = []\<rparr>,
           Take_index = Some 0, Take_count = 0, Take_max = n, Take_notified = False\<rparr>,
         Enumerate_index = Some 0, Enumerate_count = 0\<rparr>,
       Map_index = Some 0\<rparr>\<rparr>, w)"
  by (simp add: collect_chain_def trait_defs processor_news Collect_new_def IterPublisher_new_def Let_def)

lemma collect_chain_result:
  assumes len: "length xs < 2 ^ 64" and p: "collect_chain f n xs w = (Ret p, w0)"
  shows "\<exists>p' w'. run (IterPublisher_Publisher vec_iter_next
       (Map_Subscriber (Enumerate_Subscriber (Take_Subscriber Collect_Subscriber)))) p w0 = Some (Ret p', w') \<and>
     collect_chain_vec p' = take (unat n) (zip (map f xs) (map of_nat [0..<length xs]))"
proof -
  let ?zs = "zip (map f xs) (map of_nat [0..<length xs]) :: ('c \<times> u64) list"
  have res: "snd (snd (snd (a_drain (lift_next (\<lambda>k x. (f x, k)) (lift_next (\<lambda>c x. ((x, c), c + 1))
        (take_next n (sink_next (\<lambda>x. x)) ignore))) (lift_keep (lift_keep (lift_keep ignore))) ((), (0, (0, []))) xs)))
      = take (unat n) ?zs"
    using len a_drain_take_sink [of ?zs n "\<lambda>x. x" "[]"] by (simp add: a_drain_lift mealy_enumerate)
  show ?thesis
    by (rule IterPublisher_run_refines [OF collect_chain_refines [of f n], where xs = xs and it' = "[]"])
      (use p res in \<open>auto simp: collect_chain_assembled collect_chain_vec_def\<close>)
qed

text \<open>C18. A chain of \<^verbatim>\<open>IterPublisher\<close>, \<^verbatim>\<open>Map\<close>, \<^verbatim>\<open>Enumerate\<close>, \<^verbatim>\<open>Take\<close> and \<^verbatim>\<open>Collect\<close> put together with
  \<^verbatim>\<open>subscribe\<close>: \<^verbatim>\<open>run\<close> returns, and the vector holds the first \<open>n\<close> mapped items, numbered from 0.\<close>

theorem collect_chain_run:
  assumes "length xs < 2 ^ 64" "collect_chain f n xs w = (Ret p, w0)"
  shows "\<exists>p' w'. run (IterPublisher_Publisher vec_iter_next
       (Map_Subscriber (Enumerate_Subscriber (Take_Subscriber Collect_Subscriber)))) p w0 = Some (Ret p', w') \<and>
     collect_chain_vec p' = take (unat n) (zip (map f xs) (map of_nat [0..<length xs]))"
  using assms by (rule collect_chain_result)

theorem collect_chain_run_witness:
  "\<exists>p' w'. run (IterPublisher_Publisher vec_iter_next
       (Map_Subscriber (Enumerate_Subscriber (Take_Subscriber Collect_Subscriber))))
       (case fst (collect_chain (\<lambda>x :: int. x * 10) 2 [1, 2, 3] ()) of Ret p \<Rightarrow> p) () = Some (Ret p', w') \<and>
     collect_chain_vec p' = [(10, 0), (20, 1)]"
  using collect_chain_run [of "[1, 2, 3]" "\<lambda>x :: int. x * 10" 2 "()"
      "case fst (collect_chain (\<lambda>x :: int. x * 10) 2 [1, 2, 3] ()) of Ret p \<Rightarrow> p" "()"]
  by (simp add: collect_chain_assembled upt_rec)

section \<open>Repeat, Take, Collect\<close>

lemma take_collect_refines:
  "Subscriber_refines (Take_Subscriber Collect_Subscriber)
     (\<lambda>p w. Take_max p = n \<and> (\<exists>c. Take_subscriber p = Some c \<and> True))
     (\<lambda>p w. (Take_count p, Collect_val (the (Take_subscriber p))))
     (take_next n (sink_next (\<lambda>x. x)) ignore) (lift_keep ignore) (lift_keep ignore)"
  by (rule Take_refines [OF collect.Subscriber_refines_axioms])

lemma a_feed_take_max: "fst (a_feed (take_next (-1) (sink_next r) cp) ka xs)"
  by (induction xs arbitrary: ka) (auto simp: take_next_def sink_next_def word_order.extremum leD)

text \<open>C23. \<^verbatim>\<open>Repeat\<close> into \<^verbatim>\<open>Take(n)\<close> into \<^verbatim>\<open>Collect\<close>: \<^verbatim>\<open>run\<close> returns with \<open>n\<close> copies of the value, except
  for the largest \<open>n\<close>, where the counter wraps around before it can exceed \<open>n\<close> and \<^verbatim>\<open>run\<close> never
  returns.\<close>

theorem Repeat_Take_run:
  assumes "Take_subscriber t = Some (Collect_new [])" "Take_count t = 0" "Take_max t = n"
  shows "if n = -1 then run (Repeat_Publisher (Take_Subscriber Collect_Subscriber)) \<lparr>Repeat_val = v, Repeat_subscriber = Some t\<rparr> w = None
    else \<exists>t' w'. run (Repeat_Publisher (Take_Subscriber Collect_Subscriber)) \<lparr>Repeat_val = v, Repeat_subscriber = Some t\<rparr> w =
        Some (Ret \<lparr>Repeat_val = v, Repeat_subscriber = Some t'\<rparr>, w') \<and>
      map_option Collect_val (Take_subscriber t') = Some (replicate (unat n) v)"
proof (cases "n = -1")
  case True
  then show ?thesis
    using Repeat_run_diverges [OF take_collect_refines, where s = t and w = w and p = "\<lparr>Repeat_val = v, Repeat_subscriber = Some t\<rparr>"]
      assms by (simp add: a_feed_take_max)
next
  case False
  let ?r = "a_feed (take_next n (sink_next (\<lambda>x. x)) ignore) (0, []) (replicate (Suc (unat n)) v)"
  have r: "\<not> fst ?r" "snd (snd ?r) = replicate (unat n) v"
    using a_feed_take_over [of "unat n" "replicate (Suc (unat n)) v" 0 n "sink_next (\<lambda>x. x)" ignore "[]"] False
    by (simp_all add: prod_eq_iff del: replicate_Suc)
  show ?thesis
    using Repeat_run_stops [OF take_collect_refines, where s = t and w = w and k = "Suc (unat n)"
        and p = "\<lparr>Repeat_val = v, Repeat_subscriber = Some t\<rparr>"] assms False r
    by (auto simp: Collect_new_def simp del: a_feed.simps replicate_Suc dest!: arg_cong [of "(_, _)" _ snd])
qed

theorem Repeat_Take_run_witness:
  "\<exists>t' w'. run (Repeat_Publisher (Take_Subscriber Collect_Subscriber))
       \<lparr>Repeat_val = True, Repeat_subscriber = Some ((Take_new 5)\<lparr>Take_subscriber := Some (Collect_new [])\<rparr>)\<rparr> () =
     Some (Ret \<lparr>Repeat_val = True, Repeat_subscriber = Some t'\<rparr>, w') \<and>
     map_option Collect_val (Take_subscriber t') = Some (replicate 5 True)"
  using Repeat_Take_run [of "(Take_new 5)\<lparr>Take_subscriber := Some (Collect_new [])\<rparr>" 5 True "()"]
  by (simp add: Take_new_def)

text \<open>\<^verbatim>\<open>Repeat\<close> straight into \<^verbatim>\<open>Collect\<close>, which never declines: \<^verbatim>\<open>run\<close> never returns.\<close>

theorem Repeat_Collect_never_returns:
  "run (Repeat_Publisher Collect_Subscriber) \<lparr>Repeat_val = v, Repeat_subscriber = Some c\<rparr> w = None"
  by (rule Repeat_run_diverges [OF collect.Subscriber_refines_axioms]) (simp_all del: a_feed.simps)

section \<open>A coupler in front of Take\<close>

text \<open>C29. \<^verbatim>\<open>Take(n)\<close> declines only the item after the last one it wants: a \<^verbatim>\<open>Coupler\<close> that has just
  handed it all \<open>n\<close> items goes on waiting for one more as long as a sender is alive.\<close>

theorem Coupler_Take_waits:
  assumes "Take_subscriber t = Some (Collect_new [])" "Take_count t = 0"
    and "ch_senders (chans w q) \<noteq> 0" "length (ch_buf (chans w q)) = unat (Take_max t)"
  shows "\<exists>w'. run (Coupler_Publisher (Take_Subscriber Collect_Subscriber))
      \<lparr>Coupler_data_rx = q, Coupler_subscriber = Some t\<rparr> w = Some (Blocked, w') \<and> ch_buf (chans w' q) = []"
proof -
  let ?S = "Take_Subscriber Collect_Subscriber :: (_, _ Collect Take, _) subscriber"
  have "fst (a_feed (take_next (Take_max t) (sink_next (\<lambda>x. x)) ignore) (0, []) (ch_buf (chans w q)))"
    using a_feed_take_within [of "ch_buf (chans w q)" "unat (Take_max t)" 0 "Take_max t" "sink_next (\<lambda>x. x)" ignore "[]"] assms(4)
    by (simp add: prod_eq_iff)
  moreover have "aloof q (Take_Subscriber Collect_Subscriber) (\<lambda>p w. Take_max p = Take_max t \<and> (\<exists>c. Take_subscriber p = Some c \<and> True))
      (\<lambda>p w. (Take_count p, Collect_val (the (Take_subscriber p))))"
    by (auto simp: aloof_def trait_defs Let_def)
  ultimately show ?thesis
    using Coupler_run_waits [OF take_collect_refines, where q = q and s = t and w = w
        and p = "\<lparr>Coupler_data_rx = q, Coupler_subscriber = Some t\<rparr>" and xs = "ch_buf (chans w q)"] assms
    by (auto simp: Collect_new_def)
qed

theorem Coupler_Take_waits_witness:
  "\<exists>w'. run (Coupler_Publisher (Take_Subscriber Collect_Subscriber))
      \<lparr>Coupler_data_rx = 0, Coupler_subscriber = Some ((Take_new 2)\<lparr>Take_subscriber := Some (Collect_new [])\<rparr>)\<rparr>
      \<lparr>stdout = [], chans = (\<lambda>_. \<lparr>ch_buf = [True, False], ch_bound = None, ch_senders = 1, ch_receiver = True\<rparr>)\<rparr> =
    Some (Blocked, w') \<and> ch_buf (chans w' 0) = []"
  using Coupler_Take_waits [of "(Take_new 2)\<lparr>Take_subscriber := Some (Collect_new [])\<rparr>"
      "\<lparr>stdout = [], chans = (\<lambda>_. \<lparr>ch_buf = [True, False], ch_bound = None, ch_senders = 1, ch_receiver = True\<rparr>)\<rparr>" 0]
  by (simp add: Take_new_def)

section \<open>IterPublisher, DoDebug, Tee, Collect\<close>

text \<open>What the two side effects leave in the world.\<close>

lemma tee_debug_refines:
  "Subscriber_refines (DoDebug_Subscriber dbg (Tee_Subscriber Sender_Sendable Collect_Subscriber))
     (\<lambda>p w. True \<and> (\<exists>t. DoDebug_subscriber p = Some t \<and> (Tee_data_tx t = q \<and> (\<exists>c. Tee_subscriber t = Some c \<and> True))))
     (\<lambda>p w. ((), ((), (Collect_val (the (Tee_subscriber (the (DoDebug_subscriber p)))), w))))
     (lift_eff (\<lambda>k x. (x, k)) (\<lambda>_ x (k, v, w). (k, v, print_line (dbg x) w))
       (lift_eff (\<lambda>k x. (x, k)) (\<lambda>_ x (v, w). (v, chan_push q x w)) vec_next))
     (lift_keep (lift_keep ignore)) (lift_keep (lift_keep ignore))"
  by (rule dodebug_stage.stage_refines_eff [OF tee_stage.stage_refines_eff
        [OF collect_world.Subscriber_refines_axioms]]) auto

lemma tee_debug_feed:
  "a_feed (lift_eff (\<lambda>k x. (x, ())) (\<lambda>_ x (k, v, w). ((), v, print_line (dbg x) w))
       (lift_eff (\<lambda>k x. (x, ())) (\<lambda>_ x (v, w). (v, chan_push q x w)) vec_next)) ((), ((), (v, w))) xs =
   (True, ((), ((), (v @ xs, foldl (\<lambda>w x. chan_push q x (print_line (dbg x) w)) w xs))))"
  by (induction xs arbitrary: v w) (auto simp: lift_eff_def vec_next_def Let_def)

lemma tee_debug_world:
  "stdout (foldl (\<lambda>w x. chan_push q x (print_line (dbg x) w)) w xs) = stdout w @ map dbg xs"
  "chans (foldl (\<lambda>w x. chan_push q x (print_line (dbg x) w)) w xs) q =
     (if ch_receiver (chans w q) then (chans w q)\<lparr>ch_buf := ch_buf (chans w q) @ xs\<rparr> else chans w q)"
  by (induction xs arbitrary: w) (auto simp: chan_push_def print_line_def)

text \<open>A chain with \<^verbatim>\<open>DoDebug\<close> and \<^verbatim>\<open>Tee\<close> in the middle: everything reaches the end of the chain and
  is printed, in order; the queue of the \<^verbatim>\<open>Tee\<close> gets a copy of everything while its receiver is
  there, and a receiver that is gone does not disturb the chain.\<close>

theorem DoDebug_Tee_copies:
  assumes "Collect_val c = v" "Tee_subscriber t = Some c" "Tee_data_tx t = q" "DoDebug_subscriber d = Some t"
  shows "\<exists>p' w'. run (IterPublisher_Publisher vec_iter_next
        (DoDebug_Subscriber dbg (Tee_Subscriber Sender_Sendable Collect_Subscriber)))
      \<lparr>IterPublisher_iter = xs, IterPublisher_subscriber = Some d\<rparr> w = Some (Ret p', w') \<and>
    (\<exists>d' t' c'. IterPublisher_subscriber p' = Some d' \<and> DoDebug_subscriber d' = Some t' \<and>
       Tee_subscriber t' = Some c' \<and> Collect_val c' = v @ xs) \<and>
    stdout w' = stdout w @ map dbg xs \<and>
    ch_buf (chans w' q) = ch_buf (chans w q) @ (if ch_receiver (chans w q) then xs else [])"
  by (rule IterPublisher_run_refines [OF tee_debug_refines [of dbg q], where xs = xs and it' = "[]"])
    (use assms in \<open>auto simp: a_drain_def tee_debug_feed tee_debug_world\<close>)

theorem DoDebug_Tee_copies_witness:
  "\<exists>p' w'. run (IterPublisher_Publisher vec_iter_next
        (DoDebug_Subscriber (\<lambda>x. x) (Tee_Subscriber Sender_Sendable Collect_Subscriber)))
      \<lparr>IterPublisher_iter = [''a'', ''b''], IterPublisher_subscriber = Some (DoDebug_new\<lparr>DoDebug_subscriber :=
        Some ((Tee_new 3)\<lparr>Tee_subscriber := Some (Collect_new [])\<rparr>)\<rparr>)\<rparr>
      \<lparr>stdout = [], chans = (\<lambda>_. \<lparr>ch_buf = [], ch_bound = None, ch_senders = 1, ch_receiver = True\<rparr>)\<rparr> = Some (Ret p', w') \<and>
    stdout w' = [''a'', ''b''] \<and> ch_buf (chans w' 3) = [''a'', ''b'']"
  using DoDebug_Tee_copies [of "Collect_new []" "[]" "(Tee_new 3)\<lparr>Tee_subscriber := Some (Collect_new [])\<rparr>" 3
      "DoDebug_new\<lparr>DoDebug_subscriber := Some ((Tee_new 3)\<lparr>Tee_subscriber := Some (Collect_new [])\<rparr>)\<rparr>" "\<lambda>x. x" "[''a'', ''b'']"
      "\<lparr>stdout = [], chans = (\<lambda>_. \<lparr>ch_buf = [], ch_bound = None, ch_senders = 1, ch_receiver = True\<rparr>)\<rparr>"]
  by (auto simp: Collect_new_def Tee_new_def)

section \<open>Chains that are not complete\<close>

lemma feed_orphan_map:
  "Map_subscriber m = None \<Longrightarrow> feed (on_next (Map_Subscriber S)) m xs w = (Ret (True, m), w)"
  by (induction xs) (simp_all add: trait_defs)

text \<open>A processor without a subscriber swallows the items without complaint, and the completion at
  the end of the stream brings the thread down.\<close>

theorem orphan_Map_panics_at_the_end:
  assumes "yields it_next it xs it'" "Map_subscriber m = None"
  shows "run (IterPublisher_Publisher it_next (Map_Subscriber S))
      \<lparr>IterPublisher_iter = it, IterPublisher_subscriber = Some m\<rparr> w =
    Some (Panic ''on_complete called but I don't have a subscriber'', w)"
  using IterPublisher_run_drains [OF assms(1), of "\<lparr>IterPublisher_iter = it, IterPublisher_subscriber = Some m\<rparr>" m
      "Map_Subscriber S" w] assms(2)
  by (simp add: abind_drain_into abind_Ret [OF feed_orphan_map]) (simp add: trait_defs)

theorem orphan_Map_panics_at_the_end_witness:
  "run (IterPublisher_Publisher vec_iter_next (Map_Subscriber Collect_Subscriber))
      \<lparr>IterPublisher_iter = [1, 2 :: nat], IterPublisher_subscriber = Some (Map_new (\<lambda>x. ret (x + 1)))\<rparr> () =
    Some (Panic ''on_complete called but I don't have a subscriber'', ())"
  using orphan_Map_panics_at_the_end [of vec_iter_next "[1, 2 :: nat]" "[1, 2]" "[]" "Map_new (\<lambda>x. ret (x + 1))"
      Collect_Subscriber "()"]
  by (simp add: Map_new_def vec_iter_next_def)

text \<open>\<^verbatim>\<open>run\<close> on a processor, of any of the ten kinds, panics at once: none of them generates events.\<close>

theorem processors_cannot_run:
  "let msg = ''Unimplemented fn, presumably run() or next() is being attempted on a processor, not a publisher'' in
    run (DoDebug_Publisher Sw) dd ww = Some (Panic msg, ww) \<and>
    run (DebugWhile_Publisher Sw) dw ww = Some (Panic msg, ww) \<and>
    run (Do_Publisher S) d w = Some (Panic msg, w) \<and>
    run (Map_Publisher S) m w = Some (Panic msg, w) \<and>
    run (MapVal1_Publisher S) mv w = Some (Panic msg, w) \<and>
    run (Reduce_Publisher S) r w = Some (Panic msg, w) \<and>
    run (Enumerate_Publisher Se) e w = Some (Panic msg, w) \<and>
    run (Tee_Publisher S) t w = Some (Panic msg, w) \<and>
    run (Unzip_Publisher S) u w = Some (Panic msg, w) \<and>
    run (Take_Publisher S) tk w = Some (Panic msg, w)"
  unfolding Let_def
  by (intro conjI run_step_Panic) (simp_all add: trait_defs Publisher_next_def Publisher_try_next_def)

end
