(* ===== verification/Rx_Queue_Threads.thy ===== *)
theory Rx_Queue_Threads
  imports Rx_Publishers
begin

text \<open>
  Two threads with a queue between them. A step of the system is one round of one thread's loop; which
  thread moves is not determined, and a thread that would block cannot move. A thread that leaves its
  loop drops its end of the queue. The locales \<open>producer\<close> and \<open>consumer\<close> say what the two loops do to the
  queue; from them follow, once for all pairs of threads, that no schedule deadlocks, that every schedule
  ends, and that everything arrives in order. The queue may be bounded, with any capacity but none.
\<close>

section \<open>Steps\<close>

text \<open>\<open>th_end\<close> is the state in which the second thread has left its loop.\<close>

record ('p, 'c, 'w) threads =
  th_gen :: "'p option"
  th_out :: "'c option"
  th_end :: "'c option"
  th_world :: 'w

text \<open>\<open>PB\<close> and \<open>CB\<close> are the bodies of the two loops, \<open>q\<close> is the queue between the threads.\<close>

inductive thread_step ::
  "('p \<Rightarrow> (('m, 'z) world_scheme, bool \<times> 'p) act) \<Rightarrow> ('c \<Rightarrow> (('m, 'z) world_scheme, bool \<times> 'c) act) \<Rightarrow> chan_id
   \<Rightarrow> ('p, 'c, ('m, 'z) world_scheme) threads \<Rightarrow> ('p, 'c, ('m, 'z) world_scheme) threads \<Rightarrow> bool"
  for PB CB q where
  gen_round: "th_gen x = Some p \<Longrightarrow> PB p (th_world x) = (Ret (True, p'), w') \<Longrightarrow>
     thread_step PB CB q x (x\<lparr>th_gen := Some p', th_world := w'\<rparr>)"
| gen_end: "th_gen x = Some p \<Longrightarrow> PB p (th_world x) = (Ret (False, p'), w') \<Longrightarrow>
     thread_step PB CB q x (x\<lparr>th_gen := None, th_world := drop_sender q w'\<rparr>)"
| out_round: "th_out x = Some c \<Longrightarrow> CB c (th_world x) = (Ret (True, c'), w') \<Longrightarrow>
     thread_step PB CB q x (x\<lparr>th_out := Some c', th_world := w'\<rparr>)"
| out_end: "th_out x = Some c \<Longrightarrow> CB c (th_world x) = (Ret (False, c'), w') \<Longrightarrow>
     thread_step PB CB q x (x\<lparr>th_out := None, th_end := Some c', th_world := drop_receiver q w'\<rparr>)"

text \<open>A schedule of \<open>n\<close> rounds.\<close>

inductive thread_steps ::
  "('p \<Rightarrow> (('m, 'z) world_scheme, bool \<times> 'p) act) \<Rightarrow> ('c \<Rightarrow> (('m, 'z) world_scheme, bool \<times> 'c) act) \<Rightarrow> chan_id
   \<Rightarrow> ('p, 'c, ('m, 'z) world_scheme) threads \<Rightarrow> nat \<Rightarrow> ('p, 'c, ('m, 'z) world_scheme) threads \<Rightarrow> bool"
  for PB CB q x where
  no_steps: "thread_steps PB CB q x 0 x"
| more_steps: "thread_steps PB CB q x n y \<Longrightarrow> thread_step PB CB q y z \<Longrightarrow> thread_steps PB CB q x (Suc n) z"

section \<open>What the loops do to the queue\<close>

text \<open>
  \<open>todo p ks\<close>: in the state \<open>p\<close> the producer still has \<open>ks\<close> to send; \<open>view\<close> reads such an item off a message.
\<close>

locale producer =
  fixes PB :: "'p \<Rightarrow> (('m, 'z) world_scheme, bool \<times> 'p) act" and q :: chan_id
    and todo :: "'p \<Rightarrow> 'k list \<Rightarrow> bool" and view :: "'m \<Rightarrow> 'k"
  assumes sends: "todo p (k # ks) \<Longrightarrow> ch_receiver (chans w q) \<Longrightarrow>
      (\<exists>p' m. PB p w = (Ret (True, p'), push_all q [m] w) \<and> view m = k \<and> todo p' ks) \<or>
      (\<not> has_room (chans w q) 1 \<and> (\<exists>w'. PB p w = (Blocked, w')))"
    and stops: "todo p [] \<Longrightarrow> \<exists>p'. PB p w = (Ret (False, p'), w)"

text \<open>
  A consumer takes an item whenever there is one and stops when the queue is closed; \<open>seen c w\<close> is what it
  has made of the items so far. It does not look at the queue in any other way.
\<close>

locale consumer =
  fixes CB :: "'c \<Rightarrow> (('m, 'z) world_scheme, bool \<times> 'c) act" and q :: chan_id
    and ready :: "'c \<Rightarrow> ('m, 'z) world_scheme \<Rightarrow> bool" and seen :: "'c \<Rightarrow> ('m, 'z) world_scheme \<Rightarrow> 'a"
    and upd :: "'a \<Rightarrow> 'm \<Rightarrow> 'a" and fin :: "'a \<Rightarrow> 'a"
  assumes takes: "ready c w \<Longrightarrow> ch_buf (chans w q) = m # rest \<Longrightarrow> \<exists>c' w'. CB c w = (Ret (True, c'), w') \<and> ready c' w' \<and>
      seen c' w' = upd (seen c w) m \<and> chans w' q = (chans w q)\<lparr>ch_buf := rest\<rparr>"
    and waits: "ready c w \<Longrightarrow> ch_buf (chans w q) = [] \<Longrightarrow> ch_senders (chans w q) \<noteq> 0 \<Longrightarrow> CB c w = (Blocked, w)"
    and closes: "ready c w \<Longrightarrow> ch_buf (chans w q) = [] \<Longrightarrow> ch_senders (chans w q) = 0 \<Longrightarrow>
      \<exists>c' w'. CB c w = (Ret (False, c'), w') \<and> ready c' w' \<and> seen c' w' = fin (seen c w) \<and> chans w' q = chans w q"
    and apart: "ready c w \<Longrightarrow> ready c (set_chan q ch w) \<and> seen c (set_chan q ch w) = seen c w"

text \<open>
  Any chain behind a \<^verbatim>\<open>Coupler\<close> is a consumer, if its subscriber meets a contract in which it never declines,
  and leaves the queue alone.
\<close>

locale coupled = Subscriber_refines S sinv sabs a_next a_complete a_error
  for S :: "(('m, 'z) world_scheme, 's, 'm) subscriber" and sinv and sabs :: "'s \<Rightarrow> ('m, 'z) world_scheme \<Rightarrow> 'a"
    and a_next a_complete a_error +
  fixes q :: chan_id and upd :: "'a \<Rightarrow> 'm \<Rightarrow> 'a"
  assumes keeps_asking: "a_next a x = (True, upd a x)"
    and apart_next: "aloof q S sinv sabs"

sublocale coupled \<subseteq> consumer "Coupler_next S" q
  "\<lambda>p w. Coupler_data_rx p = q \<and> (\<exists>s. Coupler_subscriber p = Some s \<and> sinv s w)"
  "\<lambda>p w. sabs (the (Coupler_subscriber p)) w" upd "\<lambda>a. a_complete a False"
proof (unfold_locales, goal_cases)
  case (1 c w m rest)
  then obtain s where s: "Coupler_data_rx c = q" "Coupler_subscriber c = Some s" "sinv s w" by blast
  from Coupler_round [OF Subscriber_refines_axioms s(3) apart_next s(1,2) 1(2)] s show ?case
    by (fastforce simp: keeps_asking)
next
  case (2 c w)
  then show ?case by (auto simp: Coupler_next_waits)
next
  case (3 c w)
  then obtain s where s: "Coupler_data_rx c = q" "Coupler_subscriber c = Some s" "sinv s w" by blast
  obtain s' w' where c: "on_complete S s False w = (Ret s', w')" "sinv s' w'" "sabs s' w' = a_complete (sabs s w) False"
    using s(3) by (rule completeE)
  have "chans w' q = chans w q" by (rule aloof_complete [OF apart_next s(3) c(1)])
  with c s 3 show ?case by (auto simp: Coupler_next_closed abind_Ret)
next
  case (4 c w ch)
  then show ?case using apart_next by (auto simp: aloof_def)
qed

section \<open>The invariant of two threads\<close>

text \<open>
  What was taken, what waits in the queue and what is still to be sent make up the whole, in order; the queue
  knows which threads live; the consumer outlives the producer.
\<close>

definition threads_at where
  "threads_at todo view ready seen upd fin q all a0 rest taken x \<longleftrightarrow>
     (case th_gen x of None \<Rightarrow> rest = [] | Some p \<Rightarrow> todo p rest) \<and>
     ch_senders (chans (th_world x) q) = (if th_gen x = None then 0 else 1) \<and>
     ch_bound (chans (th_world x) q) \<noteq> Some 0 \<and>
     map view (taken @ ch_buf (chans (th_world x) q)) @ rest = all \<and>
     (case th_out x of
        Some c \<Rightarrow> ch_receiver (chans (th_world x) q) \<and> ready c (th_world x) \<and> seen c (th_world x) = foldl upd a0 taken
      | None \<Rightarrow> th_gen x = None \<and> ch_buf (chans (th_world x) q) = [] \<and>
          (\<exists>c. th_end x = Some c \<and> seen c (th_world x) = fin (foldl upd a0 taken)))"

text \<open>The rounds left: two for an item that is to be sent, one for an item in the queue, one for every thread to end.\<close>

definition rounds_left :: "chan_id \<Rightarrow> 'k list \<Rightarrow> ('p, 'c, ('m, 'z) world_scheme) threads \<Rightarrow> nat" where
  "rounds_left q rest x = (if th_gen x = None then 0 else Suc (2 * length rest))
     + length (ch_buf (chans (th_world x) q)) + (if th_out x = None then 0 else 1)"

locale queue_threads = producer PB q todo view + consumer CB q ready seen upd fin
  for PB :: "'p \<Rightarrow> (('m, 'z) world_scheme, bool \<times> 'p) act" and q and todo :: "'p \<Rightarrow> 'k list \<Rightarrow> bool" and view :: "'m \<Rightarrow> 'k"
    and CB :: "'c \<Rightarrow> (('m, 'z) world_scheme, bool \<times> 'c) act" and ready and seen :: "'c \<Rightarrow> ('m, 'z) world_scheme \<Rightarrow> 'a"
    and upd :: "'a \<Rightarrow> 'm \<Rightarrow> 'a" and fin :: "'a \<Rightarrow> 'a"
begin

lemma at_gen_round:
  assumes at: "threads_at todo view ready seen upd fin q all a0 rest taken x" and p: "th_gen x = Some p"
    and step: "PB p (th_world x) = (Ret (b, p'), w')"
  shows "if b then \<exists>k ks m. rest = k # ks \<and> view m = k \<and> todo p' ks \<and> w' = push_all q [m] (th_world x)
    else rest = [] \<and> w' = th_world x"
proof (cases rest)
  case Nil
  with at p have "todo p []" by (simp add: threads_at_def)
  from stops [OF this, of "th_world x"] step Nil show ?thesis by auto
next
  case (Cons k ks)
  with at p have t: "todo p (k # ks)" "ch_receiver (chans (th_world x) q)" by (auto simp: threads_at_def split: option.splits)
  show ?thesis using Cons sends [OF t] step by auto
qed

lemma at_out_round:
  assumes at: "threads_at todo view ready seen upd fin q all a0 rest taken x" and c: "th_out x = Some c"
    and step: "CB c (th_world x) = (Ret (b, c'), w')"
  shows "ready c' w' \<and> (if b then \<exists>m ms. ch_buf (chans (th_world x) q) = m # ms \<and> seen c' w' = foldl upd a0 (taken @ [m]) \<and>
      chans w' q = (chans (th_world x) q)\<lparr>ch_buf := ms\<rparr>
    else ch_buf (chans (th_world x) q) = [] \<and> th_gen x = None \<and> seen c' w' = fin (foldl upd a0 taken) \<and> chans w' q = chans (th_world x) q)"
proof -
  from at c have r: "ready c (th_world x)" "seen c (th_world x) = foldl upd a0 taken"
    "ch_senders (chans (th_world x) q) = (if th_gen x = None then 0 else 1)" by (simp_all add: threads_at_def)
  show ?thesis
    using takes [OF r(1)] waits [OF r(1)] closes [OF r(1)] r(2,3) step
    by (cases "ch_buf (chans (th_world x) q)") (fastforce split: if_splits)+
qed

lemma thread_step_at:
  assumes step: "thread_step PB CB q x y" and at: "threads_at todo view ready seen upd fin q all a0 rest taken x"
  shows "\<exists>rest' taken'. threads_at todo view ready seen upd fin q all a0 rest' taken' y \<and> rounds_left q rest x = Suc (rounds_left q rest' y)"
  using step
proof cases
  case (gen_round p p' w')
  from at_gen_round [OF at this(2,3)] obtain k ks m where *: "rest = k # ks" "view m = k" "todo p' ks"
    "w' = push_all q [m] (th_world x)" by auto
  then have "threads_at todo view ready seen upd fin q all a0 ks taken y" using at gen_round apart
    by (auto simp: threads_at_def push_all_def split: option.splits)
  moreover have "rounds_left q rest x = Suc (rounds_left q ks y)" using at gen_round *
    by (auto simp: rounds_left_def push_all_def)
  ultimately show ?thesis by blast
next
  case (gen_end p p' w')
  from at_gen_round [OF at this(2,3)] have *: "rest = []" "w' = th_world x" by simp_all
  then have "threads_at todo view ready seen upd fin q all a0 [] taken y" using at gen_end apart
    by (auto simp: threads_at_def drop_sender_def split: option.splits)
  moreover have "rounds_left q rest x = Suc (rounds_left q [] y)" using at gen_end *
    by (simp add: rounds_left_def drop_sender_def)
  ultimately show ?thesis by (metis *(1))
next
  case (out_round c c' w')
  from at_out_round [OF at this(2,3)] obtain m ms where *: "ch_buf (chans (th_world x) q) = m # ms" "ready c' w'"
    "seen c' w' = foldl upd a0 (taken @ [m])" "chans w' q = (chans (th_world x) q)\<lparr>ch_buf := ms\<rparr>" by auto
  then have "threads_at todo view ready seen upd fin q all a0 rest (taken @ [m]) y" using at out_round
    by (auto simp: threads_at_def)
  moreover have "rounds_left q rest x = Suc (rounds_left q rest y)" using at out_round *
    by (simp add: rounds_left_def)
  ultimately show ?thesis by blast
next
  case (out_end c c' w')
  from at_out_round [OF at this(2,3)] have *: "ch_buf (chans (th_world x) q) = []" "th_gen x = None" "ready c' w'"
    "seen c' w' = fin (foldl upd a0 taken)" "chans w' q = chans (th_world x) q" by auto
  then have "threads_at todo view ready seen upd fin q all a0 rest taken y" using at out_end apart
    by (auto simp: threads_at_def drop_receiver_def)
  moreover have "rounds_left q rest x = Suc (rounds_left q rest y)" using at out_end *
    by (simp add: rounds_left_def drop_receiver_def)
  ultimately show ?thesis by blast
qed

text \<open>A thread that lives can move, but for a producer at a full queue and a consumer at an empty one; never both.\<close>

lemma threads_progress:
  assumes at: "threads_at todo view ready seen upd fin q all a0 rest taken x" and "rounds_left q rest x \<noteq> 0"
  shows "\<exists>y. thread_step PB CB q x y"
proof -
  have out: "\<exists>y. thread_step PB CB q x y"
    if c: "th_out x = Some c" and "ch_buf (chans (th_world x) q) \<noteq> [] \<or> th_gen x = None" for c
  proof -
    from at c have r: "ready c (th_world x)" "ch_senders (chans (th_world x) q) = (if th_gen x = None then 0 else 1)"
      by (simp_all add: threads_at_def)
    show ?thesis
      using that takes [OF r(1)] closes [OF r(1)] r(2) thread_step.out_round [OF c, of CB] thread_step.out_end [OF c, of CB]
      by (cases "ch_buf (chans (th_world x) q)") force+
  qed
  show ?thesis
  proof (cases "th_gen x")
    case None
    with at assms(2) obtain c where "th_out x = Some c" by (auto simp: threads_at_def rounds_left_def split: option.splits)
    from out [OF this] None show ?thesis by blast
  next
    case (Some p)
    with at obtain c where c: "th_out x = Some c" "ch_receiver (chans (th_world x) q)" "ch_bound (chans (th_world x) q) \<noteq> Some 0"
      by (auto simp: threads_at_def split: option.splits)
    from Some at have t: "todo p rest" by (simp add: threads_at_def)
    show ?thesis
    proof (cases "rest = [] \<or> has_room (chans (th_world x) q) 1")
      case True
      then show ?thesis
        using t c(2) stops [of p "th_world x"] sends [of p _ _ "th_world x"] thread_step.gen_round [OF Some, of PB] thread_step.gen_end [OF Some, of PB]
        by (cases rest) (force, metis list.distinct(1))
    next
      case False
      with c have "ch_buf (chans (th_world x) q) \<noteq> []" by (auto simp: has_room_def)
      with out [OF c(1)] show ?thesis by blast
    qed
  qed
qed

section \<open>All schedules\<close>

lemma thread_steps_at:
  assumes "thread_steps PB CB q x n y" "threads_at todo view ready seen upd fin q all a0 rest taken x"
  shows "\<exists>rest' taken'. threads_at todo view ready seen upd fin q all a0 rest' taken' y \<and> rounds_left q rest x = n + rounds_left q rest' y"
  using assms
proof (induction rule: thread_steps.induct)
  case no_steps
  then show ?case by auto
next
  case (more_steps n y z)
  then show ?case using thread_step_at [of y z] by fastforce
qed

lemma threads_done:
  assumes "threads_at todo view ready seen upd fin q all a0 rest taken x" "rounds_left q rest x = 0"
  shows "th_gen x = None \<and> th_out x = None \<and> map view taken = all \<and>
    (\<exists>c. th_end x = Some c \<and> seen c (th_world x) = fin (foldl upd a0 taken))"
  using assms by (auto simp: threads_at_def rounds_left_def split: option.splits if_splits)

lemma schedule_exists:
  assumes at: "threads_at todo view ready seen upd fin q all a0 rest taken x" and "n \<le> rounds_left q rest x"
  shows "\<exists>y. thread_steps PB CB q x n y"
  using assms(2)
proof (induction n)
  case 0
  show ?case by (blast intro: no_steps)
next
  case (Suc n)
  then obtain y where y: "thread_steps PB CB q x n y" by auto
  from thread_steps_at [OF y at] obtain rest' taken' where
    "threads_at todo view ready seen upd fin q all a0 rest' taken' y" "rounds_left q rest x = n + rounds_left q rest' y" by blast
  with Suc.prems threads_progress [of all a0 rest' taken' y] show ?case by (auto intro: more_steps [OF y])
qed

text \<open>No schedule deadlocks, every schedule ends, and at the end the consumer has seen everything.\<close>

lemma schedules_end:
  assumes at: "threads_at todo view ready seen upd fin q all a0 rest taken x" and steps: "thread_steps PB CB q x n y"
  shows "if n < rounds_left q rest x then \<exists>z. thread_step PB CB q y z
    else n = rounds_left q rest x \<and> th_gen y = None \<and> th_out y = None \<and>
      (\<exists>c ms. th_end y = Some c \<and> map view ms = all \<and> seen c (th_world y) = fin (foldl upd a0 ms))"
proof -
  from thread_steps_at [OF steps at] obtain rest' taken' where
    at': "threads_at todo view ready seen upd fin q all a0 rest' taken' y" and n: "rounds_left q rest x = n + rounds_left q rest' y" by blast
  show ?thesis
  proof (cases "rounds_left q rest' y = 0")
    case True
    from threads_done [OF at' True] n True show ?thesis by auto
  qed (use threads_progress [OF at'] n in simp)
qed

end

end
