(* ===== verification/Rx_Threads.thy ===== *)
theory Rx_Threads
  imports Rx_Pipelines Rx_Queue_Threads "HOL-Library.Multiset"
begin

text \<open>
  Two threads joined by a \<^verbatim>\<open>Decoupler\<close> and a \<^verbatim>\<open>Coupler\<close>, as in the test of \<^verbatim>\<open>src/lib.rs\<close>: one runs
  \<^verbatim>\<open>IterPublisher\<close>, \<^verbatim>\<open>Map\<close>, \<^verbatim>\<open>Map\<close>, \<^verbatim>\<open>Decoupler\<close>, the other \<^verbatim>\<open>Coupler\<close>, \<^verbatim>\<open>StdoutSubscriber\<close>. The first loop
  is a \<open>producer\<close> and the second a \<open>consumer\<close>, which gives the properties of their schedules.
\<close>

section \<open>The test of lib.rs\<close>

text \<open>
  \<^verbatim>\<open>main\<close> builds the chains and spawns the threads, but no thread calls \<^verbatim>\<open>run\<close>: the closures
  \<^verbatim>\<open>out\<close> and \<^verbatim>\<open>gen\<close> end after the last \<^verbatim>\<open>subscribe\<close>. The third thread is \<^verbatim>\<open>gen\<close> with a
  \<^verbatim>\<open>StdoutSubscriber\<close> in the place of the \<^verbatim>\<open>Decoupler\<close>.
\<close>

type_synonym ('w, 'i, 's) two_maps = "('w, 'i, 'i, ('w, 'i, 'i, 's) Map_Proc) Map_Proc"

definition main_out ::
  "('i \<Rightarrow> string) \<Rightarrow> chan_id \<Rightarrow> (('i, 'z) world_scheme, StdoutSubscriber Coupler) act" where
  "main_out fmt drx =
     Coupler_subscribe (StdoutSubscriber_Subscriber fmt) (Coupler_new drx) StdoutSubscriber_new"

definition main_chain ::
  "('w, 's, 'i) subscriber \<Rightarrow> ('i \<Rightarrow> 'i) \<Rightarrow> ('i \<Rightarrow> 'i) \<Rightarrow> 'it \<Rightarrow> 's
   \<Rightarrow> ('w, ('it, ('w, 'i, 's) two_maps) IterPublisher) act" where
  "main_chain S f g it q =
     abind (Map_subscribe S (Map_new (\<lambda>i. ret (g i))) q) (\<lambda>map2.
     abind (Map_subscribe (Map_Subscriber S) (Map_new (\<lambda>i. ret (f i))) map2) (\<lambda>map1.
     IterPublisher_subscribe (Map_Subscriber (Map_Subscriber S)) (IterPublisher_new it) map1))"

definition main_gen :: "chan_id \<Rightarrow> ((int, 'z) world_scheme,
    (int \<times> int, ((int, 'z) world_scheme, int, chan_id Decoupler) two_maps) IterPublisher) act" where
  "main_gen dtx = main_chain (Decoupler_Subscriber Sender_Sendable) (\<lambda>i. i * 10) (\<lambda>i. i + 2) (0, 20) (Decoupler_new dtx)"

definition main_direct :: "(int \<Rightarrow> string) \<Rightarrow> ((int, 'z) world_scheme,
    (int \<times> int, ((int, 'z) world_scheme, int, StdoutSubscriber) two_maps) IterPublisher) act" where
  "main_direct fmt = main_chain (StdoutSubscriber_Subscriber fmt) (\<lambda>i. i * 10) (\<lambda>i. i + 2) (0, 20) StdoutSubscriber_new"

section \<open>The chains of the two threads, with the world in view\<close>

interpretation decoupler_world: Subscriber_refines
  "Decoupler_Subscriber Sender_Sendable" "\<lambda>s _. Decoupler_data_tx s = q" "\<lambda>_ w. w"
  "\<lambda>w x. (ch_receiver (chans w q), chan_push q x w)" ignore ignore for q
  by unfold_locales (auto simp: trait_defs meets_def meets_next_def abind_def send_Sender_chan_push)

lemma gen_refines:
  "Subscriber_refines (Map_Subscriber (Map_Subscriber (Decoupler_Subscriber Sender_Sendable)))
     (\<lambda>p w. Map_fun p = (\<lambda>x. ret (f x)) \<and> (\<exists>m. Map_subscriber p = Some m \<and>
        (Map_fun m = (\<lambda>x. ret (g x)) \<and> (\<exists>d. Map_subscriber m = Some d \<and> Decoupler_data_tx d = q))))
     (\<lambda>p w. ((), ((), w)))
     (lift_next (\<lambda>k x. (f x, k)) (lift_next (\<lambda>k x. (g x, k)) (\<lambda>w x. (ch_receiver (chans w q), chan_push q x w))))
     (lift_keep (lift_keep ignore)) (lift_keep (lift_keep ignore))"
  by (rule map_stage.stage_refines [OF map_stage.stage_refines [OF decoupler_world.Subscriber_refines_axioms]]) auto

definition gen_pub ::
  "(('i, 'z) world_scheme, ('i list, (('i, 'z) world_scheme, 'i, chan_id Decoupler) two_maps) IterPublisher,
    (('i, 'z) world_scheme, 'i, chan_id Decoupler) two_maps) publisher" where
  "gen_pub = IterPublisher_Publisher vec_iter_next (Map_Subscriber (Map_Subscriber (Decoupler_Subscriber Sender_Sendable)))"

definition out_pub :: "('i \<Rightarrow> string) \<Rightarrow> (('i, 'z) world_scheme, StdoutSubscriber Coupler, StdoutSubscriber) publisher" where
  "out_pub fmt = Coupler_Publisher (StdoutSubscriber_Subscriber fmt)"

definition gen_wf ::
  "('i \<Rightarrow> 'i) \<Rightarrow> ('i \<Rightarrow> 'i) \<Rightarrow> chan_id \<Rightarrow> 'i list
   \<Rightarrow> ('i list, ('w, 'i, chan_id Decoupler) two_maps) IterPublisher \<Rightarrow> bool" where
  "gen_wf f g q rest p \<longleftrightarrow> IterPublisher_iter p = rest \<and> (\<exists>m1. IterPublisher_subscriber p = Some m1 \<and>
     Map_fun m1 = (\<lambda>x. ret (f x)) \<and> (\<exists>m. Map_subscriber m1 = Some m \<and>
        (Map_fun m = (\<lambda>x. ret (g x)) \<and> (\<exists>d. Map_subscriber m = Some d \<and> Decoupler_data_tx d = q))))"

lemma gen_next_item:
  assumes "gen_wf f g q (x # rest) p"
  obtains p' where "pub_next gen_pub p w = (Ret (ch_receiver (chans w q), p'), chan_push q (g (f x)) w)"
    "gen_wf f g q rest p'"
proof -
  from assms obtain m1 where p: "IterPublisher_iter p = x # rest" "IterPublisher_subscriber p = Some m1"
    and m1: "Map_fun m1 = (\<lambda>x. ret (f x)) \<and> (\<exists>m. Map_subscriber m1 = Some m \<and>
        (Map_fun m = (\<lambda>x. ret (g x)) \<and> (\<exists>d. Map_subscriber m = Some d \<and> Decoupler_data_tx d = q)))"
    by (auto simp: gen_wf_def)
  from gen_refines [of f g q] m1
  obtain m1' w' where step: "on_next (Map_Subscriber (Map_Subscriber (Decoupler_Subscriber Sender_Sendable))) m1 x w =
        (Ret (fst (lift_next (\<lambda>k x. (f x, k)) (lift_next (\<lambda>k x. (g x, k)) (\<lambda>w x. (ch_receiver (chans w q), chan_push q x w)))
          ((), ((), w)) x), m1'), w')"
      and m1': "Map_fun m1' = (\<lambda>x. ret (f x)) \<and> (\<exists>m. Map_subscriber m1' = Some m \<and>
        (Map_fun m = (\<lambda>x. ret (g x)) \<and> (\<exists>d. Map_subscriber m = Some d \<and> Decoupler_data_tx d = q)))"
      and w': "((), ((), w')) = snd (lift_next (\<lambda>k x. (f x, k)) (lift_next (\<lambda>k x. (g x, k)) (\<lambda>w x. (ch_receiver (chans w q), chan_push q x w)))
          ((), ((), w)) x)"
    by (rule Subscriber_refines.nextE)
  let ?p = "\<lparr>IterPublisher_iter = rest, IterPublisher_subscriber = Some m1'\<rparr>"
  have "pub_next gen_pub p w = (Ret (ch_receiver (chans w q), ?p), chan_push q (g (f x)) w)"
    using p step w' by (simp add: gen_pub_def IterPublisher_next_item vec_iter_next_def abind_Ret
        lift_next_def lift_eff_def Let_def)
  moreover have "gen_wf f g q rest ?p" using m1' by (simp add: gen_wf_def)
  ultimately show ?thesis by (rule that)
qed

lemma gen_next_end:
  assumes "gen_wf f g q [] p"
  shows "\<exists>p'. pub_next gen_pub p w = (Ret (False, p'), w)"
  using assms
  by (auto simp: gen_wf_def gen_pub_def IterPublisher_next_end vec_iter_next_def) (simp add: trait_defs)

interpretation gen_thread: producer "pub_next gen_pub" q "\<lambda>p ks. \<exists>rest. gen_wf f g q rest p \<and> ks = map (\<lambda>i. g (f i)) rest" "\<lambda>m. m"
  for f g q
proof (unfold_locales, goal_cases)
  case (1 p k ks w)
  then obtain i rest where i: "gen_wf f g q (i # rest) p" "k = g (f i)" "ks = map (\<lambda>i. g (f i)) rest" by auto
  obtain p' where "pub_next gen_pub p w = (Ret (ch_receiver (chans w q), p'), chan_push q (g (f i)) w)" "gen_wf f g q rest p'"
    by (rule gen_next_item [OF i(1)])
  with i(2,3) 1(2) show ?case by (intro disjI1 exI [of _ p'] exI [of _ k]) (auto simp: chan_push_def push_all_def)
next
  case (2 p w)
  then show ?case using gen_next_end by blast
qed

interpretation out_thread: coupled "StdoutSubscriber_Subscriber fmt" "\<lambda>_ _. True" "\<lambda>_ w. stdout w" "sink_next fmt" ignore ignore q
  "\<lambda>a x. a @ [fmt x]" for fmt q
  by unfold_locales (simp_all add: aloof_def trait_defs sink_next_def println_def ignore_def)

interpretation main_threads: queue_threads "pub_next gen_pub" q "\<lambda>p ks. \<exists>rest. gen_wf f g q rest p \<and> ks = map (\<lambda>i. g (f i)) rest" "\<lambda>m. m"
  "Coupler_next (StdoutSubscriber_Subscriber fmt)" "\<lambda>p w. Coupler_data_rx p = q \<and> (\<exists>s. Coupler_subscriber p = Some s \<and> True)"
  "\<lambda>p w. stdout w" "\<lambda>a x. a @ [fmt x]" "\<lambda>a. ignore a False" for f g q fmt
  by unfold_locales

section \<open>All schedules\<close>

definition fresh_channel :: "'m channel" where
  "fresh_channel = \<lparr>ch_buf = [], ch_bound = None, ch_senders = 1, ch_receiver = True\<rparr>"

definition start_threads :: "('i \<Rightarrow> string) \<Rightarrow> ('i \<Rightarrow> 'i) \<Rightarrow> ('i \<Rightarrow> 'i) \<Rightarrow> chan_id \<Rightarrow> 'i list \<Rightarrow> (('i, 'z) world_scheme,
    (('i list, (('i, 'z) world_scheme, 'i, chan_id Decoupler) two_maps) IterPublisher,
     StdoutSubscriber Coupler, ('i, 'z) world_scheme) threads) act" where
  "start_threads fmt f g q xs =
     abind (main_chain (Decoupler_Subscriber Sender_Sendable) f g xs (Decoupler_new q)) (\<lambda>p.
     abind (main_out fmt q) (\<lambda>c. (\<lambda>w. (Ret \<lparr>th_gen = Some p, th_out = Some c, th_end = None, th_world = w\<rparr>, w))))"

lemma main_out_Ret: "main_out fmt q w = (Ret \<lparr>Coupler_data_rx = q, Coupler_subscriber = Some StdoutSubscriber_new\<rparr>, w)"
  by (simp add: main_out_def Coupler_new_def Coupler_subscribe_def trait_defs)

lemma main_chain_Ret:
  "\<exists>p. main_chain (Decoupler_Subscriber Sender_Sendable) f g xs (Decoupler_new q) w = (Ret p, w) \<and> gen_wf f g q xs p"
  by (simp add: main_chain_def IterPublisher_new_def IterPublisher_subscribe_def Map_subscribe_def Map_new_def
      trait_defs abind_Ret gen_wf_def Decoupler_new_def)

lemma start_threads_Ret: "\<exists>x. start_threads fmt f g q xs w = (Ret x, w)"
  using main_chain_Ret [of f g xs q w] by (auto simp: start_threads_def abind_Ret main_out_Ret)

abbreviation main_at where
  "main_at f g fmt q xs out0 \<equiv> threads_at (\<lambda>p ks. \<exists>rest. gen_wf f g q rest p \<and> ks = map (\<lambda>i. g (f i)) rest) (\<lambda>m. m)
     (\<lambda>p w. Coupler_data_rx p = q \<and> (\<exists>s. Coupler_subscriber p = Some s \<and> True)) (\<lambda>p w. stdout w) (\<lambda>a x. a @ [fmt x]) (\<lambda>a. ignore a False)
     q (map (\<lambda>i. g (f i)) xs) out0"

lemma start_at:
  assumes "start_threads fmt f g q xs w = (Ret x, w')" "chans w q = fresh_channel"
  shows "main_at f g fmt q xs (stdout w) (map (\<lambda>i. g (f i)) xs) [] x \<and> rounds_left q (map (\<lambda>i. g (f i)) xs) x = 2 * length xs + 2"
proof -
  obtain p where p: "main_chain (Decoupler_Subscriber Sender_Sendable) f g xs (Decoupler_new q) w = (Ret p, w)"
    and wf: "gen_wf f g q xs p" using main_chain_Ret by blast
  have "x = \<lparr>th_gen = Some p, th_out = Some \<lparr>Coupler_data_rx = q, Coupler_subscriber = Some StdoutSubscriber_new\<rparr>, th_end = None, th_world = w\<rparr>"
    using assms(1) by (auto simp: start_threads_def abind_Ret p main_out_Ret)
  then show ?thesis using assms(2) wf
    by (auto simp: threads_at_def rounds_left_def fresh_channel_def)
qed

lemma pub_next_out [simp]: "pub_next (out_pub fmt) = Coupler_next (StdoutSubscriber_Subscriber fmt)"
  by (simp add: out_pub_def Coupler_Publisher_def)

lemma main_schedule:
  assumes "start_threads fmt f g q xs w = (Ret x, w')" "chans w q = fresh_channel" "n \<le> 2 * length xs + 2"
  shows "\<exists>y. thread_steps (pub_next gen_pub) (pub_next (out_pub fmt)) q x n y"
  using main_threads.schedule_exists [OF conjunct1 [OF start_at [OF assms(1,2)]]] start_at [OF assms(1,2)] assms(3) by simp

lemma foldl_print: "foldl (\<lambda>a x. a @ [fmt x]) out0 ms = out0 @ map fmt ms"
  by (induction ms arbitrary: out0) simp_all

text \<open>C11. Whatever the schedule of the two threads, what has been printed at any moment is a prefix of the
  images of the source, in order, with two rounds for every line: nothing is lost, duplicated or reordered between the threads.\<close>

theorem threads_print_in_order:
  assumes "start_threads fmt f g q xs w = (Ret x, w')" "chans w q = fresh_channel"
    and "thread_steps (pub_next gen_pub) (pub_next (out_pub fmt)) q x n y"
  shows "\<exists>k. 2 * k \<le> n \<and> stdout (th_world y) = stdout w @ map (\<lambda>i. fmt (g (f i))) (take k xs)"
proof -
  from main_threads.thread_steps_at [OF assms(3) [unfolded pub_next_out] conjunct1 [OF start_at [OF assms(1,2)]]] start_at [OF assms(1,2)]
  obtain rest taken where at: "main_at f g fmt q xs (stdout w) rest taken y" and n: "2 * length xs + 2 = n + rounds_left q rest y" by fastforce
  from at have all: "taken @ ch_buf (chans (th_world y) q) @ rest = map (\<lambda>i. g (f i)) xs" by (simp add: threads_at_def)
  from arg_cong [OF all, of "take (length taken)"] have taken: "taken = map (\<lambda>i. g (f i)) (take (length taken) xs)" by (simp add: take_map)
  from arg_cong [OF all, of length] have "length xs = length taken + length (ch_buf (chans (th_world y) q)) + length rest" by simp
  moreover have "rounds_left q rest y \<le> 2 * length rest + length (ch_buf (chans (th_world y) q)) + 2"
    by (simp add: rounds_left_def)
  moreover have "stdout (th_world y) = stdout w @ map fmt taken"
    using at by (auto simp: threads_at_def foldl_print ignore_def split: option.splits)
  then have "stdout (th_world y) = stdout w @ map (\<lambda>i. fmt (g (f i))) (take (length taken) xs)"
    by (subst (asm) taken) (simp add: comp_def)
  ultimately show ?thesis using n by (intro exI [of _ "length taken"]) simp
qed

theorem threads_print_in_order_witness:
  "\<exists>x y k. start_threads (\<lambda>_. ''x'') (\<lambda>i. i * 10) (\<lambda>i. i + 2) 0 [0, 1 :: int] \<lparr>stdout = [], chans = \<lambda>_. fresh_channel\<rparr> =
      (Ret x, \<lparr>stdout = [], chans = \<lambda>_. fresh_channel\<rparr>) \<and>
    thread_steps (pub_next gen_pub) (pub_next (out_pub (\<lambda>_. ''x''))) 0 x 5 y \<and>
    2 * k \<le> 5 \<and> stdout (th_world y) = map (\<lambda>_. ''x'') (take k [0, 1 :: int])"
proof -
  let ?w = "\<lparr>stdout = [], chans = \<lambda>_. fresh_channel\<rparr> :: int world"
  obtain x where x: "start_threads (\<lambda>_. ''x'') (\<lambda>i. i * 10) (\<lambda>i. i + 2) 0 [0, 1 :: int] ?w = (Ret x, ?w)"
    using start_threads_Ret by blast
  from main_schedule [OF x, of 5] obtain y where y: "thread_steps (pub_next gen_pub) (pub_next (out_pub (\<lambda>_. ''x''))) 0 x 5 y" by auto
  from threads_print_in_order [OF x _ y] x y show ?thesis by auto
qed

text \<open>C10. No schedule deadlocks and every schedule ends: after fewer than \<open>2 * length xs + 2\<close> rounds one of
  the threads can move, no schedule is longer, and at the end of a schedule of that length both
  threads have left their loops and the output is complete.\<close>

theorem threads_terminate:
  assumes "start_threads fmt f g q xs w = (Ret x, w')" "chans w q = fresh_channel"
    and "thread_steps (pub_next gen_pub) (pub_next (out_pub fmt)) q x n y"
  shows "if n < 2 * length xs + 2 then (\<exists>z. thread_step (pub_next gen_pub) (pub_next (out_pub fmt)) q y z)
    else n = 2 * length xs + 2 \<and> th_gen y = None \<and> th_out y = None \<and>
      stdout (th_world y) = stdout w @ map (\<lambda>i. fmt (g (f i))) xs"
  using main_threads.schedules_end [OF conjunct1 [OF start_at [OF assms(1,2)]] assms(3) [unfolded pub_next_out]] start_at [OF assms(1,2)]
  by (auto simp: foldl_print ignore_def split: if_splits)

theorem threads_terminate_witness:
  "\<exists>x y. start_threads (\<lambda>_. ''x'') (\<lambda>i. i * 10) (\<lambda>i. i + 2) 0 [0, 1 :: int] \<lparr>stdout = [], chans = \<lambda>_. fresh_channel\<rparr> =
      (Ret x, \<lparr>stdout = [], chans = \<lambda>_. fresh_channel\<rparr>) \<and>
    thread_steps (pub_next gen_pub) (pub_next (out_pub (\<lambda>_. ''x''))) 0 x 6 y \<and> th_gen y = None \<and> th_out y = None \<and>
    stdout (th_world y) = [''x'', ''x'']"
proof -
  let ?w = "\<lparr>stdout = [], chans = \<lambda>_. fresh_channel\<rparr> :: int world"
  obtain x where x: "start_threads (\<lambda>_. ''x'') (\<lambda>i. i * 10) (\<lambda>i. i + 2) 0 [0, 1 :: int] ?w = (Ret x, ?w)"
    using start_threads_Ret by blast
  from main_schedule [OF x, of 6] obtain y where y: "thread_steps (pub_next gen_pub) (pub_next (out_pub (\<lambda>_. ''x''))) 0 x 6 y" by auto
  from threads_terminate [OF x _ y] x y show ?thesis by auto
qed

lemma main_only_wires:
  "\<exists>p. main_gen dtx w = (Ret p, w)" "\<exists>c. main_out fmt drx w = (Ret c, w)" "\<exists>p. main_direct fmt w = (Ret p, w)"
  by (simp_all add: main_gen_def main_direct_def main_chain_def main_out_Ret IterPublisher_subscribe_def Map_subscribe_def
      trait_defs abind_Ret)

text \<open>\<^verbatim>\<open>main\<close> only wires the chains together, and no thread it spawns calls \<^verbatim>\<open>run\<close>: none of the three
  closures prints, sends or receives anything, waits or panics.\<close>

theorem main_only_subscribes:
  "(\<exists>p. main_gen dtx w = (Ret p, w)) \<and> (\<exists>c. main_out fmt drx w = (Ret c, w)) \<and> (\<exists>p. main_direct fmt w = (Ret p, w))"
  by (intro conjI main_only_wires)

section \<open>The whole test\<close>

text \<open>
  \<^verbatim>\<open>main\<close> makes the queue, spawns its closures and sleeps. A spawned closure is kept with what it has captured until
  it runs; \<^verbatim>\<open>Timer\<close> is a parameter, a constructor that may fail and a \<^verbatim>\<open>sleep\<close>.
\<close>

datatype main_closure = Out chan_id | Gen chan_id | Direct

record 'm main_world = "'m world" +
  unused_chan :: chan_id
  spawned :: "main_closure list"

definition mpsc_channel :: "(('m, 'z) main_world_scheme, chan_id \<times> chan_id) act" where
  "mpsc_channel = (\<lambda>w. let q = unused_chan w in
     (Ret (q, q), set_chan q \<lparr>ch_buf = [], ch_bound = None, ch_senders = 1, ch_receiver = True\<rparr> (w\<lparr>unused_chan := Suc q\<rparr>)))"

definition Thread_spawn :: "main_closure \<Rightarrow> (('m, 'z) main_world_scheme, unit) act" where
  "Thread_spawn f = effect (\<lambda>w. w\<lparr>spawned := spawned w @ [f]\<rparr>)"

definition unwrap_timer :: "'e + 't \<Rightarrow> ('w, 't) act" where
  "unwrap_timer r = (case r of Inl e \<Rightarrow> panic ''called Result::unwrap() on an Err value'' | Inr t \<Rightarrow> ret t)"

definition main ::
  "(('m, 'z) main_world_scheme, 'e + 't) act \<Rightarrow> ('t \<Rightarrow> int \<Rightarrow> (('m, 'z) main_world_scheme, unit) act) \<Rightarrow> (('m, 'z) main_world_scheme, unit) act" where
  "main Timer_new sleep =
     abind mpsc_channel (\<lambda>(dtx, drx).
     abind (Thread_spawn (Out drx)) (\<lambda>_.
     abind (Thread_spawn (Gen dtx)) (\<lambda>_.
     abind Timer_new (\<lambda>r. abind (unwrap_timer r) (\<lambda>timer.
     abind (sleep timer 1000) (\<lambda>_.
     abind (Thread_spawn Direct) (\<lambda>_.
     sleep timer 1000)))))))"

text \<open>
  A closure runs to its end and drops what it holds: \<^verbatim>\<open>out\<close> its receiver, \<^verbatim>\<open>gen\<close> the sender it was given and the
  clone that is in its chain.
\<close>

definition run_closure :: "(int \<Rightarrow> string) \<Rightarrow> main_closure \<Rightarrow> ((int, 'z) main_world_scheme, unit) act" where
  "run_closure fmt f = (case f of
      Out drx \<Rightarrow> abind (main_out fmt drx) (\<lambda>_. effect (drop_receiver drx))
    | Gen dtx \<Rightarrow> abind (effect (clone_sender dtx)) (\<lambda>_. abind (main_gen dtx) (\<lambda>_. effect (\<lambda>w. drop_sender dtx (drop_sender dtx w))))
    | Direct \<Rightarrow> abind (main_direct fmt) (\<lambda>_. ret ()))"

primrec run_closures :: "(int \<Rightarrow> string) \<Rightarrow> main_closure list \<Rightarrow> ((int, 'z) main_world_scheme, unit) act" where
  "run_closures fmt [] = ret ()"
| "run_closures fmt (f # fs) = abind (run_closure fmt f) (\<lambda>_. run_closures fmt fs)"

text \<open>What the closures change: the ends of the queue they have captured.\<close>

definition closure_effect :: "main_closure \<Rightarrow> ('m, 'z) world_scheme \<Rightarrow> ('m, 'z) world_scheme" where
  "closure_effect f w = (case f of Out q \<Rightarrow> drop_receiver q w | Gen q \<Rightarrow> drop_sender q w | Direct \<Rightarrow> w)"

lemma run_closure_Ret: "run_closure fmt f w = (Ret (), closure_effect f w)"
proof (cases f)
  case (Gen q)
  obtain p where "main_gen q (clone_sender q w) = (Ret p, clone_sender q w)" using main_only_wires(1) by blast
  with Gen show ?thesis
    by (simp add: run_closure_def closure_effect_def abind_Ret) (simp add: clone_sender_def drop_sender_def set_chan_def)
next
  case Direct
  obtain p where "main_direct fmt w = (Ret p, w)" using main_only_wires(3) by blast
  with Direct show ?thesis by (simp add: run_closure_def closure_effect_def abind_Ret)
qed (simp add: run_closure_def closure_effect_def abind_Ret main_out_Ret)

lemma run_closures_Ret: "run_closures fmt fs w = (Ret (), fold closure_effect fs w)"
  by (induction fs arbitrary: w) (simp_all add: abind_Ret run_closure_Ret)

lemma closure_effects:
  "stdout (fold closure_effect fs w) = stdout w" "ch_buf (chans (fold closure_effect fs w) q) = ch_buf (chans w q)"
  "ch_senders (chans (fold closure_effect fs w) q) = ch_senders (chans w q) - count_list fs (Gen q)"
  "ch_receiver (chans (fold closure_effect fs w) q) \<longleftrightarrow> ch_receiver (chans w q) \<and> Out q \<notin> set fs"
  by (induction fs arbitrary: w)
    (auto simp: closure_effect_def drop_receiver_def drop_sender_def split: main_closure.split)

text \<open>C39. The test in the crate root does nothing but make a queue and throw it away: it returns if the timer can be made, and
  when its three threads have run, in whatever order, nothing has been printed, nothing has gone through
  the queue, and both ends of the queue are gone.\<close>

theorem main_prints_nothing:
  assumes "Timer_new = ret (Inr timer)" "\<And>t d. sleep t d = ret ()" "spawned w = []"
  shows "\<exists>w1. main Timer_new sleep w = (Ret (), w1) \<and> mset (spawned w1) = {#Out (unused_chan w), Gen (unused_chan w), Direct#} \<and>
    (\<forall>fs. mset fs = mset (spawned w1) \<longrightarrow> (\<exists>w2. run_closures fmt fs w1 = (Ret (), w2) \<and> stdout w2 = stdout w \<and>
       ch_buf (chans w2 (unused_chan w)) = [] \<and> ch_senders (chans w2 (unused_chan w)) = 0 \<and> \<not> ch_receiver (chans w2 (unused_chan w))))"
proof -
  let ?q = "unused_chan w"
  let ?w1 = "(set_chan ?q \<lparr>ch_buf = [], ch_bound = None, ch_senders = 1, ch_receiver = True\<rparr> (w\<lparr>unused_chan := Suc ?q\<rparr>))
    \<lparr>spawned := [Out ?q, Gen ?q, Direct]\<rparr>"
  have main: "main Timer_new sleep w = (Ret (), ?w1)"
    using assms by (simp add: main_def mpsc_channel_def Thread_spawn_def unwrap_timer_def abind_Ret Let_def set_chan_def)
  have "\<exists>w2. run_closures fmt fs ?w1 = (Ret (), w2) \<and> stdout w2 = stdout w \<and> ch_buf (chans w2 ?q) = [] \<and>
      ch_senders (chans w2 ?q) = 0 \<and> \<not> ch_receiver (chans w2 ?q)" if fs: "mset fs = {#Out ?q, Gen ?q, Direct#}" for fs
  proof -
    have "set fs = {Out ?q, Gen ?q, Direct}" using arg_cong [OF fs, of set_mset] by simp
    moreover have "count_list fs (Gen ?q) = 1" using arg_cong [OF fs, of "\<lambda>M. count M (Gen ?q)"] by (simp add: count_list_eq_length_filter count_mset)
    ultimately show ?thesis by (simp add: run_closures_Ret closure_effects set_chan_def)
  qed
  with main show ?thesis by auto
qed

theorem main_prints_nothing_witness:
  "\<exists>w1 w2. main (ret (Inr () :: unit + unit)) (\<lambda>_ _. ret ()) \<lparr>stdout = [], chans = \<lambda>_. fresh_channel, unused_chan = 3, spawned = []\<rparr> = (Ret (), w1) \<and>
    run_closures (\<lambda>_. ''x'') [Gen 3, Direct, Out 3] w1 = (Ret (), w2) \<and> stdout w2 = [] \<and> ch_buf (chans w2 3) = []"
proof -
  let ?w = "\<lparr>stdout = [], chans = \<lambda>_. fresh_channel, unused_chan = 3, spawned = []\<rparr> :: int main_world"
  from main_prints_nothing [of "ret (Inr () :: unit + unit)" "()" "\<lambda>_ _. ret ()" ?w "\<lambda>_. ''x''"] obtain w1 where
    w1: "main (ret (Inr () :: unit + unit)) (\<lambda>_ _. ret ()) ?w = (Ret (), w1)" "mset (spawned w1) = {#Out 3, Gen 3, Direct#}"
    and run: "\<forall>fs. mset fs = mset (spawned w1) \<longrightarrow> (\<exists>w2. run_closures (\<lambda>_. ''x'') fs w1 = (Ret (), w2) \<and> stdout w2 = [] \<and>
      ch_buf (chans w2 3) = [] \<and> ch_senders (chans w2 3) = 0 \<and> \<not> ch_receiver (chans w2 3))" by auto
  have "mset [Gen 3, Direct, Out 3] = mset (spawned w1)" using w1(2) by (simp add: add_mset_commute)
  with run w1(1) show ?thesis by blast
qed

end
