(* ===== verification/Rx_Mmap.thy ===== *)
theory Rx_Mmap
  imports Rx_Prelude
begin

unbundle bit_operations_syntax

text \<open>
  The allocator of \<^verbatim>\<open>src/mmap_allocator.rs\<close>: a memory-mapped file with a header (magic number, offset of
  the next free byte, size) in which allocation is a bump of the offset by compare-and-swap.

  The system calls of the \<^verbatim>\<open>nix\<close> crate are a parameter, the record \<open>nix\<close>. Memory is a function from
  addresses to words with the set of mapped addresses; to touch an unmapped one ends the program.
  \<open>allocate\<close> is given twice: as the loop of the source, and as the sequence of its atomic memory
  accesses (\<open>alloc_step\<close>), which several threads can interleave.
\<close>

section \<open>Memory\<close>

record heap =
  mem :: "u64 \<Rightarrow> u64"
  mapped :: "u64 \<Rightarrow> bool"

definition load_word :: "u64 \<Rightarrow> ('z heap_scheme, u64) act" where
  "load_word a = (\<lambda>w. if mapped w a then (Ret (mem w a), w) else (Panic ''segmentation fault'', w))"

definition store_word :: "u64 \<Rightarrow> u64 \<Rightarrow> ('z heap_scheme, unit) act" where
  "store_word a v = (\<lambda>w. if mapped w a then (Ret (), w\<lparr>mem := (mem w)(a := v)\<rparr>) else (Panic ''segmentation fault'', w))"

text \<open>\<^verbatim>\<open>AtomicUint::compare_and_swap\<close> returns the old value, whether it stored the new one or not.\<close>

definition compare_and_swap :: "u64 \<Rightarrow> u64 \<Rightarrow> u64 \<Rightarrow> ('z heap_scheme, u64) act" where
  "compare_and_swap a old new =
     abind (load_word a) (\<lambda>v. if v = old then abind (store_word a new) (\<lambda>_. ret v) else ret v)"

section \<open>The data\<close>

definition ALIGN :: usize where "ALIGN = 8"

definition MAGIC :: usize where "MAGIC = 0x42424242"

record MMapHeader =
  magic :: usize
  current :: usize
  header_total_size :: u64

definition size_of_MMapHeader :: usize where "size_of_MMapHeader = 24"

text \<open>The header lies at its address as three consecutive words; \<open>header\<close> points to it.\<close>

definition write_header :: "u64 \<Rightarrow> MMapHeader \<Rightarrow> ('z heap_scheme, unit) act" where
  "write_header h hdr = abind (store_word h (magic hdr)) (\<lambda>_. abind (store_word (h + 8) (current hdr)) (\<lambda>_.
     store_word (h + 16) (header_total_size hdr)))"

definition header_at :: "u64 \<Rightarrow> 'z heap_scheme \<Rightarrow> MMapHeader" where
  "header_at h w = \<lparr>magic = mem w h, current = mem w (h + 8), header_total_size = mem w (h + 16)\<rparr>"

record MappedRegion =
  addr :: u64
  total_size :: u64
  fd :: u32
  header :: u64
  count :: usize

section \<open>System calls\<close>

type_synonym errno = nat

text \<open>
  The calls with the arguments that vary: \<^verbatim>\<open>open\<close> is always with \<^verbatim>\<open>O_CREAT | O_RDWR\<close> and all
  permissions, \<^verbatim>\<open>mmap\<close> always at address 0, readable, writable, shared and from offset 0,
  \<^verbatim>\<open>madvise\<close> with \<^verbatim>\<open>MADV_SEQUENTIAL\<close>, \<^verbatim>\<open>msync\<close> with \<^verbatim>\<open>MS_SYNC\<close>; \<^verbatim>\<open>fstat\<close> gives the size.
  A signed 64-bit argument is passed as its bits.
\<close>

record 'w nix =
  nix_open :: "string \<Rightarrow> ('w, errno + u32) act"
  nix_ftruncate :: "u32 \<Rightarrow> u64 \<Rightarrow> ('w, errno + unit) act"
  nix_fstat :: "u32 \<Rightarrow> ('w, errno + u64) act"
  nix_mmap :: "u64 \<Rightarrow> u32 \<Rightarrow> ('w, errno + u64) act"
  nix_madvise :: "u64 \<Rightarrow> u64 \<Rightarrow> ('w, errno + unit) act"
  nix_msync :: "u64 \<Rightarrow> u64 \<Rightarrow> ('w, errno + unit) act"
  nix_munmap :: "u64 \<Rightarrow> u64 \<Rightarrow> ('w, errno + unit) act"
  nix_close :: "u32 \<Rightarrow> ('w, errno + unit) act"

definition unwrap :: "(errno + 'a) \<Rightarrow> ('w, 'a) act" where
  "unwrap r = (case r of Inl e \<Rightarrow> panic ''called Result::unwrap() on an Err value'' | Inr a \<Rightarrow> ret a)"

section \<open>Creating, loading and dropping a region\<close>

definition round_up :: "usize \<Rightarrow> usize" where
  "round_up x = ((x - 1) OR (ALIGN - 1)) + 1"

definition MappedRegion_new ::
  "'z heap_scheme nix \<Rightarrow> string \<Rightarrow> u64 \<Rightarrow> ('z heap_scheme, string + MappedRegion) act" where
  "MappedRegion_new N basepath tsize =
     abind (nix_open N basepath) (\<lambda>r. abind (unwrap r) (\<lambda>f.
     abind (nix_ftruncate N f tsize) (\<lambda>r. abind (unwrap r) (\<lambda>_.
     abind (nix_mmap N tsize f) (\<lambda>r. abind (unwrap r) (\<lambda>ptr.
     abind (nix_madvise N ptr tsize) (\<lambda>r.
     abind (case r of
         Inr _ \<Rightarrow> ret ()
       | Inl e \<Rightarrow> abind (nix_munmap N ptr tsize) (\<lambda>r. abind (unwrap r) (\<lambda>_.
                  abind (nix_close N f) (\<lambda>r. unwrap r)))) (\<lambda>_.
     abind (write_header ptr \<lparr>magic = MAGIC, current = round_up size_of_MMapHeader, header_total_size = tsize\<rparr>) (\<lambda>_.
     ret (Inr \<lparr>addr = ptr, total_size = tsize, fd = f, header = ptr, count = 0\<rparr>))))))))))"

datatype load_error = SizesDoNotMatch string u64 u64

definition MappedRegion_load ::
  "'z heap_scheme nix \<Rightarrow> string \<Rightarrow> ('z heap_scheme, load_error + MappedRegion) act" where
  "MappedRegion_load N basepath =
     abind (nix_open N basepath) (\<lambda>r. abind (unwrap r) (\<lambda>f.
     abind (nix_fstat N f) (\<lambda>r. abind (unwrap r) (\<lambda>st_size.
     abind (nix_mmap N st_size f) (\<lambda>r. abind (unwrap r) (\<lambda>ptr.
     abind (load_word ptr) (\<lambda>m.
     abind (if m \<noteq> MAGIC then abind (load_word (ptr + 16)) (\<lambda>t. ret (t \<noteq> st_size)) else ret False) (\<lambda>bad.
     if bad then
       abind (nix_munmap N ptr st_size) (\<lambda>r. abind (unwrap r) (\<lambda>_.
       abind (nix_close N f) (\<lambda>r. abind (unwrap r) (\<lambda>_.
       abind (load_word (ptr + 16)) (\<lambda>t. ret (Inl (SizesDoNotMatch basepath st_size t)))))))
     else abind (load_word (ptr + 16)) (\<lambda>t.
       ret (Inr \<lparr>addr = ptr, total_size = t, fd = f, header = ptr, count = 0\<rparr>))))))))))"

text \<open>\<^verbatim>\<open>drop\<close> tries all three calls whatever they return.\<close>

definition MappedRegion_drop :: "'z heap_scheme nix \<Rightarrow> MappedRegion \<Rightarrow> ('z heap_scheme, unit) act" where
  "MappedRegion_drop N self =
     abind (nix_msync N (addr self) (total_size self)) (\<lambda>_.
     abind (nix_munmap N (addr self) (total_size self)) (\<lambda>_.
     abind (nix_close N (fd self)) (\<lambda>_. ret ())))"

section \<open>Allocation\<close>

fun decimal :: "nat \<Rightarrow> string" where
  "decimal n = (if n < 10 then [] else decimal (n div 10)) @ [char_of (48 + n mod 10)]"

definition align_message :: "usize \<Rightarrow> string" where
  "align_message align =
     ''User requested alignment of '' @ decimal (unat align) @ '' but we only have '' @ decimal (unat ALIGN)"

text \<open>The loop: load the offset, compute the next one, swap; again if another thread was faster.\<close>

definition alloc_try :: "MappedRegion \<Rightarrow> usize \<Rightarrow> usize \<Rightarrow> ('z heap_scheme, bool \<times> usize) act" where
  "alloc_try self sz _ =
     abind (load_word (header self + 8)) (\<lambda>offset.
     abind (compare_and_swap (header self + 8) offset (round_up (offset + sz))) (\<lambda>oldval.
     ret (offset \<noteq> oldval, offset)))"

text \<open>After the loop: the null pointer past the end, or one more allocation in the count.\<close>

definition alloc_finish :: "MappedRegion \<Rightarrow> usize \<Rightarrow> u64 \<times> MappedRegion" where
  "alloc_finish self offset =
     (if offset > total_size self then (0, self)
      else (addr self + offset, self\<lparr>count := count self + 1\<rparr>))"

definition allocate :: "MappedRegion \<Rightarrow> usize \<Rightarrow> usize \<Rightarrow> ('z heap_scheme, u64 \<times> MappedRegion) pact" where
  "allocate self sz align =
     (if align \<noteq> ALIGN then once (panic (align_message align))
      else pbind (loop_act (alloc_try self sz) 0) (\<lambda>offset. once (ret (alloc_finish self offset))))"

definition deallocate :: "MappedRegion \<Rightarrow> u64 \<Rightarrow> usize \<Rightarrow> usize \<Rightarrow> MappedRegion" where
  "deallocate self p n align = self"

text \<open>The region as an \<^verbatim>\<open>Allocator\<close>, the trait of \<^verbatim>\<open>iobuf\<close> through which buffers are made.\<close>

record 'z allocator_trait =
  trait_allocate :: "MappedRegion \<Rightarrow> usize \<Rightarrow> usize \<Rightarrow> ('z heap_scheme, u64 \<times> MappedRegion) pact"
  trait_deallocate :: "MappedRegion \<Rightarrow> u64 \<Rightarrow> usize \<Rightarrow> usize \<Rightarrow> MappedRegion"

definition MappedRegion_Allocator :: "'z allocator_trait" where
  "MappedRegion_Allocator = \<lparr>trait_allocate = allocate, trait_deallocate = deallocate\<rparr>"

text \<open>How a header is shown in the log.\<close>

definition MMapHeader_fmt :: "MMapHeader \<Rightarrow> string" where
  "MMapHeader_fmt h = ''MMapHeader[current: '' @ decimal (unat (current h)) @ '', total_size: '' @
     decimal (unat (header_total_size h)) @ '']''"

definition num_allocated :: "MappedRegion \<Rightarrow> usize" where
  "num_allocated self = count self"

section \<open>One call of allocate, access by access\<close>

datatype alloc_pc = Enter | Loop | Loaded usize | Reserved usize | Returned u64

fun alloc_step :: "usize \<Rightarrow> usize \<Rightarrow> alloc_pc \<Rightarrow> MappedRegion \<Rightarrow> ('z heap_scheme, alloc_pc \<times> MappedRegion) act" where
  "alloc_step sz align Enter self = (if align \<noteq> ALIGN then panic (align_message align) else ret (Loop, self))"
| "alloc_step sz align Loop self = abind (load_word (header self + 8)) (\<lambda>offset. ret (Loaded offset, self))"
| "alloc_step sz align (Loaded offset) self =
     abind (compare_and_swap (header self + 8) offset (round_up (offset + sz))) (\<lambda>oldval.
     ret (if offset = oldval then Reserved offset else Loop, self))"
| "alloc_step sz align (Reserved offset) self = (case alloc_finish self offset of (p, self') \<Rightarrow> ret (Returned p, self'))"
| "alloc_step sz align (Returned p) self = block"

text \<open>
  \<open>n\<close> calls at once, call \<open>i\<close> for \<open>sizes i\<close> bytes; a step is one access of one of them. A thread that
  makes several calls is covered: its calls just never overlap.
\<close>

record 'z alloc_sys =
  sys_region :: MappedRegion
  sys_heap :: "'z heap_scheme"
  sys_pc :: "nat \<Rightarrow> alloc_pc"

inductive alloc_sys_step :: "(nat \<Rightarrow> usize) \<Rightarrow> nat \<Rightarrow> 'z alloc_sys \<Rightarrow> 'z alloc_sys \<Rightarrow> bool" for sizes n where
  call_moves: "i < n \<Longrightarrow>
     alloc_step (sizes i) ALIGN (sys_pc x i) (sys_region x) (sys_heap x) = (Ret (pc', r'), h') \<Longrightarrow>
     alloc_sys_step sizes n x \<lparr>sys_region = r', sys_heap = h', sys_pc = (sys_pc x)(i := pc')\<rparr>"

inductive alloc_sys_steps :: "(nat \<Rightarrow> usize) \<Rightarrow> nat \<Rightarrow> 'z alloc_sys \<Rightarrow> nat \<Rightarrow> 'z alloc_sys \<Rightarrow> bool" for sizes n x where
  no_accesses: "alloc_sys_steps sizes n x 0 x"
| more_accesses: "alloc_sys_steps sizes n x m y \<Longrightarrow> alloc_sys_step sizes n y z \<Longrightarrow> alloc_sys_steps sizes n x (Suc m) z"

section \<open>Rounding up\<close>

lemma or_7_nat: "n OR 7 = 8 * (n div 8) + (7 :: nat)"
proof -
  have t: "take_bit 3 (n OR 7) = (7::nat)" 
  proof -
    have "(7::nat) = mask 3" by (simp add: mask_eq_exp_minus_1)
    then show ?thesis by (simp only: take_bit_or take_bit_eq_mask) (auto simp: bit_eq_iff bit_simps)
  qed
  have d: "drop_bit 3 (n OR 7) = n div 8" by (simp add: drop_bit_or) (simp add: drop_bit_eq_div)
  from bits_ident [of 3 "n OR 7"] t d show ?thesis by (simp add: push_bit_eq_mult)
qed

lemma unat_round_up:
  fixes x :: "64 word"
  assumes "unat x + 7 < 2 ^ 64"
  shows "unat (((x - 1) OR 7) + 1) = 8 * ((unat x + 7) div 8)"
proof (cases "x = 0")
  case True
  then show ?thesis by simp
next
  case False
  then have p: "unat (x - 1) = unat x - 1" "0 < unat x" by (simp_all add: unat_minus_one unat_gt_0)
  have "unat ((x - 1) OR 7) = 8 * (unat (x - 1) div 8) + 7"
    by (simp add: unsigned_or_eq or_7_nat)
  also have "\<dots> + 1 = 8 * ((unat x + 7) div 8)" using p by (cases "unat x") (simp_all add: div_add_self1)
  finally show ?thesis using assms by (simp add: unat_word_ariths)
qed

lemma round_up_0 [simp]: "round_up size_of_MMapHeader = 24"
  by (simp add: round_up_def size_of_MMapHeader_def ALIGN_def)

text \<open>The abstract allocator: every request moves the offset to the next multiple of 8.\<close>

definition bump1 :: "nat \<Rightarrow> nat \<Rightarrow> nat" where
  "bump1 c s = 8 * ((c + s + 7) div 8)"

definition bump :: "nat \<Rightarrow> nat list \<Rightarrow> nat" where
  "bump c ss = foldl bump1 c ss"

lemma bump_simps [simp]: "bump c [] = c" "bump c (ss @ [s]) = bump1 (bump c ss) s"
  by (simp_all add: bump_def)

lemma bump1_bounds: "c + s \<le> bump1 c s" "bump1 c s \<le> c + s + 7"
  by (simp_all add: bump1_def)

lemma bump_mono: "bump c ss \<le> bump c (ss @ ts)"
proof (induction ts rule: rev_induct)
  case (snoc t ts)
  with bump1_bounds(1) [of "bump c (ss @ ts)" t] show ?case by (simp flip: append_assoc)
qed simp

lemma bump_le: "bump c ss \<le> c + sum_list (map (\<lambda>s. s + 7) ss)"
proof (induction ss rule: rev_induct)
  case (snoc s ss)
  with bump1_bounds(2) [of "bump c ss" s] show ?case by simp
qed simp

lemma bump_aligned: "8 dvd c \<Longrightarrow> 8 dvd bump c ss"
  by (induction ss rule: rev_induct) (simp_all add: bump1_def)

lemma bump_step: "k < length ss \<Longrightarrow> bump c (take k ss) + ss ! k \<le> bump c (take (Suc k) ss)"
  using bump1_bounds(1) [of "bump c (take k ss)" "ss ! k"] by (simp add: take_Suc_conv_app_nth)

lemma bump_take_mono: "j \<le> k \<Longrightarrow> bump c (take j ss) \<le> bump c (take k ss)"
  using bump_mono [of c "take j ss" "take (k - j) (drop j ss)"] by (simp flip: take_add)

lemma unat_round_up_add:
  assumes "unat c + unat s + 7 < 2 ^ 64"
  shows "unat (round_up (c + s)) = bump1 (unat c) (unat s)"
proof -
  have "unat (c + s) = unat c + unat s" using assms by (simp add: unat_word_ariths)
  then show ?thesis using unat_round_up [of "c + s"] assms by (simp add: round_up_def ALIGN_def bump1_def)
qed

section \<open>Concurrent calls\<close>

text \<open>
  \<open>holds r pc off\<close>: the call has reserved the offset \<open>off\<close>, and perhaps returned with it. The calls
  that have, in the order of their swaps, got what the abstract allocator gives in that order.
\<close>

definition holds :: "MappedRegion \<Rightarrow> alloc_pc \<Rightarrow> usize \<Rightarrow> bool" where
  "holds r pc off \<longleftrightarrow> pc = Reserved off \<or> pc = Returned (fst (alloc_finish r off))"

fun reserved :: "alloc_pc \<Rightarrow> bool" where
  "reserved (Reserved off) = True"
| "reserved (Returned p) = True"
| "reserved _ = False"

text \<open>\<open>offset_at sizes c0 order k\<close>: the offset the \<open>k\<close>-th call of \<open>order\<close> gets when they come one after the other.\<close>

definition offset_at :: "(nat \<Rightarrow> usize) \<Rightarrow> usize \<Rightarrow> nat list \<Rightarrow> nat \<Rightarrow> usize" where
  "offset_at sizes c0 order k = foldl (\<lambda>c i. round_up (c + sizes i)) c0 (take k order)"

definition granted :: "(nat \<Rightarrow> usize) \<Rightarrow> usize \<Rightarrow> MappedRegion \<Rightarrow> nat list \<Rightarrow> (nat \<Rightarrow> alloc_pc) \<Rightarrow> nat set" where
  "granted sizes c0 r order pcs =
     {k. k < length order \<and> (\<exists>p. pcs (order ! k) = Returned p) \<and> offset_at sizes c0 order k \<le> total_size r}"

definition alloc_inv ::
  "(nat \<Rightarrow> usize) \<Rightarrow> nat \<Rightarrow> MappedRegion \<Rightarrow> 'z heap_scheme \<Rightarrow> nat list \<Rightarrow> 'z alloc_sys \<Rightarrow> bool" where
  "alloc_inv sizes n r h order x \<longleftrightarrow> (let c0 = mem h (header r + 8) in
     distinct order \<and> set order = {i. i < n \<and> reserved (sys_pc x i)} \<and>
     (\<forall>k < length order. holds r (sys_pc x (order ! k)) (offset_at sizes c0 order k)) \<and>
     sys_region x = r\<lparr>count := count r + of_nat (card (granted sizes c0 r order (sys_pc x)))\<rparr> \<and>
     mapped h (header r + 8) \<and>
     sys_heap x = h\<lparr>mem := (mem h)(header r + 8 := offset_at sizes c0 order (length order))\<rparr>)"

lemma offset_at_append: "k \<le> length order \<Longrightarrow> offset_at sizes c0 (order @ [i]) k = offset_at sizes c0 order k"
  by (simp add: offset_at_def)

lemma offset_at_last: "offset_at sizes c0 (order @ [i]) (Suc (length order)) = round_up (offset_at sizes c0 order (length order) + sizes i)"
  by (simp add: offset_at_def)

lemma finite_granted [simp]: "finite (granted sizes c0 r order pcs)"
  by (simp add: granted_def)

lemma granted_cong:
  "(\<And>k. k < length order \<Longrightarrow> pcs' (order ! k) = pcs (order ! k)) \<Longrightarrow> granted sizes c0 r order pcs' = granted sizes c0 r order pcs"
  by (auto simp: granted_def)

lemma alloc_finish_fst [simp]: "fst (alloc_finish (r\<lparr>count := c\<rparr>) off) = fst (alloc_finish r off)"
  by (simp add: alloc_finish_def)

lemma alloc_finish_within: "off \<le> total_size r \<Longrightarrow> alloc_finish r off = (addr r + off, r\<lparr>count := count r + 1\<rparr>)"
  by (simp add: alloc_finish_def leD)

lemma alloc_finish_past: "\<not> off \<le> total_size r \<Longrightarrow> alloc_finish r off = (0, r)"
  by (simp add: alloc_finish_def not_le)

text \<open>The effect of a compare-and-swap on a mapped word.\<close>

lemma compare_and_swap_mapped:
  "mapped w a \<Longrightarrow> compare_and_swap a old new w =
     (Ret (mem w a), if mem w a = old then w\<lparr>mem := (mem w)(a := new)\<rparr> else w)"
  by (simp add: compare_and_swap_def abind_def load_word_def store_word_def)

lemma load_word_mapped: "mapped w a \<Longrightarrow> load_word a w = (Ret (mem w a), w)"
  by (simp add: load_word_def)

lemma alloc_inv_local:
  assumes "alloc_inv sizes n r h order x" "\<not> reserved (sys_pc x i)" "\<not> reserved pc'"
  shows "alloc_inv sizes n r h order \<lparr>sys_region = sys_region x, sys_heap = sys_heap x, sys_pc = (sys_pc x)(i := pc')\<rparr>"
proof -
  have "order ! k \<noteq> i" if "k < length order" for k
    using assms(1,2) nth_mem [OF that] by (auto simp: alloc_inv_def Let_def)
  moreover from this have "granted sizes c0 r order ((sys_pc x)(i := pc')) = granted sizes c0 r order (sys_pc x)" for c0
    by (intro granted_cong) simp
  ultimately show ?thesis using assms by (auto simp: alloc_inv_def Let_def)
qed

text \<open>The swap that succeeds puts its call at the end of the order.\<close>

lemma alloc_inv_swap:
  assumes inv: "alloc_inv sizes n r h order x" and i: "i < n" "\<not> reserved (sys_pc x i)"
    and off: "mem (sys_heap x) (header r + 8) = off"
  shows "alloc_inv sizes n r h (order @ [i]) \<lparr>sys_region = sys_region x,
      sys_heap = (sys_heap x)\<lparr>mem := (mem (sys_heap x))(header r + 8 := round_up (off + sizes i))\<rparr>,
      sys_pc = (sys_pc x)(i := Reserved off)\<rparr>"
proof -
  let ?c0 = "mem h (header r + 8)" and ?pcs = "(sys_pc x)(i := Reserved off)"
  from inv i off have d: "i \<notin> set order" and c: "off = offset_at sizes ?c0 order (length order)"
    by (auto simp: alloc_inv_def Let_def)
  have same: "order ! k \<noteq> i" if "k < length order" for k
    using that d by (auto simp: in_set_conv_nth)
  have "granted sizes ?c0 r (order @ [i]) ?pcs = granted sizes ?c0 r order (sys_pc x)"
    using same by (auto simp: granted_def nth_append offset_at_append less_Suc_eq)
  moreover have "holds r (?pcs ((order @ [i]) ! k)) (offset_at sizes ?c0 (order @ [i]) k)" if "k < length (order @ [i])" for k
    using that inv same [of k] c by (auto simp: alloc_inv_def Let_def nth_append less_Suc_eq offset_at_append holds_def)
  ultimately show ?thesis using inv i d c by (auto simp: alloc_inv_def Let_def offset_at_last)
qed

lemma granted_return:
  assumes "distinct order" "k < length order" "order ! k = i" "sys_pc x i = Reserved off"
  shows "granted sizes c0 r order ((sys_pc x)(i := Returned p)) =
    (if offset_at sizes c0 order k \<le> total_size r then insert k (granted sizes c0 r order (sys_pc x))
     else granted sizes c0 r order (sys_pc x))" "k \<notin> granted sizes c0 r order (sys_pc x)"
  using assms by (auto simp: granted_def nth_eq_iff_index_eq)

lemma alloc_inv_return:
  assumes inv: "alloc_inv sizes n r h order x" and i: "i < n" "sys_pc x i = Reserved off"
  shows "alloc_inv sizes n r h order \<lparr>sys_region = snd (alloc_finish (sys_region x) off), sys_heap = sys_heap x,
      sys_pc = (sys_pc x)(i := Returned (fst (alloc_finish (sys_region x) off)))\<rparr>"
proof -
  let ?c0 = "mem h (header r + 8)"
  from inv i have "i \<in> set order" "distinct order" by (auto simp: alloc_inv_def Let_def)
  then obtain k where k: "k < length order" "order ! k = i" by (auto simp: in_set_conv_nth)
  from inv k i have off: "offset_at sizes ?c0 order k = off" by (force simp: alloc_inv_def Let_def holds_def)
  have reg: "sys_region x = r\<lparr>count := count r + of_nat (card (granted sizes ?c0 r order (sys_pc x)))\<rparr>"
    using inv by (simp add: alloc_inv_def Let_def)
  define p R where "p = fst (alloc_finish (sys_region x) off)" and "R = snd (alloc_finish (sys_region x) off)"
  have p: "p = fst (alloc_finish r off)" by (simp add: p_def reg alloc_finish_def)
  have "\<forall>j<length order. holds r (((sys_pc x)(i := Returned p)) (order ! j)) (offset_at sizes ?c0 order j)"
    using inv k \<open>distinct order\<close> off by (auto simp: alloc_inv_def Let_def holds_def p nth_eq_iff_index_eq)
  moreover have "{j. j < n \<and> reserved (((sys_pc x)(i := Returned p)) j)} = {j. j < n \<and> reserved (sys_pc x j)}"
    using i by auto
  moreover have "R = r\<lparr>count := count r + of_nat (card (granted sizes ?c0 r order ((sys_pc x)(i := Returned p))))\<rparr>"
    using granted_return [OF \<open>distinct order\<close> k i(2), where ?c0.0 = ?c0 and r = r and sizes = sizes] off by (simp add: reg R_def alloc_finish_def)
  ultimately have "alloc_inv sizes n r h order \<lparr>sys_region = R, sys_heap = sys_heap x, sys_pc = (sys_pc x)(i := Returned p)\<rparr>"
    using inv by (simp add: alloc_inv_def Let_def)
  then show ?thesis by (simp only: p_def R_def)
qed

lemma alloc_sys_step_inv:
  assumes "alloc_sys_step sizes n x y" and inv: "alloc_inv sizes n r h order x"
  shows "\<exists>order'. alloc_inv sizes n r h order' y"
  using assms(1)
proof cases
  case (call_moves i pc' r' h')
  from inv have hdr: "header (sys_region x) = header r" "mapped (sys_heap x) (header r + 8)"
    by (simp_all add: alloc_inv_def Let_def)
  show ?thesis
  proof (cases "sys_pc x i")
    case Enter
    with call_moves alloc_inv_local [OF inv, of i Loop] show ?thesis by auto
  next
    case Loop
    with call_moves hdr alloc_inv_local [OF inv, of i "Loaded (mem (sys_heap x) (header r + 8))"] show ?thesis
      by (auto simp: abind_def load_word_mapped)
  next
    case (Loaded off)
    with call_moves hdr alloc_inv_local [OF inv, of i Loop] alloc_inv_swap [OF inv, of i off] show ?thesis
      by (auto simp: abind_def compare_and_swap_mapped split: if_splits)
  next
    case (Reserved off)
    with call_moves alloc_inv_return [OF inv, of i off] show ?thesis by (auto split: prod.splits)
  qed (use call_moves in simp)
qed

lemma alloc_inv_start:
  assumes "\<forall>i<n. sys_pc x i = Enter" "mapped (sys_heap x) (header (sys_region x) + 8)"
  shows "alloc_inv sizes n (sys_region x) (sys_heap x) [] x"
  using assms by (auto simp: alloc_inv_def Let_def offset_at_def granted_def)

lemma alloc_sys_steps_inv:
  assumes "alloc_sys_steps sizes n x m y" "alloc_inv sizes n r h order x"
  shows "\<exists>order'. alloc_inv sizes n r h order' y"
  using assms
proof (induction rule: alloc_sys_steps.induct)
  case no_accesses
  then show ?case by blast
next
  case (more_accesses m y z)
  then show ?case using alloc_sys_step_inv by blast
qed

section \<open>Progress\<close>

text \<open>
  The accesses a system can still make. A call that read an offset which has changed since has to
  read again; only a swap of another call that succeeds can bring it there, which the square pays for.
\<close>

fun accesses_left :: "usize \<Rightarrow> alloc_pc \<Rightarrow> nat" where
  "accesses_left cur Enter = 4"
| "accesses_left cur Loop = 3"
| "accesses_left cur (Loaded off) = (if off = cur then 2 else 4)"
| "accesses_left cur (Reserved off) = 1"
| "accesses_left cur (Returned p) = 0"

definition competing :: "nat \<Rightarrow> (nat \<Rightarrow> alloc_pc) \<Rightarrow> nat set" where
  "competing n pcs = {i. i < n \<and> \<not> reserved (pcs i)}"

definition alloc_work :: "nat \<Rightarrow> usize \<Rightarrow> (nat \<Rightarrow> alloc_pc) \<Rightarrow> nat" where
  "alloc_work n cur pcs = card (competing n pcs) ^ 2 + (\<Sum>i<n. accesses_left cur (pcs i))"

definition sys_current :: "'z alloc_sys \<Rightarrow> usize" where
  "sys_current x = mem (sys_heap x) (header (sys_region x) + 8)"

lemma finite_competing [simp]: "finite (competing n pcs)"
  by (simp add: competing_def)

lemma sum_update:
  fixes f :: "'a \<Rightarrow> nat"
  assumes "i < (n :: nat)"
  shows "(\<Sum>j<n. f ((g(i := a)) j)) + f (g i) = (\<Sum>j<n. f (g j)) + f a"
proof -
  have "(\<Sum>j\<in>{..<n} - {i}. f ((g(i := a)) j)) = (\<Sum>j\<in>{..<n} - {i}. f (g j))" by (rule sum.cong) auto
  with assms show ?thesis by (simp add: sum.remove [of "{..<n}" i])
qed

lemma competing_update: "i < n \<Longrightarrow> reserved (pcs i) = reserved pc' \<Longrightarrow> competing n (pcs(i := pc')) = competing n pcs"
  by (auto simp: competing_def)

lemma alloc_work_local:
  assumes "i < n" "reserved (pcs i) = reserved pc'" "accesses_left cur pc' < accesses_left cur (pcs i)"
  shows "alloc_work n cur (pcs(i := pc')) < alloc_work n cur pcs"
  using sum_update [of i n "accesses_left cur" pcs pc'] assms by (simp add: alloc_work_def competing_update)

lemma alloc_work_swap:
  assumes "i < n" "pcs i = Loaded cur"
  shows "alloc_work n cur' (pcs(i := Reserved cur)) < alloc_work n cur pcs"
proof -
  let ?C = "competing n pcs" and ?D = "competing n (pcs(i := Reserved cur))"
  have D: "?C = insert i ?D" "i \<notin> ?D" using assms by (auto simp: competing_def)
  then have K: "card ?C = Suc (card ?D)" by simp
  have "(\<Sum>j<n. accesses_left cur' ((pcs(i := Reserved cur)) j)) \<le>
      (\<Sum>j<n. accesses_left cur ((pcs(i := Reserved cur)) j) + (if j \<in> ?D then 2 else 0))"
  proof (rule sum_mono)
    fix j assume "j \<in> {..<n}"
    then show "accesses_left cur' ((pcs(i := Reserved cur)) j) \<le>
        accesses_left cur ((pcs(i := Reserved cur)) j) + (if j \<in> ?D then 2 else 0)"
      by (cases "pcs j") (auto simp: competing_def)
  qed
  also have "\<dots> = (\<Sum>j<n. accesses_left cur ((pcs(i := Reserved cur)) j)) + 2 * card ?D"
  proof -
    have "{..<n} \<inter> {j. j \<in> ?D} = ?D" by (auto simp: competing_def)
    then show ?thesis by (simp add: sum.distrib sum.If_cases)
  qed
  finally show ?thesis using sum_update [of i n "accesses_left cur" pcs "Reserved cur"] assms K
    by (simp add: alloc_work_def power2_eq_square)
qed

lemma alloc_sys_step_work:
  assumes "alloc_sys_step sizes n x y"
  shows "alloc_work n (sys_current y) (sys_pc y) < alloc_work n (sys_current x) (sys_pc x) \<and>
    header (sys_region y) = header (sys_region x) \<and> mapped (sys_heap y) = mapped (sys_heap x)"
  using assms
proof cases
  case (call_moves i pc' r' h')
  show ?thesis
  proof (cases "sys_pc x i")
    case Enter
    with call_moves show ?thesis by (auto simp: sys_current_def intro!: alloc_work_local)
  next
    case Loop
    with call_moves show ?thesis
      by (auto simp: abind_def load_word_def sys_current_def intro!: alloc_work_local split: if_splits)
  next
    case (Loaded off)
    with call_moves have m: "mapped (sys_heap x) (header (sys_region x) + 8)"
      by (auto simp: abind_def compare_and_swap_def load_word_def split: if_splits)
    with call_moves Loaded show ?thesis
      by (auto simp: abind_def compare_and_swap_mapped sys_current_def intro!: alloc_work_local alloc_work_swap split: if_splits)
  next
    case (Reserved off)
    with call_moves show ?thesis
      by (auto simp: sys_current_def alloc_finish_def intro!: alloc_work_local split: if_splits)
  qed (use call_moves in simp)
qed

lemma alloc_sys_steps_work:
  assumes "alloc_sys_steps sizes n x m y"
  shows "m + alloc_work n (sys_current y) (sys_pc y) \<le> alloc_work n (sys_current x) (sys_pc x) \<and>
    header (sys_region y) = header (sys_region x) \<and> mapped (sys_heap y) = mapped (sys_heap x)"
  using assms
proof (induction rule: alloc_sys_steps.induct)
  case (more_accesses m y z)
  with alloc_sys_step_work [OF more_accesses.hyps(2)] show ?case by simp
qed simp

lemma alloc_sys_progress:
  assumes "mapped (sys_heap x) (header (sys_region x) + 8)" "i < n" "\<nexists>p. sys_pc x i = Returned p"
  shows "\<exists>y. alloc_sys_step sizes n x y"
proof -
  have "\<exists>pc' r' h'. alloc_step (sizes i) ALIGN (sys_pc x i) (sys_region x) (sys_heap x) = (Ret (pc', r'), h')"
    using assms by (cases "sys_pc x i") (auto simp: abind_def load_word_mapped compare_and_swap_mapped split: prod.splits)
  then show ?thesis using call_moves [OF assms(2)] by blast
qed

lemma all_accesses_possible:
  assumes "mapped (sys_heap x) (header (sys_region x) + 8)"
  shows "\<exists>y m. alloc_sys_steps sizes n x m y \<and> (\<forall>i<n. \<exists>p. sys_pc y i = Returned p)"
proof -
  have "\<exists>y m. alloc_sys_steps sizes n x m y \<and> (\<forall>i<n. \<exists>p. sys_pc y i = Returned p)"
    if "alloc_sys_steps sizes n x k z" for k z
    using that
  proof (induction "alloc_work n (sys_current z) (sys_pc z)" arbitrary: k z rule: less_induct)
    case less
    show ?case
    proof (cases "\<forall>i<n. \<exists>p. sys_pc z i = Returned p")
      case True
      with less.prems show ?thesis by blast
    next
      case False
      moreover have "mapped (sys_heap z) (header (sys_region z) + 8)"
        using assms alloc_sys_steps_work [OF less.prems] by simp
      ultimately obtain z' where z': "alloc_sys_step sizes n z z'" using alloc_sys_progress by blast
      from less.hyps [OF _ more_accesses [OF less.prems z']] alloc_sys_step_work [OF z'] show ?thesis by blast
    qed
  qed
  from this [OF no_accesses] show ?thesis .
qed

section \<open>The blocks of an order\<close>

lemma ranks: "\<exists>rank. \<forall>i\<in>set xs. rank i < length xs \<and> xs ! rank i = i"
  by (intro bchoice) (auto simp: in_set_conv_nth)

definition served :: "(nat \<Rightarrow> usize) \<Rightarrow> nat \<Rightarrow> nat list \<Rightarrow> nat \<Rightarrow> nat" where
  "served sizes c0 order k = bump c0 (map (\<lambda>i. unat (sizes i)) (take k order))"

lemma unat_foldl_round_up:
  "unat c + sum_list (map (\<lambda>i. unat (sizes i) + 7) is) < 2 ^ 64 \<Longrightarrow>
   unat (foldl (\<lambda>c i. round_up (c + sizes i)) c is) = bump (unat c) (map (\<lambda>i. unat (sizes i)) is)"
proof (induction "is" rule: rev_induct)
  case (snoc i js)
  with bump_le [of "unat c" "map (\<lambda>i. unat (sizes i)) js"] show ?case by (simp add: unat_round_up_add comp_def)
qed simp

lemma unat_offset_at:
  assumes "distinct order" "set order \<subseteq> {..<n}" "unat c0 + (\<Sum>i<n. unat (sizes i) + 7) < 2 ^ 64"
  shows "unat (offset_at sizes c0 order k) = served sizes (unat c0) order k"
proof -
  have "sum_list (map (\<lambda>i. unat (sizes i) + 7) (take k order)) = (\<Sum>i\<in>set (take k order). unat (sizes i) + 7)"
    using assms(1) by (simp add: sum_list_distinct_conv_sum_set)
  also have "\<dots> \<le> (\<Sum>i<n. unat (sizes i) + 7)"
    using assms(2) set_take_subset [of k order] by (intro sum_mono2) auto
  finally show ?thesis using assms(3) unat_foldl_round_up [of c0 sizes "take k order"]
    by (simp add: offset_at_def served_def)
qed

lemma served_block: "k < length order \<Longrightarrow> served sizes c0 order k + unat (sizes (order ! k)) \<le> served sizes c0 order (Suc k)"
  using bump_step [of k "map (\<lambda>i. unat (sizes i)) order" c0] by (simp add: served_def take_map)

lemma served_mono: "j \<le> k \<Longrightarrow> served sizes c0 order j \<le> served sizes c0 order k"
  using bump_take_mono [of j k c0 "map (\<lambda>i. unat (sizes i)) order"] by (simp add: served_def take_map)

lemma served_disjoint:
  assumes "j < length order" "k < length order" "j \<noteq> k"
  shows "served sizes c0 order j + unat (sizes (order ! j)) \<le> served sizes c0 order k \<or>
    served sizes c0 order k + unat (sizes (order ! k)) \<le> served sizes c0 order j"
proof -
  from assms(3) consider "Suc j \<le> k" | "Suc k \<le> j" by linarith
  then show ?thesis using served_block [of _ order sizes c0] assms(1,2) by cases (meson le_trans served_mono)+
qed

lemma alloc_sys_run:
  assumes "alloc_sys_steps sizes n x m y" "\<forall>i<n. sys_pc x i = Enter" "mapped (sys_heap x) (header (sys_region x) + 8)"
  obtains order where "alloc_inv sizes n (sys_region x) (sys_heap x) order y"
    "sys_current y = offset_at sizes (sys_current x) order (length order)"
    "\<forall>k<length order. holds (sys_region x) (sys_pc y (order ! k)) (offset_at sizes (sys_current x) order k)"
  using alloc_sys_steps_inv [OF assms(1) alloc_inv_start [OF assms(2,3)]] alloc_sys_steps_work [OF assms(1)]
  by (auto simp: alloc_inv_def Let_def sys_current_def)

section \<open>What allocation guarantees\<close>

text \<open>C7. Concurrent calls of \<^verbatim>\<open>allocate\<close>, interleaved access by access in any way, never share a byte: every
  call that has made its reservation holds an aligned block behind the old end of the data, inside
  the bytes reserved so far and disjoint from the blocks of all other calls.\<close>

theorem concurrent_allocations_disjoint:
  assumes "alloc_sys_steps sizes n x m y" "\<forall>i<n. sys_pc x i = Enter"
    and "mapped (sys_heap x) (header (sys_region x) + 8)" "8 dvd unat (sys_current x)"
    and "unat (sys_current x) + (\<Sum>i<n. unat (sizes i) + 7) < 2 ^ 64"
  shows "\<exists>off. (\<forall>i<n. reserved (sys_pc y i) \<longrightarrow>
        holds (sys_region x) (sys_pc y i) (of_nat (off i)) \<and> 8 dvd off i \<and>
        unat (sys_current x) \<le> off i \<and> off i + unat (sizes i) \<le> unat (sys_current y)) \<and>
      (\<forall>i<n. \<forall>j<n. reserved (sys_pc y i) \<and> reserved (sys_pc y j) \<and> i \<noteq> j \<longrightarrow>
        off i + unat (sizes i) \<le> off j \<or> off j + unat (sizes j) \<le> off i)"
proof -
  obtain order where inv: "alloc_inv sizes n (sys_region x) (sys_heap x) order y"
    and last: "sys_current y = offset_at sizes (sys_current x) order (length order)"
    and at: "\<forall>k<length order. holds (sys_region x) (sys_pc y (order ! k)) (offset_at sizes (sys_current x) order k)"
    by (rule alloc_sys_run [OF assms(1-3)])
  from inv have order: "distinct order" "set order \<subseteq> {..<n}" by (auto simp: alloc_inv_def Let_def)
  have off: "offset_at sizes (sys_current x) order k = of_nat (served sizes (unat (sys_current x)) order k)" for k
    using arg_cong [OF unat_offset_at [OF order assms(5), of k], of "of_nat :: nat \<Rightarrow> usize"] by simp
  have cur: "unat (sys_current y) = served sizes (unat (sys_current x)) order (length order)"
    using unat_offset_at [OF order assms(5)] last by simp
  from ranks [of order] inv obtain rank
    where rank: "\<And>i. i < n \<Longrightarrow> reserved (sys_pc y i) \<Longrightarrow> rank i < length order \<and> order ! rank i = i"
    by (auto simp: alloc_inv_def Let_def)
  let ?off = "\<lambda>i. served sizes (unat (sys_current x)) order (rank i)"
  show ?thesis
  proof (intro exI [of _ ?off] conjI allI impI)
    fix i assume i: "i < n" "reserved (sys_pc y i)"
    show "holds (sys_region x) (sys_pc y i) (of_nat (?off i))"
      using at rank [OF i] off [of "rank i"] by metis
    show "8 dvd ?off i" using assms(4) by (simp add: served_def bump_aligned)
    show "unat (sys_current x) \<le> ?off i"
      using served_mono [of 0 "rank i" sizes "unat (sys_current x)" order] by (simp add: served_def)
    show "?off i + unat (sizes i) \<le> unat (sys_current y)"
      using served_block [of "rank i" order sizes "unat (sys_current x)"] rank [OF i] cur
        served_mono [of "Suc (rank i)" "length order" sizes "unat (sys_current x)" order] by simp
  next
    fix i j assume *: "i < n" "j < n" "reserved (sys_pc y i) \<and> reserved (sys_pc y j) \<and> i \<noteq> j"
    with rank [of i] rank [of j] have "rank i \<noteq> rank j" by metis
    with * rank [of i] rank [of j] served_disjoint [of "rank i" order "rank j" sizes "unat (sys_current x)"]
    show "?off i + unat (sizes i) \<le> ?off j \<or> ?off j + unat (sizes j) \<le> ?off i" by auto
  qed
qed

definition sample_region :: MappedRegion where
  "sample_region = \<lparr>addr = 0x1000, total_size = 1024, fd = 3, header = 0x1000, count = 0\<rparr>"

definition sample_heap :: heap where
  "sample_heap = \<lparr>mem = (\<lambda>a. if a = 0x1008 then 24 else 0), mapped = (\<lambda>_. True)\<rparr>"

definition sample_sys :: "unit alloc_sys" where
  "sample_sys = \<lparr>sys_region = sample_region, sys_heap = sample_heap, sys_pc = (\<lambda>_. Enter)\<rparr>"

lemma sample_sys_current [simp]: "sys_current sample_sys = 24" "mapped (sys_heap sample_sys) a" "sys_pc sample_sys i = Enter"
  "sys_region sample_sys = sample_region"
  by (simp_all add: sys_current_def sample_sys_def sample_heap_def sample_region_def)

theorem concurrent_allocations_disjoint_witness:
  "\<exists>y m off. alloc_sys_steps (\<lambda>_. 48) 2 sample_sys m y \<and> reserved (sys_pc y 0) \<and> reserved (sys_pc y 1) \<and>
     holds sample_region (sys_pc y 0) (of_nat (off (0 :: nat))) \<and> holds sample_region (sys_pc y 1) (of_nat (off 1)) \<and>
     (off 0 + 48 \<le> off 1 \<or> off 1 + 48 \<le> off 0)"
proof -
  obtain y m where y: "alloc_sys_steps (\<lambda>_. 48) 2 sample_sys m y" "\<forall>i<2. \<exists>p. sys_pc y i = Returned p"
    using all_accesses_possible [of sample_sys "\<lambda>_. 48" 2] by auto
  from y(2) [rule_format, of 0] y(2) [rule_format, of 1]
  have "reserved (sys_pc y 0)" "reserved (sys_pc y 1)" by auto
  moreover have room: "\<forall>i<2. sys_pc sample_sys i = Enter" "mapped (sys_heap sample_sys) (header (sys_region sample_sys) + 8)"
    "8 dvd unat (sys_current sample_sys)" "unat (sys_current sample_sys) + (\<Sum>i<(2 :: nat). unat (48 :: usize) + 7) < 2 ^ 64" by simp_all
  from concurrent_allocations_disjoint [OF y(1) room] obtain off where
    "\<forall>i<2. reserved (sys_pc y i) \<longrightarrow> holds sample_region (sys_pc y i) (of_nat (off i))"
    "\<forall>i<2. \<forall>j<2. reserved (sys_pc y i) \<and> reserved (sys_pc y j) \<and> i \<noteq> j \<longrightarrow> off i + 48 \<le> off j \<or> off j + 48 \<le> off i"
    by auto
  ultimately show ?thesis using y(1) by (intro exI [of _ y] exI [of _ m] exI [of _ off]) auto
qed

section \<open>Calls one after the other\<close>

primrec allocate_all :: "usize list \<Rightarrow> MappedRegion \<Rightarrow> ('z heap_scheme, u64 list \<times> MappedRegion) pact" where
  "allocate_all [] self = once (ret ([], self))"
| "allocate_all (s # ss) self =
     pbind (allocate self s ALIGN) (\<lambda>(p, self').
     pbind (allocate_all ss self') (\<lambda>(ps, self''). once (ret (p # ps, self''))))"

lemma allocate_mapped:
  assumes "mapped w (header self + 8)"
  shows "allocate self sz ALIGN w = Some (Ret (alloc_finish self (mem w (header self + 8))),
     w\<lparr>mem := (mem w)(header self + 8 := round_up (mem w (header self + 8) + sz))\<rparr>)"
  using assms
  by (simp add: allocate_def pbind_def loop_act_leave alloc_try_def abind_def load_word_mapped compare_and_swap_mapped)

primrec offsets :: "usize \<Rightarrow> usize list \<Rightarrow> usize list" where
  "offsets c [] = []"
| "offsets c (s # ss) = c # offsets (round_up (c + s)) ss"

lemma length_offsets [simp]: "length (offsets c ss) = length ss"
  by (induction ss arbitrary: c) simp_all

lemma offsets_nth: "k < length ss \<Longrightarrow> offsets c ss ! k = foldl (\<lambda>c s. round_up (c + s)) c (take k ss)"
proof (induction ss arbitrary: c k)
  case (Cons s ss)
  then show ?case by (cases k) simp_all
qed simp

lemma allocate_all_mapped:
  "mapped w (header self + 8) \<Longrightarrow> mem w (header self + 8) = c \<Longrightarrow>
   allocate_all ss self w = Some (Ret (map (\<lambda>off. fst (alloc_finish self off)) (offsets c ss),
     self\<lparr>count := count self + of_nat (length (filter (\<lambda>off. off \<le> total_size self) (offsets c ss)))\<rparr>),
     w\<lparr>mem := (mem w)(header self + 8 := foldl (\<lambda>c s. round_up (c + s)) c ss)\<rparr>)"
proof (induction ss arbitrary: self w c)
  case (Cons s ss)
  let ?w = "w\<lparr>mem := (mem w)(header self + 8 := round_up (c + s))\<rparr>"
  have IH: "allocate_all ss (self\<lparr>count := k\<rparr>) ?w = Some (Ret (map (\<lambda>off. fst (alloc_finish self off)) (offsets (round_up (c + s)) ss),
     self\<lparr>count := k + of_nat (length (filter (\<lambda>off. off \<le> total_size self) (offsets (round_up (c + s)) ss)))\<rparr>),
     w\<lparr>mem := (mem w)(header self + 8 := foldl (\<lambda>c s. round_up (c + s)) (round_up (c + s)) ss)\<rparr>)" for k
    using Cons.IH [of ?w "self\<lparr>count := k\<rparr>" "round_up (c + s)"] Cons.prems by (simp add: fun_upd_def cong: if_cong)
  show ?case
  proof (cases "c \<le> total_size self")
    case True
    then show ?thesis using Cons.prems IH [of "count self + 1"] by (simp add: allocate_mapped pbind_def alloc_finish_within fun_upd_def)
  next
    case False
    then show ?thesis using Cons.prems IH [of "count self"] by (simp add: allocate_mapped pbind_def alloc_finish_past fun_upd_def)
  qed
qed auto

lemma map_offsets: "offsets c (map sizes order) = map (offset_at sizes c order) [0..<length order]"
  by (rule nth_equalityI) (simp_all add: offsets_nth offset_at_def take_map foldl_map)

lemma card_granted:
  assumes "\<forall>i\<in>set order. \<exists>p. pcs i = Returned p"
  shows "card (granted sizes c r order pcs) = length (filter (\<lambda>off. off \<le> total_size r) (offsets c (map sizes order)))"
proof -
  have "granted sizes c r order pcs = set (filter (\<lambda>k. offset_at sizes c order k \<le> total_size r) [0..<length order])"
    using assms by (auto simp: granted_def)
  moreover have "length (filter (\<lambda>off. off \<le> total_size r) (offsets c (map sizes order))) =
      length (filter (\<lambda>k. offset_at sizes c order k \<le> total_size r) [0..<length order])"
    by (simp add: map_offsets filter_map comp_def)
  ultimately show ?thesis by (simp only: distinct_card distinct_filter distinct_upt)
qed

text \<open>C8. \<^verbatim>\<open>allocate\<close> is linearizable: once \<open>n\<close> concurrent calls have all returned, there is an order of the
  calls in which making them one after the other, with the loop of the source, gives every call the
  pointer it got and leaves the same header in memory and the same count of allocations.\<close>

theorem concurrent_allocations_linearizable:
  assumes "alloc_sys_steps sizes n x m y" "\<forall>i<n. sys_pc x i = Enter"
    and "mapped (sys_heap x) (header (sys_region x) + 8)" "\<forall>i<n. \<exists>p. sys_pc y i = Returned p"
  shows "\<exists>order ptrs. distinct order \<and> set order = {..<n} \<and> map (sys_pc y) order = map Returned ptrs \<and>
    allocate_all (map sizes order) (sys_region x) (sys_heap x) = Some (Ret (ptrs, sys_region y), sys_heap y)"
proof -
  obtain order where inv: "alloc_inv sizes n (sys_region x) (sys_heap x) order y"
    and at: "\<forall>k<length order. holds (sys_region x) (sys_pc y (order ! k)) (offset_at sizes (sys_current x) order k)"
    by (rule alloc_sys_run [OF assms(1-3)])
  have order: "set order = {..<n}" using inv assms(4) by (fastforce simp: alloc_inv_def Let_def)
  let ?ptrs = "map (\<lambda>off. fst (alloc_finish (sys_region x) off)) (offsets (sys_current x) (map sizes order))"
  have "map (sys_pc y) order = map Returned ?ptrs"
  proof (rule nth_equalityI)
    fix k assume "k < length (map (sys_pc y) order)"
    with at assms(4) order nth_mem [of k order] show "map (sys_pc y) order ! k = map Returned ?ptrs ! k"
      by (fastforce simp: holds_def map_offsets)
  qed simp
  moreover have "allocate_all (map sizes order) (sys_region x) (sys_heap x) = Some (Ret (?ptrs, sys_region y), sys_heap y)"
    using inv card_granted [of order "sys_pc y" sizes "sys_current x" "sys_region x"] assms(4) order
      allocate_all_mapped [OF assms(3) refl, of "map sizes order"]
    by (simp add: alloc_inv_def Let_def sys_current_def offset_at_def foldl_map)
  ultimately show ?thesis using inv order by (auto simp: alloc_inv_def Let_def)
qed

theorem concurrent_allocations_linearizable_witness:
  "\<exists>y m order ptrs. alloc_sys_steps (\<lambda>i. of_nat (8 * i + 1)) 3 sample_sys m y \<and> set order = {..<3} \<and>
    map (sys_pc y) order = map Returned ptrs \<and>
    allocate_all (map (\<lambda>i. of_nat (8 * i + 1)) order) sample_region (sys_heap sample_sys) = Some (Ret (ptrs, sys_region y), sys_heap y)"
proof -
  let ?sizes = "\<lambda>i. of_nat (8 * i + 1) :: usize"
  obtain y m where y: "alloc_sys_steps ?sizes 3 sample_sys m y" "\<forall>i<3. \<exists>p. sys_pc y i = Returned p"
    using all_accesses_possible [of sample_sys ?sizes 3] by auto
  from concurrent_allocations_linearizable [OF y(1) _ _ y(2)] y(1) show ?thesis by auto
qed

text \<open>C9. \<^verbatim>\<open>allocate\<close> is lock-free: as long as one of \<open>n\<close> concurrent calls has not returned, one of them can
  make its next access, and whatever the schedule all have returned after at most \<open>n\<^sup>2 + 4 n\<close> accesses.\<close>

theorem concurrent_allocations_lock_free:
  assumes "alloc_sys_steps sizes n x m y" "\<forall>i<n. sys_pc x i = Enter"
    and "mapped (sys_heap x) (header (sys_region x) + 8)"
  shows "m \<le> n\<^sup>2 + 4 * n \<and> ((\<exists>z. alloc_sys_step sizes n y z) \<or> (\<forall>i<n. \<exists>p. sys_pc y i = Returned p))"
proof -
  have "competing n (sys_pc x) = {..<n}" "(\<Sum>i<n. accesses_left (sys_current x) (sys_pc x i)) = 4 * n"
    using assms(2) by (auto simp: competing_def)
  with alloc_sys_steps_work [OF assms(1)] have "m \<le> n\<^sup>2 + 4 * n" by (simp add: alloc_work_def)
  with alloc_sys_progress [of y _ n sizes] alloc_sys_steps_work [OF assms(1)] assms(3) show ?thesis by auto
qed

theorem concurrent_allocations_lock_free_witness:
  "\<exists>y m. alloc_sys_steps (\<lambda>_. 48) 5 sample_sys m y \<and> (\<forall>i<5. \<exists>p. sys_pc y i = Returned p) \<and> m \<le> 45"
proof -
  obtain y m where y: "alloc_sys_steps (\<lambda>_. 48) 5 sample_sys m y" "\<forall>i<5. \<exists>p. sys_pc y i = Returned p"
    using all_accesses_possible [of sample_sys "\<lambda>_. 48" 5] by auto
  with concurrent_allocations_lock_free [OF y(1)] show ?thesis by auto
qed

section \<open>One call\<close>

lemma bump1_least: "bump1 c s = (LEAST m. 8 dvd m \<and> c + s \<le> m)"
proof (rule Least_equality [symmetric])
  fix m :: nat assume "8 dvd m \<and> c + s \<le> m"
  then obtain k where "m = 8 * k" "c + s \<le> 8 * k" by (auto elim: dvdE)
  then show "bump1 c s \<le> m" by (simp add: bump1_def)
qed (use bump1_bounds in \<open>auto simp: bump1_def\<close>)

text \<open>C25. One call of \<^verbatim>\<open>allocate\<close> returns: it panics on a foreign alignment, and otherwise hands out the address
  at the current offset, counted, or null past the end of the file, and moves the offset to the
  smallest multiple of 8 behind the block; the rest of the memory stays as it is.\<close>

theorem allocate_one:
  assumes "mapped w (header self + 8)" "mem w (header self + 8) = c" "unat c + unat sz + 7 < 2 ^ 64"
  shows "if align \<noteq> 8 then allocate self sz align w = Some (Panic (align_message align), w)
    else \<exists>c'. allocate self sz align w =
        Some (Ret (if c \<le> total_size self then (addr self + c, self\<lparr>count := count self + 1\<rparr>) else (0, self)),
          w\<lparr>mem := (mem w)(header self + 8 := c')\<rparr>) \<and>
      unat c' = (LEAST m. 8 dvd m \<and> unat c + unat sz \<le> m)"
proof (cases "align = 8")
  case True
  then have "align = ALIGN" by (simp add: ALIGN_def)
  then show ?thesis using assms allocate_mapped [OF assms(1), of sz] unat_round_up_add [OF assms(3)]
    by (simp add: alloc_finish_within alloc_finish_past bump1_least ALIGN_def del: fun_upd_apply)
      (rule exI [of _ "round_up (c + sz)"], simp)
next
  case False
  then show ?thesis by (simp add: allocate_def ALIGN_def)
qed

theorem allocate_one_witness:
  "\<exists>c'. allocate sample_region 43 8 sample_heap = Some (Ret (0x1018, sample_region\<lparr>count := 1\<rparr>),
      sample_heap\<lparr>mem := (mem sample_heap)(0x1008 := c')\<rparr>) \<and> unat c' = (LEAST m. 8 dvd m \<and> 67 \<le> m)"
  using allocate_one [of sample_heap sample_region 24 43 8] by (simp add: sample_heap_def sample_region_def)

text \<open>C26. Once the offset is past the end, every later call returns null and none is counted, whatever the
  sizes, until the offset has gone round the whole address space.\<close>

theorem allocate_exhausted:
  assumes "mapped w (header self + 8)" "total_size self < mem w (header self + 8)"
    and "unat (mem w (header self + 8)) + sum_list (map (\<lambda>s. unat s + 7) ss) < 2 ^ 64"
  shows "\<exists>w'. allocate_all ss self w = Some (Ret (replicate (length ss) 0, self), w')"
proof -
  let ?c = "mem w (header self + 8)"
  have "total_size self < off" if "off \<in> set (offsets ?c ss)" for off
  proof -
    from that obtain k where k: "k < length ss" "off = foldl (\<lambda>c s. round_up (c + s)) ?c (take k ss)"
      by (auto simp: in_set_conv_nth offsets_nth)
    have "sum_list (map (\<lambda>s. unat s + 7) (take k ss)) \<le> sum_list (map (\<lambda>s. unat s + 7) ss)"
      by (metis append_take_drop_id le_add1 map_append sum_list_append)
    then have "unat off = bump (unat ?c) (map unat (take k ss))"
      using unat_foldl_round_up [of ?c "\<lambda>s. s" "take k ss"] assms(3) k(2) by simp
    then show ?thesis using bump_mono [of "unat ?c" "[]" "map unat (take k ss)"] assms(2) by (simp add: word_less_nat_alt)
  qed
  then have none: "filter (\<lambda>off. off \<le> total_size self) (offsets ?c ss) = []"
    and null: "map (\<lambda>off. fst (alloc_finish self off)) (offsets ?c ss) = replicate (length ss) 0"
    by (auto simp: filter_empty_conv not_le alloc_finish_past intro!: nth_equalityI)
  show ?thesis using allocate_all_mapped [OF assms(1) refl, of ss] by (simp add: none null)
qed

theorem allocate_exhausted_witness:
  "\<exists>w'. allocate_all [48, 8] sample_region (sample_heap\<lparr>mem := (\<lambda>_. 1032)\<rparr>) = Some (Ret ([0, 0], sample_region), w')"
  using allocate_exhausted [of "sample_heap\<lparr>mem := (\<lambda>_. 1032)\<rparr>" sample_region "[48, 8]"]
  by (simp add: sample_heap_def sample_region_def)

section \<open>Opening and closing\<close>

text \<open>A process whose calls all succeed; \<open>adv\<close> is what \<^verbatim>\<open>madvise\<close> answers, \<open>size0\<close> the size of the file.\<close>

definition sample_nix :: "errno + unit \<Rightarrow> u64 \<Rightarrow> heap nix" where
  "sample_nix adv size0 =
     \<lparr>nix_open = (\<lambda>_. ret (Inr 3)), nix_ftruncate = (\<lambda>_ _. ret (Inr ())), nix_fstat = (\<lambda>_. ret (Inr size0)),
      nix_mmap = (\<lambda>_ _ w. (Ret (Inr 0x1000), w\<lparr>mapped := (\<lambda>_. True)\<rparr>)), nix_madvise = (\<lambda>_ _. ret adv),
      nix_msync = (\<lambda>_ _. ret (Inr ())), nix_munmap = (\<lambda>_ _ w. (Ret (Inr ()), w\<lparr>mapped := (\<lambda>_. False)\<rparr>)),
      nix_close = (\<lambda>_. ret (Inr ()))\<rparr>"

lemmas open_simps = abind_def unwrap_def load_word_def store_word_def write_header_def

text \<open>\<^verbatim>\<open>MappedRegion::new\<close>, when the system calls succeed, leaves a header with the magic number, the size
  and the first offset behind the header, and a region on which the first \<^verbatim>\<open>allocate\<close> returns the
  byte right behind the header.\<close>

theorem MappedRegion_new_first_allocation:
  assumes "nix_open N path w = (Ret (Inr f), w1)" "nix_ftruncate N f tsize w1 = (Ret (Inr ()), w2)"
    and "nix_mmap N tsize f w2 = (Ret (Inr ptr), w3)" "nix_madvise N ptr tsize w3 = (Ret (Inr ()), w4)"
    and "mapped w4 ptr" "mapped w4 (ptr + 8)" "mapped w4 (ptr + 16)" "24 \<le> tsize"
  shows "\<exists>r w5. MappedRegion_new N path tsize w = (Ret (Inr r), w5) \<and>
    header_at ptr w5 = \<lparr>magic = MAGIC, current = 24, header_total_size = tsize\<rparr> \<and> num_allocated r = 0 \<and>
    (\<exists>r' w6. allocate r sz 8 w5 = Some (Ret (ptr + 24, r'), w6) \<and> num_allocated r' = 1)"
proof -
  let ?w5 = "w4\<lparr>mem := (mem w4)(ptr := MAGIC, ptr + 8 := 24, ptr + 16 := tsize)\<rparr>"
  let ?r = "\<lparr>addr = ptr, total_size = tsize, fd = f, header = ptr, count = 0\<rparr>"
  have "MappedRegion_new N path tsize w = (Ret (Inr ?r), ?w5)"
    using assms by (simp add: MappedRegion_new_def open_simps)
  moreover have "header_at ptr ?w5 = \<lparr>magic = MAGIC, current = 24, header_total_size = tsize\<rparr>"
    by (simp add: header_at_def)
  moreover have "allocate ?r sz ALIGN ?w5 = Some (Ret (ptr + 24, ?r\<lparr>count := 1\<rparr>),
      ?w5\<lparr>mem := (mem ?w5)(ptr + 8 := round_up (24 + sz))\<rparr>)"
    using allocate_mapped [of ?w5 ?r sz] assms by (simp add: alloc_finish_within)
  ultimately show ?thesis by (auto simp: num_allocated_def ALIGN_def)
qed

theorem MappedRegion_new_first_allocation_witness:
  "\<exists>r w5. MappedRegion_new (sample_nix (Inr ()) 0) ''a.db'' 1024 sample_heap = (Ret (Inr r), w5) \<and>
    (\<exists>r' w6. allocate r 48 8 w5 = Some (Ret (0x1018, r'), w6) \<and> num_allocated r' = 1)"
  using MappedRegion_new_first_allocation [of "sample_nix (Inr ()) 0" "''a.db''" sample_heap 3 sample_heap 1024 sample_heap "0x1000"
      "sample_heap\<lparr>mapped := (\<lambda>_. True)\<rparr>" "sample_heap\<lparr>mapped := (\<lambda>_. True)\<rparr>" 48]
  by (auto simp: sample_nix_def)

text \<open>C33. When \<^verbatim>\<open>madvise\<close> fails, \<^verbatim>\<open>MappedRegion::new\<close> takes the mapping away, closes the file and then goes on: it
  writes the header through the pointer it has just unmapped and brings the process down.\<close>

theorem MappedRegion_new_after_failed_madvise:
  assumes "nix_open N path w = (Ret (Inr f), w1)" "nix_ftruncate N f tsize w1 = (Ret (Inr ()), w2)"
    and "nix_mmap N tsize f w2 = (Ret (Inr ptr), w3)" "nix_madvise N ptr tsize w3 = (Ret (Inl e), w4)"
    and "nix_munmap N ptr tsize w4 = (Ret (Inr ()), w5)" "nix_close N f w5 = (Ret (Inr ()), w6)" "\<not> mapped w6 ptr"
  shows "MappedRegion_new N path tsize w = (Panic ''segmentation fault'', w6)"
  using assms by (simp add: MappedRegion_new_def open_simps)

theorem MappedRegion_new_after_failed_madvise_witness:
  "MappedRegion_new (sample_nix (Inl 22) 0) ''a.db'' 1024 sample_heap =
     (Panic ''segmentation fault'', sample_heap\<lparr>mapped := (\<lambda>_. False)\<rparr>)"
  using MappedRegion_new_after_failed_madvise [of "sample_nix (Inl 22) 0" "''a.db''" sample_heap 3 sample_heap 1024 sample_heap "0x1000"
      "sample_heap\<lparr>mapped := (\<lambda>_. True)\<rparr>" 22 "sample_heap\<lparr>mapped := (\<lambda>_. True)\<rparr>" "sample_heap\<lparr>mapped := (\<lambda>_. False)\<rparr>"
      "sample_heap\<lparr>mapped := (\<lambda>_. False)\<rparr>"]
  by (simp add: sample_nix_def)

text \<open>C32. \<^verbatim>\<open>MappedRegion::load\<close> accepts a file exactly when its header has the magic number or records the size
  of the file, one of the two is enough; a file that it rejects brings the process down, because the
  error message is made from the header after the mapping is gone.\<close>

theorem MappedRegion_load_check:
  assumes "nix_open N path w = (Ret (Inr f), w1)" "nix_fstat N f w1 = (Ret (Inr st_size), w2)"
    and "nix_mmap N st_size f w2 = (Ret (Inr ptr), w3)"
    and "mapped w3 ptr" "mapped w3 (ptr + 16)" "header_at ptr w3 = \<lparr>magic = m, current = c, header_total_size = t\<rparr>"
    and "nix_munmap N ptr st_size w3 = (Ret (Inr ()), w4)" "nix_close N f w4 = (Ret (Inr ()), w5)" "\<not> mapped w5 (ptr + 16)"
  shows "MappedRegion_load N path w =
    (if m = MAGIC \<or> t = st_size then (Ret (Inr \<lparr>addr = ptr, total_size = t, fd = f, header = ptr, count = 0\<rparr>), w3)
     else (Panic ''segmentation fault'', w5))"
  using assms by (auto simp: MappedRegion_load_def open_simps header_at_def)

theorem MappedRegion_load_check_witness:
  "MappedRegion_load (sample_nix (Inr ()) 4096) ''a.db'' sample_heap =
     (Panic ''segmentation fault'', sample_heap\<lparr>mapped := (\<lambda>_. False)\<rparr>)"
  using MappedRegion_load_check [of "sample_nix (Inr ()) 4096" "''a.db''" sample_heap 3 sample_heap 4096 sample_heap "0x1000"
      "sample_heap\<lparr>mapped := (\<lambda>_. True)\<rparr>" 0 24 0 "sample_heap\<lparr>mapped := (\<lambda>_. False)\<rparr>" "sample_heap\<lparr>mapped := (\<lambda>_. False)\<rparr>"]
  by (simp add: sample_nix_def header_at_def sample_heap_def MAGIC_def)

end
