(* ===== verification/Rx_Mmap_File.thy ===== *)
theory Rx_Mmap_File
  imports Rx_Mmap
begin

text \<open>
  The file behind a region: what is in it survives the region. The operating system is still the
  parameter \<open>nix\<close>; \<open>posix\<close> states what its calls promise about files, descriptors and mappings, which
  are seen through the three functions of \<open>fs_view\<close>. On top of it: a region that is dropped and loaded
  again goes on where it stopped, and the two tests of \<^verbatim>\<open>src/mmap_allocator.rs\<close> pass.
\<close>

section \<open>What is expected of the operating system\<close>

text \<open>
  A file has a size and a word at every offset, an open descriptor and a mapping belong to a file; a
  mapping is named by its start.
\<close>

record 'w fs_view =
  v_file :: "'w \<Rightarrow> string \<rightharpoonup> u64 \<times> (u64 \<Rightarrow> u64)"
  v_fd :: "'w \<Rightarrow> u32 \<rightharpoonup> string"
  v_map :: "'w \<Rightarrow> u64 \<rightharpoonup> string \<times> u64"

definition word_in :: "u64 \<Rightarrow> u64 \<Rightarrow> bool" where
  "word_in n off \<longleftrightarrow> 8 dvd unat off \<and> unat off + 8 \<le> unat n"

definition open_ok :: "'z heap_scheme nix \<Rightarrow> 'z heap_scheme fs_view \<Rightarrow> bool" where
  "open_ok N V \<longleftrightarrow> (\<forall>p w. \<exists>f x w'. nix_open N p w = (Ret (Inr f), w') \<and>
     v_fd V w' = (v_fd V w)(f \<mapsto> p) \<and> v_map V w' = v_map V w \<and>
     v_file V w' = (v_file V w)(p \<mapsto> x) \<and> (\<forall>y. v_file V w p = Some y \<longrightarrow> x = y))"

definition ftruncate_ok :: "'z heap_scheme nix \<Rightarrow> 'z heap_scheme fs_view \<Rightarrow> bool" where
  "ftruncate_ok N V \<longleftrightarrow> (\<forall>f p x n w. v_fd V w f = Some p \<longrightarrow> v_file V w p = Some x \<longrightarrow>
     (\<exists>c w'. nix_ftruncate N f n w = (Ret (Inr ()), w') \<and>
        v_file V w' = (v_file V w)(p \<mapsto> (n, c)) \<and> v_fd V w' = v_fd V w \<and> v_map V w' = v_map V w))"

definition fstat_ok :: "'z heap_scheme nix \<Rightarrow> 'z heap_scheme fs_view \<Rightarrow> bool" where
  "fstat_ok N V \<longleftrightarrow> (\<forall>f p n c w. v_fd V w f = Some p \<longrightarrow> v_file V w p = Some (n, c) \<longrightarrow> nix_fstat N f w = (Ret (Inr n), w))"

definition close_ok :: "'z heap_scheme nix \<Rightarrow> 'z heap_scheme fs_view \<Rightarrow> bool" where
  "close_ok N V \<longleftrightarrow> (\<forall>f w. \<exists>w'. nix_close N f w = (Ret (Inr ()), w') \<and>
     v_fd V w' = (v_fd V w)(f := None) \<and> v_file V w' = v_file V w \<and> v_map V w' = v_map V w)"

text \<open>
  A mapping of a whole file is readable and writable, starts with the words of the file, and lies in the
  address space without touching its first byte, which has room for \<open>2\<^sup>4\<^sup>7\<close> bytes; \<^verbatim>\<open>msync\<close> writes the words back.
\<close>

definition mmap_ok :: "'z heap_scheme nix \<Rightarrow> 'z heap_scheme fs_view \<Rightarrow> bool" where
  "mmap_ok N V \<longleftrightarrow> (\<forall>f p n c w. v_fd V w f = Some p \<longrightarrow> v_file V w p = Some (n, c) \<longrightarrow> 0 < n \<longrightarrow> n < 2 ^ 47 \<longrightarrow>
     (\<exists>ptr w'. nix_mmap N n f w = (Ret (Inr ptr), w') \<and> ptr \<noteq> 0 \<and> unat ptr + unat n < 2 ^ 64 \<and>
        (\<forall>off<n. mapped w' (ptr + off)) \<and> (\<forall>off. word_in n off \<longrightarrow> mem w' (ptr + off) = c off) \<and>
        v_map V w' = (v_map V w)(ptr \<mapsto> (p, n)) \<and> v_file V w' = v_file V w \<and> v_fd V w' = v_fd V w))"

definition madvise_ok :: "'z heap_scheme nix \<Rightarrow> 'z heap_scheme fs_view \<Rightarrow> bool" where
  "madvise_ok N V \<longleftrightarrow> (\<forall>ptr p n w. v_map V w ptr = Some (p, n) \<longrightarrow> nix_madvise N ptr n w = (Ret (Inr ()), w))"

definition msync_ok :: "'z heap_scheme nix \<Rightarrow> 'z heap_scheme fs_view \<Rightarrow> bool" where
  "msync_ok N V \<longleftrightarrow> (\<forall>ptr p n c w. v_map V w ptr = Some (p, n) \<longrightarrow> v_file V w p = Some (n, c) \<longrightarrow>
     (\<exists>c' w'. nix_msync N ptr n w = (Ret (Inr ()), w') \<and> (\<forall>off. word_in n off \<longrightarrow> c' off = mem w (ptr + off)) \<and>
        v_file V w' = (v_file V w)(p \<mapsto> (n, c')) \<and> v_map V w' = v_map V w \<and> v_fd V w' = v_fd V w))"

definition munmap_ok :: "'z heap_scheme nix \<Rightarrow> 'z heap_scheme fs_view \<Rightarrow> bool" where
  "munmap_ok N V \<longleftrightarrow> (\<forall>ptr p n w. v_map V w ptr = Some (p, n) \<longrightarrow>
     (\<exists>w'. nix_munmap N ptr n w = (Ret (Inr ()), w') \<and>
        v_map V w' = (v_map V w)(ptr := None) \<and> v_file V w' = v_file V w \<and> v_fd V w' = v_fd V w))"

text \<open>The program's own stores open, close and map nothing; the calls of \<^verbatim>\<open>drop\<close> come back.\<close>

definition stores_ok :: "'z heap_scheme fs_view \<Rightarrow> bool" where
  "stores_ok V \<longleftrightarrow> (\<forall>w m. v_file V (w\<lparr>mem := m\<rparr>) = v_file V w \<and>
     v_fd V (w\<lparr>mem := m\<rparr>) = v_fd V w \<and> v_map V (w\<lparr>mem := m\<rparr>) = v_map V w)"

definition drop_returns :: "'z heap_scheme nix \<Rightarrow> bool" where
  "drop_returns N \<longleftrightarrow> (\<forall>ptr n w. (\<exists>r w'. nix_msync N ptr n w = (Ret r, w')) \<and> (\<exists>r w'. nix_munmap N ptr n w = (Ret r, w')))"

definition posix :: "'z heap_scheme nix \<Rightarrow> 'z heap_scheme fs_view \<Rightarrow> bool" where
  "posix N V \<longleftrightarrow> open_ok N V \<and> ftruncate_ok N V \<and> fstat_ok N V \<and> close_ok N V \<and> mmap_ok N V \<and> madvise_ok N V \<and>
     msync_ok N V \<and> munmap_ok N V \<and> stores_ok V \<and> drop_returns N"

lemma posix_open:
  assumes "posix N V"
  obtains f x w' where "nix_open N p w = (Ret (Inr f), w')" "v_fd V w' = (v_fd V w)(f \<mapsto> p)" "v_map V w' = v_map V w"
    "v_file V w' = (v_file V w)(p \<mapsto> x)" "\<And>y. v_file V w p = Some y \<Longrightarrow> x = y"
  using assms unfolding posix_def open_ok_def by blast

lemma posix_ftruncate:
  assumes "posix N V" "v_fd V w f = Some p" "v_file V w p = Some x"
  obtains c w' where "nix_ftruncate N f n w = (Ret (Inr ()), w')" "v_file V w' = (v_file V w)(p \<mapsto> (n, c))"
    "v_fd V w' = v_fd V w" "v_map V w' = v_map V w"
  using assms unfolding posix_def ftruncate_ok_def by blast

lemma posix_fstat: "posix N V \<Longrightarrow> v_fd V w f = Some p \<Longrightarrow> v_file V w p = Some (n, c) \<Longrightarrow> nix_fstat N f w = (Ret (Inr n), w)"
  unfolding posix_def fstat_ok_def by blast

lemma posix_close:
  assumes "posix N V"
  obtains w' where "nix_close N f w = (Ret (Inr ()), w')" "v_fd V w' = (v_fd V w)(f := None)"
    "v_file V w' = v_file V w" "v_map V w' = v_map V w"
  using assms unfolding posix_def close_ok_def by blast

lemma posix_mmap:
  assumes "posix N V" "v_fd V w f = Some p" "v_file V w p = Some (n, c)" "0 < n" "n < 2 ^ 47"
  obtains ptr w' where "nix_mmap N n f w = (Ret (Inr ptr), w')" "ptr \<noteq> 0" "unat ptr + unat n < 2 ^ 64"
    "\<forall>off<n. mapped w' (ptr + off)" "\<forall>off. word_in n off \<longrightarrow> mem w' (ptr + off) = c off"
    "v_map V w' = (v_map V w)(ptr \<mapsto> (p, n))" "v_file V w' = v_file V w" "v_fd V w' = v_fd V w"
  using assms unfolding posix_def mmap_ok_def by blast

lemma posix_madvise: "posix N V \<Longrightarrow> v_map V w ptr = Some (p, n) \<Longrightarrow> nix_madvise N ptr n w = (Ret (Inr ()), w)"
  unfolding posix_def madvise_ok_def by blast

lemma posix_msync:
  assumes "posix N V" "v_map V w ptr = Some (p, n)" "v_file V w p = Some (n, c)"
  obtains c' w' where "nix_msync N ptr n w = (Ret (Inr ()), w')" "\<forall>off. word_in n off \<longrightarrow> c' off = mem w (ptr + off)"
    "v_file V w' = (v_file V w)(p \<mapsto> (n, c'))" "v_map V w' = v_map V w" "v_fd V w' = v_fd V w"
  using assms unfolding posix_def msync_ok_def by blast

lemma posix_munmap:
  assumes "posix N V" "v_map V w ptr = Some (p, n)"
  obtains w' where "nix_munmap N ptr n w = (Ret (Inr ()), w')"
    "v_map V w' = (v_map V w)(ptr := None)" "v_file V w' = v_file V w" "v_fd V w' = v_fd V w"
  using assms unfolding posix_def munmap_ok_def by blast

lemma posix_store [simp]:
  "posix N V \<Longrightarrow> v_file V (w\<lparr>mem := m\<rparr>) = v_file V w" "posix N V \<Longrightarrow> v_fd V (w\<lparr>mem := m\<rparr>) = v_fd V w"
  "posix N V \<Longrightarrow> v_map V (w\<lparr>mem := m\<rparr>) = v_map V w"
  by (simp_all add: posix_def stores_ok_def)

section \<open>A region and its file\<close>

definition region_at :: "'z heap_scheme fs_view \<Rightarrow> string \<Rightarrow> MappedRegion \<Rightarrow> 'z heap_scheme \<Rightarrow> bool" where
  "region_at V path r w \<longleftrightarrow>
     v_map V w (addr r) = Some (path, total_size r) \<and> (\<exists>c. v_file V w path = Some (total_size r, c)) \<and>
     header r = addr r \<and> 24 \<le> total_size r \<and> total_size r < 2 ^ 47 \<and> addr r \<noteq> 0 \<and> unat (addr r) + unat (total_size r) < 2 ^ 64 \<and>
     (\<forall>off<total_size r. mapped w (addr r + off)) \<and> mem w (addr r) = MAGIC \<and> mem w (addr r + 16) = total_size r"

abbreviation region_offset :: "MappedRegion \<Rightarrow> 'z heap_scheme \<Rightarrow> usize" where
  "region_offset r w \<equiv> mem w (header r + 8)"

lemma region_mapped: "region_at V path r w \<Longrightarrow> off < total_size r \<Longrightarrow> mapped w (addr r + off)"
  by (simp add: region_at_def)

lemma region_header_mapped:
  assumes "region_at V path r w"
  shows "mapped w (addr r)" "mapped w (addr r + 8)" "mapped w (addr r + 16)"
proof -
  have n: "24 \<le> unat (total_size r)" using assms by (simp add: region_at_def word_le_nat_alt)
  show "mapped w (addr r)" using region_mapped [OF assms, of 0] n by (simp add: word_less_nat_alt)
  show "mapped w (addr r + 8)" "mapped w (addr r + 16)"
    using region_mapped [OF assms, of 8] region_mapped [OF assms, of 16] n by (simp_all add: word_less_nat_alt)
qed

lemma region_address: "region_at V path r w \<Longrightarrow> off \<le> total_size r \<Longrightarrow> addr r + off \<noteq> 0"
proof
  assume r: "region_at V path r w" "off \<le> total_size r" and z: "addr r + off = 0"
  have "unat (addr r) + unat off < 2 ^ 64" using r by (simp add: region_at_def word_le_nat_alt)
  then have "unat (addr r + off) = unat (addr r) + unat off" by (simp add: unat_word_ariths)
  with z r show False by (simp add: region_at_def unat_eq_0)
qed

lemma region_count [simp]: "region_at V path (r\<lparr>count := k\<rparr>) w = region_at V path r w"
  by (simp add: region_at_def)

text \<open>A store behind the header, or to the offset in it, leaves a region a region.\<close>

lemma region_store:
  assumes "posix N V" "region_at V path r w" "off \<noteq> 0" "off \<noteq> 16"
  shows "region_at V path r (w\<lparr>mem := (mem w)(addr r + off := v)\<rparr>)"
  using assms by (simp add: region_at_def)

lemma region_allocate:
  assumes "posix N V" "region_at V path r w" "region_offset r w = c"
  shows "allocate r sz ALIGN w = Some (Ret (alloc_finish r c), w\<lparr>mem := (mem w)(addr r + 8 := round_up (c + sz))\<rparr>)"
    and "region_at V path r (w\<lparr>mem := (mem w)(addr r + 8 := round_up (c + sz))\<rparr>)"
proof -
  have h: "header r = addr r" using assms(2) by (simp add: region_at_def)
  with allocate_mapped [of w r sz] region_header_mapped [OF assms(2)] assms(3)
  show "allocate r sz ALIGN w = Some (Ret (alloc_finish r c), w\<lparr>mem := (mem w)(addr r + 8 := round_up (c + sz))\<rparr>)" by simp
  show "region_at V path r (w\<lparr>mem := (mem w)(addr r + 8 := round_up (c + sz))\<rparr>)"
    by (rule region_store [OF assms(1,2)]) simp_all
qed

lemma region_allocate_all:
  assumes "posix N V" "region_at V path r w"
  shows "allocate_all ss r w = Some (Ret (map (\<lambda>off. fst (alloc_finish r off)) (offsets (region_offset r w) ss),
     r\<lparr>count := count r + of_nat (length (filter (\<lambda>off. off \<le> total_size r) (offsets (region_offset r w) ss)))\<rparr>),
     w\<lparr>mem := (mem w)(header r + 8 := foldl (\<lambda>c s. round_up (c + s)) (region_offset r w) ss)\<rparr>)"
proof (rule allocate_all_mapped [OF _ refl])
  from assms(2) have "header r = addr r" by (simp add: region_at_def)
  with region_header_mapped [OF assms(2)] show "mapped w (header r + 8)" by simp
qed

lemma region_new:
  assumes "posix N V" "24 \<le> n" "n < 2 ^ 47"
  obtains r w1 where "MappedRegion_new N path n w = (Ret (Inr r), w1)" "region_at V path r w1"
    "region_offset r w1 = 24" "total_size r = n" "count r = 0"
proof -
  obtain f x w1 where o: "nix_open N path w = (Ret (Inr f), w1)" "v_fd V w1 = (v_fd V w)(f \<mapsto> path)"
    "v_file V w1 = (v_file V w)(path \<mapsto> x)" by (rule posix_open [OF assms(1)])
  then have "v_fd V w1 f = Some path" "v_file V w1 path = Some x" by simp_all
  then obtain c w2 where t: "nix_ftruncate N f n w1 = (Ret (Inr ()), w2)" "v_file V w2 = (v_file V w1)(path \<mapsto> (n, c))"
    "v_fd V w2 = v_fd V w1" by (rule posix_ftruncate [OF assms(1)])
  have n: "0 < n" using assms(2) by (simp add: word_le_nat_alt word_less_nat_alt)
  from o t have "v_fd V w2 f = Some path" "v_file V w2 path = Some (n, c)" by simp_all
  then obtain ptr w3 where m: "nix_mmap N n f w2 = (Ret (Inr ptr), w3)" "ptr \<noteq> 0" "unat ptr + unat n < 2 ^ 64"
    "\<forall>off<n. mapped w3 (ptr + off)" "v_map V w3 = (v_map V w2)(ptr \<mapsto> (path, n))" "v_file V w3 = v_file V w2"
    by (rule posix_mmap [OF assms(1) _ _ n assms(3)])
  then have a: "nix_madvise N ptr n w3 = (Ret (Inr ()), w3)" using posix_madvise [OF assms(1), of w3 ptr path n] by simp
  have "mapped w3 (ptr + 0)" "mapped w3 (ptr + 8)" "mapped w3 (ptr + 16)"
    using m(4) assms(2) by (auto simp del: add_0_right simp: word_less_nat_alt word_le_nat_alt)
  then have mp: "mapped w3 ptr" "mapped w3 (ptr + 8)" "mapped w3 (ptr + 16)" by simp_all
  let ?w = "w3\<lparr>mem := (mem w3)(ptr := MAGIC, ptr + 8 := 24, ptr + 16 := n)\<rparr>"
  let ?r = "\<lparr>addr = ptr, total_size = n, fd = f, header = ptr, count = 0\<rparr>"
  have "MappedRegion_new N path n w = (Ret (Inr ?r), ?w)"
    using o t m a mp by (simp add: MappedRegion_new_def open_simps)
  moreover have "region_at V path ?r ?w"
    using o t m assms by (simp add: region_at_def)
  ultimately show ?thesis by (rule that) simp_all
qed

text \<open>Dropping a region and loading its file gives a region with the same words in it.\<close>

lemma region_reopen:
  assumes V: "posix N V" and r: "region_at V path r w"
  obtains w1 r' w2 where "MappedRegion_drop N r w = (Ret (), w1)" "MappedRegion_load N path w1 = (Ret (Inr r'), w2)"
    "region_at V path r' w2" "total_size r' = total_size r" "count r' = 0"
    "\<forall>off. word_in (total_size r) off \<longrightarrow> mem w2 (addr r' + off) = mem w (addr r + off)"
proof -
  let ?n = "total_size r"
  from r obtain c where "v_map V w (addr r) = Some (path, ?n)" "v_file V w path = Some (?n, c)" by (auto simp: region_at_def)
  then obtain c' wa where s: "nix_msync N (addr r) ?n w = (Ret (Inr ()), wa)" "\<forall>off. word_in ?n off \<longrightarrow> c' off = mem w (addr r + off)"
    "v_file V wa = (v_file V w)(path \<mapsto> (?n, c'))" "v_map V wa = v_map V w"
    by (rule posix_msync [OF V])
  with r have "v_map V wa (addr r) = Some (path, ?n)" by (simp add: region_at_def)
  then obtain wb where u: "nix_munmap N (addr r) ?n wa = (Ret (Inr ()), wb)" "v_file V wb = v_file V wa" by (rule posix_munmap [OF V])
  obtain w1 where cl: "nix_close N (fd r) wb = (Ret (Inr ()), w1)" "v_file V w1 = v_file V wb" by (rule posix_close [OF V])
  have drop: "MappedRegion_drop N r w = (Ret (), w1)" using s u cl by (simp add: MappedRegion_drop_def abind_def)
  obtain f w3 where o: "nix_open N path w1 = (Ret (Inr f), w3)" "v_fd V w3 f = Some path" "v_file V w3 path = Some (?n, c')"
    by (rule posix_open [OF V, of path w1]) (use s u cl in \<open>auto\<close>)
  have st: "nix_fstat N f w3 = (Ret (Inr ?n), w3)" by (rule posix_fstat [OF V o(2,3)])
  have n: "24 \<le> unat ?n" "0 < ?n" "?n < 2 ^ 47" using r by (auto simp: region_at_def word_le_nat_alt word_less_nat_alt)
  obtain ptr w2 where m: "nix_mmap N ?n f w3 = (Ret (Inr ptr), w2)" "ptr \<noteq> 0" "unat ptr + unat ?n < 2 ^ 64"
    "\<forall>off<?n. mapped w2 (ptr + off)" "\<forall>off. word_in ?n off \<longrightarrow> mem w2 (ptr + off) = c' off"
    "v_map V w2 = (v_map V w3)(ptr \<mapsto> (path, ?n))" "v_file V w2 = v_file V w3"
    by (rule posix_mmap [OF V o(2,3) n(2,3)]) blast
  let ?r = "\<lparr>addr = ptr, total_size = ?n, fd = f, header = ptr, count = 0\<rparr>"
  have words: "mem w2 (ptr + off) = mem w (addr r + off)" if "word_in ?n off" for off using m(5) s(2) that by simp
  have hd: "word_in ?n 0" "word_in ?n 16" using n by (simp_all add: word_in_def)
  from words [OF hd(1)] words [OF hd(2)] r have "mem w2 ptr = MAGIC" "mem w2 (ptr + 16) = ?n" by (simp_all add: region_at_def)
  with m r o have at: "region_at V path ?r w2" by (simp add: region_at_def)
  moreover have "MappedRegion_load N path w1 = (Ret (Inr ?r), w2)"
    using o st m region_header_mapped [OF at] \<open>mem w2 ptr = MAGIC\<close> \<open>mem w2 (ptr + 16) = ?n\<close>
    by (simp add: MappedRegion_load_def open_simps)
  ultimately show ?thesis using drop words by (intro that [of w1 ?r w2]) simp_all
qed

section \<open>What a file keeps\<close>

lemma offsets_append: "offsets c (ss @ ts) = offsets c ss @ offsets (foldl (\<lambda>c s. round_up (c + s)) c ss) ts"
  by (induction ss arbitrary: c) simp_all

text \<open>C27. A region survives in its file: after any allocations, and whatever the program has stored behind the
  header, dropping the region and loading the file gives a region of the same size with the same words
  at the same offsets, and further allocations get the offsets they would have got without the break.\<close>

theorem reopened_region_continues:
  assumes "posix N V" "24 \<le> n" "n < 2 ^ 47" "MappedRegion_new N path n w = (Ret (Inr r), w1)"
    and "allocate_all ss r w1 = Some (Ret (ptrs, r2), w2)" "\<forall>off<24. m (addr r + off) = mem w2 (addr r + off)"
  shows "\<exists>w3 r' w4. MappedRegion_drop N r2 (w2\<lparr>mem := m\<rparr>) = (Ret (), w3) \<and> MappedRegion_load N path w3 = (Ret (Inr r'), w4) \<and>
    total_size r' = n \<and> num_allocated r' = 0 \<and> (\<forall>off. word_in n off \<longrightarrow> mem w4 (addr r' + off) = m (addr r + off)) \<and>
    (\<forall>ts. \<exists>offs ra wa rb wb.
       allocate_all (ss @ ts) r w1 = Some (Ret (ptrs @ map (\<lambda>off. fst (alloc_finish r off)) offs, ra), wa) \<and>
       allocate_all ts r' w4 = Some (Ret (map (\<lambda>off. fst (alloc_finish r' off)) offs, rb), wb))"
proof -
  obtain r0 w0 where "MappedRegion_new N path n w = (Ret (Inr r0), w0)" and at: "region_at V path r0 w0"
    and r0: "region_offset r0 w0 = 24" "total_size r0 = n" by (rule region_new [OF assms(1-3)])
  with assms(4) have [simp]: "r0 = r" "w0 = w1" by simp_all
  let ?c = "foldl (\<lambda>c s. round_up (c + s)) 24 ss"
  note all = region_allocate_all [OF assms(1), of path r w1]
  from all [of ss] assms(5) at r0 have al: "ptrs = map (\<lambda>off. fst (alloc_finish r off)) (offsets 24 ss)"
    "\<exists>k. r2 = r\<lparr>count := k\<rparr>" "w2 = w1\<lparr>mem := (mem w1)(header r + 8 := ?c)\<rparr>" by auto
  have h: "header r = addr r" using at by (simp add: region_at_def)
  have hd: "m (addr r) = mem w2 (addr r)" "m (addr r + 8) = mem w2 (addr r + 8)" "m (addr r + 16) = mem w2 (addr r + 16)"
    using assms(6) by (auto dest: spec [of _ 0])
  have at2: "region_at V path r2 (w2\<lparr>mem := m\<rparr>)"
    using at al hd h assms(1) by (auto simp: region_at_def)
  obtain w3 r' w4 where re: "MappedRegion_drop N r2 (w2\<lparr>mem := m\<rparr>) = (Ret (), w3)" "MappedRegion_load N path w3 = (Ret (Inr r'), w4)"
    "region_at V path r' w4" "total_size r' = total_size r2" "count r' = 0"
    and words: "\<forall>off. word_in (total_size r2) off \<longrightarrow> mem w4 (addr r' + off) = mem (w2\<lparr>mem := m\<rparr>) (addr r2 + off)"
    by (rule region_reopen [OF assms(1) at2])
  have [simp]: "total_size r2 = n" "addr r2 = addr r" using al r0 by auto
  have "word_in n 8" using assms(2) by (simp add: word_in_def word_le_nat_alt)
  from spec [OF words, of 8] this hd al(3) h re(3) have off: "region_offset r' w4 = ?c" by (simp add: region_at_def)
  have "\<exists>ra wa. allocate_all (ss @ ts) r w1 = Some (Ret (ptrs @ map (\<lambda>off. fst (alloc_finish r off)) (offsets ?c ts), ra), wa)" for ts
    using all [of "ss @ ts"] at r0 al(1) by (simp add: offsets_append)
  moreover have "\<exists>rb wb. allocate_all ts r' w4 = Some (Ret (map (\<lambda>off. fst (alloc_finish r' off)) (offsets ?c ts), rb), wb)" for ts
    using region_allocate_all [OF assms(1) re(3), of ts] off by simp
  ultimately show ?thesis using re words by (force simp: num_allocated_def)
qed

section \<open>The tests\<close>

record TestObject =
  v1 :: u64
  v2 :: u64
  v3 :: u64
  v4 :: u64
  v5 :: u64
  v6 :: "16 word"
  v7 :: u8

definition size_of_TestObject :: usize where "size_of_TestObject = 48"

text \<open>The two short fields share the last word with five bytes of padding, whose content the language leaves open.\<close>

definition write_TestObject :: "u64 \<Rightarrow> u64 \<Rightarrow> TestObject \<Rightarrow> ('z heap_scheme, unit) act" where
  "write_TestObject pad p t =
     abind (store_word p (v1 t)) (\<lambda>_. abind (store_word (p + 8) (v2 t)) (\<lambda>_.
     abind (store_word (p + 16) (v3 t)) (\<lambda>_. abind (store_word (p + 24) (v4 t)) (\<lambda>_.
     abind (store_word (p + 32) (v5 t)) (\<lambda>_.
     store_word (p + 40) (ucast (v6 t) OR push_bit 16 (ucast (v7 t)) OR push_bit 24 pad))))))"

definition test_object :: "u64 \<Rightarrow> TestObject" where
  "test_object i = \<lparr>v1 = i, v2 = i, v3 = i, v4 = i, v5 = i, v6 = ucast i, v7 = ucast i\<rparr>"

text \<open>
  What the tests use of \<^verbatim>\<open>std::old_io\<close>: a directory is made and a file removed, with results nobody looks
  at, and a line is printed.
\<close>

record 'w old_io =
  mkdir_recursive :: "string \<Rightarrow> ('w, errno + unit) act"
  unlink :: "string \<Rightarrow> ('w, errno + unit) act"
  io_println :: "string \<Rightarrow> ('w, unit) act"

definition unwrap_region :: "'e + MappedRegion \<Rightarrow> ('w, MappedRegion) act" where
  "unwrap_region r = (case r of Inl e \<Rightarrow> panic ''called Result::unwrap() on an Err value'' | Inr a \<Rightarrow> ret a)"

text \<open>The body of the loops of \<^verbatim>\<open>mmap_allocator_basic\<close>: the second time the fields are squares.\<close>

definition basic_round :: "u64 \<Rightarrow> (nat \<Rightarrow> u64) \<Rightarrow> nat \<Rightarrow> MappedRegion \<Rightarrow> ('z heap_scheme, MappedRegion) pact" where
  "basic_round pad val i region =
     pbind (allocate region size_of_TestObject 8) (\<lambda>(foo, region).
     pbind (once (write_TestObject pad foo (test_object (val i)))) (\<lambda>_. once (ret region)))"

definition mmap_allocator_basic ::
  "'z heap_scheme nix \<Rightarrow> 'z heap_scheme old_io \<Rightarrow> u64 \<Rightarrow> ('z heap_scheme, unit) pact" where
  "mmap_allocator_basic N IO pad =
     (let two_jigabytes = 1024 * 1024 * 1024 * 2; path = ''./target/data/test_alloc.db'' in
      pbind (once (mkdir_recursive IO ''target/data'')) (\<lambda>_.
      pbind (once (io_println IO (''TestObject is '' @ decimal (unat size_of_TestObject) @ '' bytes or '' @
        decimal (unat (round_up size_of_TestObject)) @ '' rounded''))) (\<lambda>_.
      pbind (once (abind (MappedRegion_new N path two_jigabytes) unwrap_region)) (\<lambda>region.
      pbind (for_range 0 100 (basic_round pad of_nat) region) (\<lambda>region.
      pbind (once (MappedRegion_drop N region)) (\<lambda>_.
      pbind (once (abind (MappedRegion_load N path) unwrap_region)) (\<lambda>region.
      pbind (for_range 0 100 (basic_round pad (\<lambda>i. of_nat i * of_nat i)) region) (\<lambda>region.
      pbind (once (assert_that (total_size region = two_jigabytes))) (\<lambda>_.
      pbind (once (MappedRegion_drop N region)) (\<lambda>_.
      pbind (once (unlink IO path)) (\<lambda>_. once (ret ()))))))))))))"

text \<open>\<^verbatim>\<open>mmap_allocator_boundaries\<close>; its second region lives to the end of the function, past the removal of the file.\<close>

definition boundaries_round :: "nat \<Rightarrow> MappedRegion \<Rightarrow> ('z heap_scheme, MappedRegion) pact" where
  "boundaries_round i region =
     pbind (allocate region size_of_TestObject 8) (\<lambda>(foo, region).
     pbind (once (assert_that (foo \<noteq> 0))) (\<lambda>_. once (ret region)))"

definition mmap_allocator_boundaries ::
  "'z heap_scheme nix \<Rightarrow> 'z heap_scheme old_io \<Rightarrow> ('z heap_scheme, unit) pact" where
  "mmap_allocator_boundaries N IO =
     (let one_k = 1024; path = ''./target/data/test_alloc2.db'' in
      pbind (once (mkdir_recursive IO ''target/data'')) (\<lambda>_.
      pbind (once (abind (MappedRegion_new N path one_k) unwrap_region)) (\<lambda>region.
      pbind (for_range 0 (unat (one_k div size_of_TestObject)) boundaries_round region) (\<lambda>region.
      pbind (allocate region size_of_TestObject 8) (\<lambda>(foo, region).
      pbind (once (assert_that (foo = 0))) (\<lambda>_.
      pbind (once (MappedRegion_drop N region)) (\<lambda>_.
      pbind (once (abind (MappedRegion_load N path) unwrap_region)) (\<lambda>region.
      pbind (allocate region size_of_TestObject 8) (\<lambda>(foo, region).
      pbind (once (assert_that (foo = 0))) (\<lambda>_.
      pbind (once (unlink IO path)) (\<lambda>_.
      pbind (once (MappedRegion_drop N region)) (\<lambda>_. once (ret ())))))))))))))"

section \<open>The tests pass\<close>

definition io_ok :: "'w old_io \<Rightarrow> bool" where
  "io_ok IO \<longleftrightarrow> (\<forall>p w. \<exists>r w'. mkdir_recursive IO p w = (Ret r, w')) \<and> (\<forall>p w. \<exists>r w'. unlink IO p w = (Ret r, w')) \<and>
     (\<forall>s w. \<exists>w'. io_println IO s w = (Ret (), w'))"

lemma region_store_word:
  assumes "posix N V" "region_at V path r w" "24 \<le> off" "off < unat (total_size r)"
  shows "\<exists>w'. store_word (addr r + of_nat off) v w = (Ret (), w') \<and> region_at V path r w' \<and> region_offset r w' = region_offset r w"
proof -
  have off: "unat (of_nat off :: u64) = off" using assms(4) unat_less64 [of "total_size r"] by (intro unat_of_nat64) linarith
  then have ne: "(of_nat off :: u64) \<noteq> 0" "(of_nat off :: u64) \<noteq> 8" "(of_nat off :: u64) \<noteq> 16" using assms(3) by auto
  have "mapped w (addr r + of_nat off)" by (rule region_mapped [OF assms(2)]) (simp add: word_less_nat_alt off assms(4))
  moreover have "header r = addr r" using assms(2) by (simp add: region_at_def)
  ultimately show ?thesis using region_store [OF assms(1,2) ne(1,3), of v] ne by (simp add: store_word_def)
qed

lemma region_write_TestObject:
  assumes V: "posix N V" and at: "region_at V path r w" and c: "24 \<le> c" "c + 48 \<le> unat (total_size r)"
  shows "\<exists>w'. write_TestObject pad (addr r + of_nat c) t w = (Ret (), w') \<and> region_at V path r w' \<and> region_offset r w' = region_offset r w"
proof -
  have st: "\<exists>w2. store_word (addr r + of_nat c + of_nat k) v w1 = (Ret (), w2) \<and> region_at V path r w2 \<and> region_offset r w2 = region_offset r w1"
    if "region_at V path r w1" "k < 48" for k v w1
    using region_store_word [OF V that(1), of "c + k" v] c that(2) by (simp add: add.assoc)
  from st [OF at, of 0] obtain w1 where w1: "store_word (addr r + of_nat c) (v1 t) w = (Ret (), w1)" "region_at V path r w1"
    "region_offset r w1 = region_offset r w" by auto
  from st [OF w1(2), of 8] obtain w2 where w2: "store_word (addr r + of_nat c + 8) (v2 t) w1 = (Ret (), w2)" "region_at V path r w2"
    "region_offset r w2 = region_offset r w1" by auto
  from st [OF w2(2), of 16] obtain w3 where w3: "store_word (addr r + of_nat c + 16) (v3 t) w2 = (Ret (), w3)" "region_at V path r w3"
    "region_offset r w3 = region_offset r w2" by auto
  from st [OF w3(2), of 24] obtain w4 where w4: "store_word (addr r + of_nat c + 24) (v4 t) w3 = (Ret (), w4)" "region_at V path r w4"
    "region_offset r w4 = region_offset r w3" by auto
  from st [OF w4(2), of 32] obtain w5 where w5: "store_word (addr r + of_nat c + 32) (v5 t) w4 = (Ret (), w5)" "region_at V path r w5"
    "region_offset r w5 = region_offset r w4" by auto
  from st [OF w5(2), of 40] obtain w6 where w6: "store_word (addr r + of_nat c + 40) (ucast (v6 t) OR push_bit 16 (ucast (v7 t)) OR push_bit 24 pad) w5 = (Ret (), w6)"
    "region_at V path r w6" "region_offset r w6 = region_offset r w5" by auto
  from w1 w2 w3 w4 w5 w6 show ?thesis by (simp add: write_TestObject_def abind_def)
qed

text \<open>The \<open>k\<close>-th object of a region lies at offset \<open>24 + 48 k\<close>.\<close>

definition objects :: "'z heap_scheme fs_view \<Rightarrow> string \<Rightarrow> u64 \<Rightarrow> nat \<Rightarrow> MappedRegion \<Rightarrow> 'z heap_scheme \<Rightarrow> bool" where
  "objects V path n k r w \<longleftrightarrow> region_at V path r w \<and> total_size r = n \<and> region_offset r w = of_nat (24 + 48 * k)"

lemma objects_allocate:
  assumes "posix N V" "objects V path n k r w" "24 + 48 * k < 2 ^ 63"
  shows "\<exists>r' w'. allocate r size_of_TestObject 8 w = Some (Ret (fst (alloc_finish r (of_nat (24 + 48 * k))), r'), w') \<and>
    objects V path n (Suc k) r' w' \<and> addr r' = addr r"
proof -
  let ?c = "of_nat (24 + 48 * k) :: usize"
  have r: "region_at V path r w" "total_size r = n" "region_offset r w = ?c" using assms(2) by (simp_all add: objects_def)
  have c: "unat ?c = 24 + 48 * k" using assms(3) by (intro unat_of_nat64) simp
  have "(79 + 48 * k) div 8 = 9 + 6 * k" by presburger
  then have "unat (round_up (?c + 48)) = 24 + 48 * Suc k"
    using unat_round_up_add [of ?c 48] assms(3) c by (simp add: bump1_def)
  then have up: "round_up (?c + 48) = of_nat (24 + 48 * Suc k)" by (metis of_nat_unat ucast_id)
  let ?w = "w\<lparr>mem := (mem w)(addr r + 8 := round_up (?c + 48))\<rparr>"
  have h: "header r = addr r" using r(1) by (simp add: region_at_def)
  have "\<exists>k'. snd (alloc_finish r ?c) = r\<lparr>count := k'\<rparr>" by (cases "?c \<le> total_size r") (auto simp: alloc_finish_within alloc_finish_past intro: exI [of _ "count r"])
  then obtain k' where k': "snd (alloc_finish r ?c) = r\<lparr>count := k'\<rparr>" ..
  have "objects V path n (Suc k) (r\<lparr>count := k'\<rparr>) ?w"
    using region_allocate(2) [OF assms(1) r(1,3), of 48] r(2) h up by (simp add: objects_def)
  moreover have "allocate r size_of_TestObject 8 w = Some (Ret (fst (alloc_finish r ?c), r\<lparr>count := k'\<rparr>), ?w)"
    using region_allocate(1) [OF assms(1) r(1,3), of 48] k' by (simp add: ALIGN_def size_of_TestObject_def prod_eq_iff)
  ultimately show ?thesis by fastforce
qed

lemma objects_new:
  assumes "posix N V" "24 \<le> n" "n < 2 ^ 47"
  shows "\<exists>r w'. abind (MappedRegion_new N path n) unwrap_region w = (Ret r, w') \<and> objects V path n 0 r w'"
  by (rule region_new [OF assms, of path w]) (auto simp: objects_def abind_def unwrap_region_def)

lemma objects_reopen:
  assumes "posix N V" "objects V path n k r w"
  shows "\<exists>w1 r' w2. MappedRegion_drop N r w = (Ret (), w1) \<and> abind (MappedRegion_load N path) unwrap_region w1 = (Ret r', w2) \<and>
    objects V path n k r' w2"
proof -
  have r: "region_at V path r w" "total_size r = n" "region_offset r w = of_nat (24 + 48 * k)" using assms(2) by (simp_all add: objects_def)
  have w: "word_in n 8" "header r = addr r" using r by (auto simp: region_at_def word_in_def word_le_nat_alt)
  show ?thesis
    by (rule region_reopen [OF assms(1) r(1)])
      (use r w in \<open>auto simp: objects_def abind_def unwrap_region_def region_at_def dest!: spec [of _ 8]\<close>)
qed

lemma objects_drop:
  assumes "posix N V"
  shows "\<exists>w'. MappedRegion_drop N r w = (Ret (), w')"
proof -
  obtain a w1 where 1: "nix_msync N (addr r) (total_size r) w = (Ret a, w1)"
    using assms unfolding posix_def drop_returns_def by blast
  obtain b w2 where 2: "nix_munmap N (addr r) (total_size r) w1 = (Ret b, w2)"
    using assms unfolding posix_def drop_returns_def by blast
  obtain w3 where "nix_close N (fd r) w2 = (Ret (Inr ()), w3)" by (rule posix_close [OF assms])
  with 1 2 show ?thesis by (simp add: MappedRegion_drop_def abind_def)
qed

lemma basic_round_objects:
  assumes "posix N V" "objects V path n k r w" "72 + 48 * k \<le> unat n" "unat n < 2 ^ 63"
  shows "\<exists>r' w'. basic_round pad val i r w = Some (Ret r', w') \<and> objects V path n (Suc k) r' w'"
proof -
  let ?c = "24 + 48 * k"
  have c: "unat (of_nat ?c :: usize) = ?c" using assms(3,4) by (intro unat_of_nat64) simp
  then have le: "(of_nat ?c :: usize) \<le> total_size r" using assms(2,3) unfolding objects_def word_le_nat_alt by simp
  have k: "?c < 2 ^ 63" using assms(3,4) by simp
  obtain r' w1 where al: "allocate r size_of_TestObject 8 w = Some (Ret (addr r + of_nat ?c, r'), w1)"
    "objects V path n (Suc k) r' w1" "addr r' = addr r"
    using objects_allocate [OF assms(1,2) k] le by (auto simp: alloc_finish_within simp del: of_nat_add of_nat_mult)
  have "region_at V path r' w1" "total_size r' = n" using al(2) by (simp_all add: objects_def)
  with region_write_TestObject [OF assms(1), of path r' w1 ?c pad "test_object (val i)"] assms(3) al(3)
  obtain w2 where "write_TestObject pad (addr r + of_nat ?c) (test_object (val i)) w1 = (Ret (), w2)" "region_at V path r' w2"
    "region_offset r' w2 = region_offset r' w1" by auto
  then show ?thesis using al by (auto simp: basic_round_def pbind_def objects_def simp del: of_nat_add of_nat_mult)
qed

lemma boundaries_round_objects:
  assumes "posix N V" "objects V path n k r w" "24 + 48 * k \<le> unat n" "unat n < 2 ^ 63"
  shows "\<exists>r' w'. boundaries_round i r w = Some (Ret r', w') \<and> objects V path n (Suc k) r' w'"
proof -
  let ?c = "24 + 48 * k"
  have c: "unat (of_nat ?c :: usize) = ?c" using assms(3,4) by (intro unat_of_nat64) simp
  then have le: "(of_nat ?c :: usize) \<le> total_size r" using assms(2,3) unfolding objects_def word_le_nat_alt by simp
  have k: "?c < 2 ^ 63" using assms(3,4) by simp
  have at: "region_at V path r w" using assms(2) by (simp add: objects_def)
  have "addr r + of_nat ?c \<noteq> 0" by (rule region_address [OF at le])
  then show ?thesis using objects_allocate [OF assms(1,2) k] le
    by (auto simp: boundaries_round_def pbind_def assert_that_def alloc_finish_within simp del: of_nat_add of_nat_mult)
qed

lemma objects_full:
  assumes "posix N V" "objects V path n k r w" "unat n < 24 + 48 * k" "24 + 48 * k < 2 ^ 63"
  shows "\<exists>r' w'. allocate r size_of_TestObject 8 w = Some (Ret (0, r'), w') \<and> objects V path n (Suc k) r' w'"
proof -
  have "unat (of_nat (24 + 48 * k) :: usize) = 24 + 48 * k" using assms(4) by (intro unat_of_nat64) simp
  then have "\<not> (of_nat (24 + 48 * k) :: usize) \<le> total_size r" using assms(2,3) unfolding objects_def word_le_nat_alt by simp
  then show ?thesis using objects_allocate [OF assms(1,2,4)] by (auto simp: alloc_finish_past simp del: of_nat_add of_nat_mult)
qed

text \<open>\<^verbatim>\<open>mmap_allocator_basic\<close> passes on every system that keeps the promises of \<open>posix\<close>, whatever the padding
  bytes are: a hundred objects are allocated in a new file of two gigabytes and written, a hundred more
  after it has been loaded again, no access leaves the mapping, and the size is the same.\<close>

theorem mmap_allocator_basic_passes:
  assumes "posix N V" "io_ok IO"
  shows "\<exists>w'. mmap_allocator_basic N IO pad w = Some (Ret (), w')"
proof -
  let ?n = "1024 * 1024 * 1024 * 2 :: u64" and ?p = "''./target/data/test_alloc.db''"
  obtain a w1 where 1: "mkdir_recursive IO ''target/data'' w = (Ret a, w1)" using assms(2) unfolding io_ok_def by blast
  obtain w2 where 2: "io_println IO (''TestObject is '' @ decimal (unat size_of_TestObject) @ '' bytes or '' @
        decimal (unat (round_up size_of_TestObject)) @ '' rounded'') w1 = (Ret (), w2)" using assms(2) unfolding io_ok_def by blast
  have loop: "\<exists>r' w'. for_range 0 100 (basic_round pad val) r w = Some (Ret r', w') \<and> objects V ?p ?n (k + 100) r' w'"
    if "objects V ?p ?n k r w" "k \<le> 100" for val k r w
  proof -
    have "\<exists>s' w'. basic_round pad val j s w = Some (Ret s', w') \<and> objects V ?p ?n (k + Suc j) s' w'"
      if "j < 0 + 100" "objects V ?p ?n (k + j) s w" for j s w
      using basic_round_objects [OF assms(1) that(2)] that(1) \<open>k \<le> 100\<close> by simp
    from for_range_invariant [of 0 100 "\<lambda>j. objects V ?p ?n (k + j)" "basic_round pad val" r w, OF this] that show ?thesis by simp
  qed
  obtain r w3 where 3: "abind (MappedRegion_new N ?p ?n) unwrap_region w2 = (Ret r, w3)" "objects V ?p ?n 0 r w3"
    using objects_new [OF assms(1), of ?n ?p w2] by auto
  from loop [OF 3(2), of of_nat] obtain r4 w4 where 4: "for_range 0 100 (basic_round pad of_nat) r w3 = Some (Ret r4, w4)"
    "objects V ?p ?n 100 r4 w4" by auto
  from objects_reopen [OF assms(1) 4(2)] obtain w5 r6 w6 where 5: "MappedRegion_drop N r4 w4 = (Ret (), w5)"
    and 6: "abind (MappedRegion_load N ?p) unwrap_region w5 = (Ret r6, w6)" "objects V ?p ?n 100 r6 w6" by blast
  from loop [OF 6(2), of "\<lambda>i. of_nat i * of_nat i"] obtain r7 w7 where
    7: "for_range 0 100 (basic_round pad (\<lambda>i. of_nat i * of_nat i)) r6 w6 = Some (Ret r7, w7)" "total_size r7 = ?n"
    by (auto simp: objects_def)
  obtain w8 where 8: "MappedRegion_drop N r7 w7 = (Ret (), w8)" using objects_drop [OF assms(1)] by blast
  obtain b w9 where 9: "unlink IO ?p w8 = (Ret b, w9)" using assms(2) unfolding io_ok_def by blast
  show ?thesis using 1 2 3(1) 4(1) 5 6(1) 7 8 9
    by (simp add: mmap_allocator_basic_def Let_def pbind_def assert_that_def)
qed

text \<open>C28. \<^verbatim>\<open>mmap_allocator_boundaries\<close> passes on every system that keeps the promises of \<open>posix\<close>: in a file of 1024 bytes the first 21 objects get an address, the
  next one gets none, and when the file is loaded again there is still no room.\<close>

theorem mmap_allocator_boundaries_passes:
  assumes "posix N V" "io_ok IO"
  shows "\<exists>w'. mmap_allocator_boundaries N IO w = Some (Ret (), w')"
proof -
  let ?p = "''./target/data/test_alloc2.db''"
  obtain a w1 where 1: "mkdir_recursive IO ''target/data'' w = (Ret a, w1)" using assms(2) unfolding io_ok_def by blast
  obtain r w2 where 2: "abind (MappedRegion_new N ?p 1024) unwrap_region w1 = (Ret r, w2)" "objects V ?p 1024 0 r w2"
    using objects_new [OF assms(1), of 1024 ?p w1] by auto
  have d: "unat (1024 div size_of_TestObject) = 21" by (simp add: size_of_TestObject_def unat_div_distrib)
  obtain r3 w3 where 3: "for_range 0 21 boundaries_round r w2 = Some (Ret r3, w3)" "objects V ?p 1024 21 r3 w3"
  proof -
    have "\<exists>s' w'. boundaries_round j s w = Some (Ret s', w') \<and> objects V ?p 1024 (Suc j) s' w'"
      if "j < 0 + 21" "objects V ?p 1024 j s w" for j s w
      using boundaries_round_objects [OF assms(1) that(2)] that(1) by simp
    from for_range_invariant [of 0 21 "objects V ?p 1024" boundaries_round r w2, OF this] 2(2) that show ?thesis by auto
  qed
  obtain r4 w4 where 4: "allocate r3 size_of_TestObject 8 w3 = Some (Ret (0, r4), w4)" "objects V ?p 1024 22 r4 w4"
    using objects_full [OF assms(1) 3(2)] by auto
  from objects_reopen [OF assms(1) 4(2)] obtain w5 r6 w6 where 5: "MappedRegion_drop N r4 w4 = (Ret (), w5)"
    and 6: "abind (MappedRegion_load N ?p) unwrap_region w5 = (Ret r6, w6)" "objects V ?p 1024 22 r6 w6" by blast
  obtain r7 w7 where 7: "allocate r6 size_of_TestObject 8 w6 = Some (Ret (0, r7), w7)"
    using objects_full [OF assms(1) 6(2)] by auto
  obtain b w8 where 8: "unlink IO ?p w7 = (Ret b, w8)" using assms(2) unfolding io_ok_def by blast
  obtain w9 where 9: "MappedRegion_drop N r7 w8 = (Ret (), w9)" using objects_drop [OF assms(1)] by blast
  show ?thesis using 1 2(1) d 3(1) 4(1) 5 6(1) 7 8 9
    by (simp add: mmap_allocator_boundaries_def Let_def pbind_def assert_that_def)
qed

section \<open>A system\<close>

text \<open>Files in a table, one descriptor and one mapping at a time: enough to meet every promise.\<close>

record disk_world = heap +
  disk :: "string \<rightharpoonup> u64 \<times> (u64 \<Rightarrow> u64)"
  open_fds :: "u32 \<rightharpoonup> string"
  maps :: "u64 \<rightharpoonup> string \<times> u64"

definition disk_view :: "disk_world fs_view" where
  "disk_view = \<lparr>v_file = disk, v_fd = open_fds, v_map = maps\<rparr>"

definition disk_file :: "u32 \<Rightarrow> disk_world \<Rightarrow> (string \<times> u64 \<times> (u64 \<Rightarrow> u64)) option" where
  "disk_file f w = (case open_fds w f of None \<Rightarrow> None | Some p \<Rightarrow> (case disk w p of None \<Rightarrow> None | Some x \<Rightarrow> Some (p, x)))"

definition disk_nix :: "disk_world nix" where
  "disk_nix =
     \<lparr>nix_open = (\<lambda>p w. (Ret (Inr 3), w\<lparr>disk := (disk w)(p \<mapsto> (case disk w p of None \<Rightarrow> (0, \<lambda>_. 0) | Some x \<Rightarrow> x)), open_fds := (open_fds w)(3 \<mapsto> p)\<rparr>)),
      nix_ftruncate = (\<lambda>f n w. case disk_file f w of None \<Rightarrow> (Ret (Inl 9), w) | Some (p, _, c) \<Rightarrow> (Ret (Inr ()), w\<lparr>disk := (disk w)(p \<mapsto> (n, c))\<rparr>)),
      nix_fstat = (\<lambda>f w. case disk_file f w of None \<Rightarrow> (Ret (Inl 9), w) | Some (p, n, c) \<Rightarrow> (Ret (Inr n), w)),
      nix_mmap = (\<lambda>n f w. case disk_file f w of None \<Rightarrow> (Ret (Inl 9), w)
        | Some (p, _, c) \<Rightarrow> (Ret (Inr 0x1000), w\<lparr>mem := (\<lambda>a. c (a - 0x1000)), mapped := (\<lambda>_. True), maps := (maps w)(0x1000 \<mapsto> (p, n))\<rparr>)),
      nix_madvise = (\<lambda>_ _. ret (Inr ())),
      nix_msync = (\<lambda>ptr n w. case maps w ptr of None \<Rightarrow> (Ret (Inl 12), w)
        | Some (p, n') \<Rightarrow> (Ret (Inr ()), w\<lparr>disk := (disk w)(p \<mapsto> (n', \<lambda>off. mem w (ptr + off)))\<rparr>)),
      nix_munmap = (\<lambda>ptr n w. (Ret (Inr ()), w\<lparr>mapped := (\<lambda>_. False), maps := (maps w)(ptr := None)\<rparr>)),
      nix_close = (\<lambda>f w. (Ret (Inr ()), w\<lparr>open_fds := (open_fds w)(f := None)\<rparr>))\<rparr>"

definition disk_io :: "disk_world old_io" where
  "disk_io = \<lparr>mkdir_recursive = (\<lambda>_. ret (Inr ())), unlink = (\<lambda>p w. (Ret (Inr ()), w\<lparr>disk := (disk w)(p := None)\<rparr>)), io_println = (\<lambda>_. ret ())\<rparr>"

definition empty_disk :: disk_world where
  "empty_disk = \<lparr>mem = (\<lambda>_. 0), mapped = (\<lambda>_. False), disk = Map.empty, open_fds = Map.empty, maps = Map.empty\<rparr>"

lemma disk_posix: "posix disk_nix disk_view"
proof -
  have "open_ok disk_nix disk_view" "ftruncate_ok disk_nix disk_view" "fstat_ok disk_nix disk_view" "close_ok disk_nix disk_view"
    by (fastforce simp: open_ok_def ftruncate_ok_def fstat_ok_def close_ok_def disk_nix_def disk_view_def disk_file_def
        split: option.split)+
  moreover have "mmap_ok disk_nix disk_view" "madvise_ok disk_nix disk_view" "msync_ok disk_nix disk_view" "munmap_ok disk_nix disk_view"
    by (auto simp: mmap_ok_def madvise_ok_def msync_ok_def munmap_ok_def disk_nix_def disk_view_def disk_file_def word_less_nat_alt)
  moreover have "stores_ok disk_view" "drop_returns disk_nix"
    by (auto simp: stores_ok_def drop_returns_def disk_nix_def disk_view_def split: option.split)
  ultimately show ?thesis by (simp add: posix_def)
qed

lemma disk_io_ok: "io_ok disk_io"
  by (simp add: io_ok_def disk_io_def)

theorem mmap_allocator_basic_passes_witness: "\<exists>w'. mmap_allocator_basic disk_nix disk_io 7 empty_disk = Some (Ret (), w')"
  by (rule mmap_allocator_basic_passes [OF disk_posix disk_io_ok])

theorem mmap_allocator_boundaries_passes_witness: "\<exists>w'. mmap_allocator_boundaries disk_nix disk_io empty_disk = Some (Ret (), w')"
  by (rule mmap_allocator_boundaries_passes [OF disk_posix disk_io_ok])

theorem reopened_region_continues_witness:
  "\<exists>r w1 ptrs r2 w2 w3 r' w4. MappedRegion_new disk_nix ''a.db'' 1024 empty_disk = (Ret (Inr r), w1) \<and>
    allocate_all [48, 5] r w1 = Some (Ret (ptrs, r2), w2) \<and> MappedRegion_drop disk_nix r2 w2 = (Ret (), w3) \<and>
    MappedRegion_load disk_nix ''a.db'' w3 = (Ret (Inr r'), w4) \<and> total_size r' = 1024"
proof -
  have n: "24 \<le> (1024 :: u64)" "(1024 :: u64) < 2 ^ 47" by simp_all
  obtain r w1 where new: "MappedRegion_new disk_nix ''a.db'' 1024 empty_disk = (Ret (Inr r), w1)" "region_at disk_view ''a.db'' r w1"
    using region_new [OF disk_posix n] by metis
  obtain ptrs r2 w2 where al: "allocate_all [48, 5] r w1 = Some (Ret (ptrs, r2), w2)"
    using region_allocate_all [OF disk_posix new(2)] by metis
  from reopened_region_continues [OF disk_posix n new(1) al, of "mem w2"] new(1) al show ?thesis by auto
qed

end
