(* ===== verification/Rx_Memberfn.thy ===== *)
theory Rx_Memberfn
  imports Rx_Pipelines
begin

text \<open>
  The bound methods of \<^verbatim>\<open>src/memberfn.rs\<close>: a closure together with the object it is called on, for methods
  of no, one and two arguments, and the example at the end of the file. The crate root does not list the
  module; it is modelled because a bound method is a closure like those the processors take.
\<close>

section \<open>Bound methods\<close>

record ('w, 't, 'r) MemberFn0 =
  fun0 :: "'t \<Rightarrow> ('w, 'r) act"
  obj0 :: 't

definition MemberFn0_new :: "'t \<Rightarrow> ('t \<Rightarrow> ('w, 'r) act) \<Rightarrow> ('w, 't, 'r) MemberFn0" where
  "MemberFn0_new o' f = \<lparr>fun0 = f, obj0 = o'\<rparr>"

definition MemberFn0_call :: "('w, 't, 'r) MemberFn0 \<Rightarrow> ('w, 'r) act" where
  "MemberFn0_call self = fun0 self (obj0 self)"

record ('w, 't, 'r, 'a0) MemberFn1 =
  fun1 :: "'t \<Rightarrow> 'a0 \<Rightarrow> ('w, 'r) act"
  obj1 :: 't

definition MemberFn1_new :: "'t \<Rightarrow> ('t \<Rightarrow> 'a0 \<Rightarrow> ('w, 'r) act) \<Rightarrow> ('w, 't, 'r, 'a0) MemberFn1" where
  "MemberFn1_new o' f = \<lparr>fun1 = f, obj1 = o'\<rparr>"

definition MemberFn1_call :: "('w, 't, 'r, 'a0) MemberFn1 \<Rightarrow> 'a0 \<Rightarrow> ('w, 'r) act" where
  "MemberFn1_call self arg = fun1 self (obj1 self) arg"

record ('w, 't, 'r, 'a0, 'a1) MemberFn2 =
  fun2 :: "'t \<Rightarrow> 'a0 \<Rightarrow> 'a1 \<Rightarrow> ('w, 'r) act"
  obj2 :: 't

definition MemberFn2_new :: "'t \<Rightarrow> ('t \<Rightarrow> 'a0 \<Rightarrow> 'a1 \<Rightarrow> ('w, 'r) act) \<Rightarrow> ('w, 't, 'r, 'a0, 'a1) MemberFn2" where
  "MemberFn2_new o' f = \<lparr>fun2 = f, obj2 = o'\<rparr>"

definition MemberFn2_call :: "('w, 't, 'r, 'a0, 'a1) MemberFn2 \<Rightarrow> 'a0 \<Rightarrow> 'a1 \<Rightarrow> ('w, 'r) act" where
  "MemberFn2_call self arg0 arg1 = fun2 self (obj2 self) arg0 arg1"

lemmas member_defs = MemberFn0_new_def MemberFn0_call_def MemberFn1_new_def MemberFn1_call_def
  MemberFn2_new_def MemberFn2_call_def

section \<open>The example\<close>

record Foo =
  Foo_x :: usize

definition Foo_winning :: "Foo \<Rightarrow> usize \<Rightarrow> usize" where
  "Foo_winning self a = a + Foo_x self"

text \<open>The \<^verbatim>\<open>Debug\<close> output of a number is the parameter \<open>fmt\<close>.\<close>

definition memberfn_main :: "(usize \<Rightarrow> string) \<Rightarrow> (('m, 'z) world_scheme, unit) act" where
  "memberfn_main fmt =
     (let bar = \<lparr>Foo_x = 10\<rparr>; binding = MemberFn1_new bar (\<lambda>f a. ret (Foo_winning f a)) in
      abind (MemberFn1_call binding 10) (\<lambda>r. println (''result: '' @ fmt r)))"

lemma memberfn_main_prints: "memberfn_main fmt w = (Ret (), w\<lparr>stdout := stdout w @ [''result: '' @ fmt 20]\<rparr>)"
  by (simp add: memberfn_main_def member_defs Foo_winning_def println_def)

text \<open>A \<^verbatim>\<open>Map\<close> over a bound method sends on what the method gives on its object, for every item of a batch.\<close>

lemma Map_feed_bound_method:
  assumes "Map_fun p = MemberFn1_call (MemberFn1_new obj (\<lambda>f a. ret (meth f a)))" "Map_subscriber p = Some s"
  shows "feed (on_next (Map_Subscriber S)) p xs w =
    abind (feed (on_next S) s (map (meth obj) xs)) (\<lambda>(b, s'). ret (b, p\<lparr>Map_subscriber := Some s'\<rparr>)) w"
proof -
  have "Map_fun p = (\<lambda>x. ret (meth obj x))" using assms(1) by (auto simp: member_defs)
  from map_stage.stage_feed_stateless [OF _ _ this assms(2)] show ?thesis by simp
qed

end
