(* ===== verification/Rx_Scheduler.thy ===== *)
theory Rx_Scheduler
  imports Rx_Prelude "HOL-Library.Signed_Division"
begin

text \<open>
  The fixed-rate loop of \<^verbatim>\<open>src/scheduler.rs\<close>. What it takes from outside is a parameter: the clock
  \<^verbatim>\<open>precise_time_ns\<close> of the \<^verbatim>\<open>time\<close> crate, \<^verbatim>\<open>nanosleep\<close> of \<^verbatim>\<open>libc\<close> (with \<^verbatim>\<open>tv_sec\<close> always 0, and an answer
  nobody reads), and the creation of the \<^verbatim>\<open>Timer\<close>, which can fail and is not used otherwise. Signed
  64-bit integers are words read with \<open>sint\<close>.
\<close>

section \<open>Signed arithmetic\<close>

type_synonym i64 = "64 word"

definition i64_div :: "i64 \<Rightarrow> i64 \<Rightarrow> ('w, i64) act" where
  "i64_div a b = (if b = 0 then panic ''attempted to divide by zero'' else ret (word_of_int (sint a sdiv sint b)))"

definition checked_sub :: "i64 \<Rightarrow> i64 \<Rightarrow> i64 option" where
  "checked_sub a b = (if sint (a - b) = sint a - sint b then Some (a - b) else None)"

section \<open>The loop\<close>

record 'w platform =
  timer_new :: "('w, string + unit) act"
  precise_time_ns :: "('w, u64) act"
  nanosleep :: "i64 \<Rightarrow> ('w, int) act"

text \<open>One pass through the loop: whether to go on, and the closure's state after the call.\<close>

definition loop_round ::
  "'w platform \<Rightarrow> i64 \<Rightarrow> ('s \<Rightarrow> ('w, bool \<times> 's) act) \<Rightarrow> 's \<Rightarrow> ('w, bool \<times> 's) act" where
  "loop_round P loop_time_ns f s =
     abind (precise_time_ns P) (\<lambda>start.
     abind (f s) (\<lambda>(go, s').
     if \<not> go then ret (False, s')
     else abind (precise_time_ns P) (\<lambda>t.
       case checked_sub loop_time_ns (t - start) of
         Some diff \<Rightarrow> abind (nanosleep P diff) (\<lambda>_. ret (True, s'))
       | None \<Rightarrow> ret (True, s'))))"

definition fixed_loop ::
  "'w platform \<Rightarrow> u64 \<Rightarrow> ('s \<Rightarrow> ('w, bool \<times> 's) act) \<Rightarrow> 's \<Rightarrow> ('w, 's) pact" where
  "fixed_loop P rate f s =
     pbind (once (timer_new P)) (\<lambda>r. case r of
        Inl _ \<Rightarrow> once (panic ''called Result::unwrap() on an Err value'')
      | Inr _ \<Rightarrow> pbind (once (i64_div 1000000000 rate)) (\<lambda>loop_time_ns. loop_act (loop_round P loop_time_ns f) s))"

section \<open>Arithmetic of a round\<close>

lemma sint_of_nat64: "n < 2 ^ 63 \<Longrightarrow> sint (of_nat n :: i64) = int n"
  by (simp add: signed_of_nat signed_take_bit_int_eq_self)

lemma sint_diff64:
  "- (2 ^ 63) \<le> sint a - sint (b :: i64) \<Longrightarrow> sint a - sint b < 2 ^ 63 \<Longrightarrow> sint (a - b) = sint a - sint b"
  by (simp add: sint_word_ariths signed_take_bit_int_eq_self)

lemma loop_time_of_nat:
  assumes "0 < rate" "rate < 2 ^ 63"
  shows "i64_div 1000000000 (of_nat rate) = ret (of_nat (1000000000 div rate))"
proof -
  have "sint (of_nat rate :: i64) = int rate" by (rule sint_of_nat64 [OF assms(2)])
  moreover from this assms(1) have "(of_nat rate :: i64) \<noteq> 0" by auto
  moreover have "sint (1000000000 :: i64) = 1000000000" by simp
  moreover have "1000000000 div int rate = int (1000000000 div rate)" by (simp add: zdiv_int)
  ultimately show ?thesis using assms(1) by (simp add: i64_div_def signed_divide_int_def)
qed

lemma checked_sub_of_nat:
  assumes "a < 2 ^ 62" "t0 \<le> t1" "t1 < 2 ^ 63"
  shows "\<exists>diff. checked_sub (of_nat a) (of_nat t1 - of_nat t0) = Some diff \<and> sint diff = int a - int (t1 - t0)"
proof -
  from assms(2) obtain k where t1: "t1 = t0 + k" by (auto simp: le_iff_add)
  have s: "sint (of_nat k :: i64) = int k" "sint (of_nat a :: i64) = int a"
    by (rule sint_of_nat64, use assms t1 in simp)+
  have "sint (of_nat a - of_nat k :: i64) = int a - int k"
    using sint_diff64 [of "of_nat a" "of_nat k"] assms t1 by (simp add: s)
  then show ?thesis by (simp add: checked_sub_def t1 s)
qed

section \<open>What is expected of the platform and of the closure\<close>

text \<open>
  \<open>now\<close> reads the time off the world and \<open>signals\<close> the number of signals that have cut a sleep short so far;
  neither goes back. The clock tells a time between its call and its return. A sleep with a legal argument
  (\<^verbatim>\<open>tv_nsec\<close> from 0 to 999999999) either answers 0 and has lasted as long as asked, or answers something
  else because a signal interrupted it; what a sleep with another argument does is left open.
\<close>

definition later :: "('w \<Rightarrow> nat) \<Rightarrow> ('w \<Rightarrow> nat) \<Rightarrow> 'w \<Rightarrow> 'w \<Rightarrow> bool" where
  "later now signals w w' \<longleftrightarrow> now w \<le> now w' \<and> signals w \<le> signals w'"

definition keeps_time :: "('w \<Rightarrow> nat) \<Rightarrow> ('w \<Rightarrow> nat) \<Rightarrow> 'w platform \<Rightarrow> bool" where
  "keeps_time now signals P \<longleftrightarrow>
     (\<forall>w. \<exists>w'. timer_new P w = (Ret (Inr ()), w') \<and> later now signals w w') \<and>
     (\<forall>w. \<exists>t w'. precise_time_ns P w = (Ret (of_nat t), w') \<and> later now signals w w' \<and> now w \<le> t \<and> t \<le> now w') \<and>
     (\<forall>d w. \<exists>r w'. nanosleep P d w = (Ret r, w') \<and> later now signals w w' \<and>
        (0 \<le> sint d \<and> sint d < 1000000000 \<longrightarrow>
           (if r = 0 then int (now w) + sint d \<le> int (now w') else signals w < signals w')))"

text \<open>The closure returns: \<open>go\<close> is its answer in a state, \<open>nxt\<close> the state it leaves.\<close>

definition answers ::
  "('w \<Rightarrow> nat) \<Rightarrow> ('w \<Rightarrow> nat) \<Rightarrow> ('s \<Rightarrow> bool) \<Rightarrow> ('s \<Rightarrow> 's) \<Rightarrow> ('s \<Rightarrow> ('w, bool \<times> 's) act) \<Rightarrow> bool" where
  "answers now signals go nxt f \<longleftrightarrow> (\<forall>s w. \<exists>w'. f s w = (Ret (go s, nxt s), w') \<and> later now signals w w')"

lemma later_trans: "later now signals w w' \<Longrightarrow> later now signals w' w'' \<Longrightarrow> later now signals w w''"
  by (auto simp: later_def)

lemma keeps_timeE:
  assumes "keeps_time now signals P"
  obtains w' where "timer_new P w = (Ret (Inr ()), w')" "later now signals w w'"
  using assms unfolding keeps_time_def by blast

lemma clockE:
  assumes "keeps_time now signals P"
  obtains t w' where "precise_time_ns P w = (Ret (of_nat t), w')" "later now signals w w'" "now w \<le> t" "t \<le> now w'"
  using assms unfolding keeps_time_def by blast

lemma sleepE:
  assumes "keeps_time now signals P"
  obtains r w' where "nanosleep P d w = (Ret r, w')" "later now signals w w'"
    "0 \<le> sint d \<and> sint d < 1000000000 \<longrightarrow> int (now w) + sint d \<le> int (now w') \<or> signals w < signals w'"
proof -
  from assms obtain r w' where "nanosleep P d w = (Ret r, w')" "later now signals w w'"
      "0 \<le> sint d \<and> sint d < 1000000000 \<longrightarrow>
         (if r = 0 then int (now w) + sint d \<le> int (now w') else signals w < signals w')"
    unfolding keeps_time_def by blast
  then show thesis by (intro that) (auto split: if_splits)
qed

lemma answersE:
  assumes "answers now signals go nxt f"
  obtains w' where "f s w = (Ret (go s, nxt s), w')" "later now signals w w'"
  using assms unfolding answers_def by blast

lemma loop_round_stop:
  assumes P: "keeps_time now signals P" and f: "answers now signals go nxt f" and "\<not> go s"
  shows "\<exists>w'. loop_round P L f s w = (Ret (False, nxt s), w') \<and> later now signals w w'"
proof -
  obtain t w0 where c: "precise_time_ns P w = (Ret (of_nat t), w0)" "later now signals w w0" by (rule clockE [OF P])
  obtain w1 where "f s w0 = (Ret (go s, nxt s), w1)" "later now signals w0 w1" by (rule answersE [OF f])
  with c assms(3) show ?thesis by (auto simp: loop_round_def abind_def intro: later_trans)
qed

text \<open>A round that goes on lasts its share of time, unless a signal cuts its sleep short.\<close>

lemma loop_round_go:
  assumes P: "keeps_time now signals P" and f: "answers now signals go nxt f" and "go s" and L: "L < 1000000000"
  shows "\<exists>w'. loop_round P (of_nat L) f s w = (Ret (True, nxt s), w') \<and> later now signals w w' \<and>
    (now w' < 2 ^ 63 \<longrightarrow> now w + L \<le> now w' \<or> signals w < signals w')"
proof -
  obtain t0 w0 where c0: "precise_time_ns P w = (Ret (of_nat t0), w0)" "later now signals w w0" "now w \<le> t0" "t0 \<le> now w0"
    by (rule clockE [OF P])
  obtain w1 where f1: "f s w0 = (Ret (go s, nxt s), w1)" "later now signals w0 w1" by (rule answersE [OF f])
  obtain t1 w2 where c1: "precise_time_ns P w1 = (Ret (of_nat t1), w2)" "later now signals w1 w2" "now w1 \<le> t1" "t1 \<le> now w2"
    by (rule clockE [OF P])
  let ?c = "checked_sub (of_nat L) (of_nat t1 - of_nat t0)"
  have le: "t0 \<le> t1" and w2: "later now signals w w2" using c0 f1 c1 by (auto simp: later_def)
  have round: "loop_round P (of_nat L) f s w =
      (case ?c of Some diff \<Rightarrow> abind (nanosleep P diff) (\<lambda>_. ret (True, nxt s)) | None \<Rightarrow> ret (True, nxt s)) w2"
    using c0(1) f1(1) c1(1) assms(3) by (simp add: loop_round_def abind_def split: option.split)
  have diff: "t1 < 2 ^ 63 \<Longrightarrow> \<exists>diff. ?c = Some diff \<and> sint diff = int L - int (t1 - t0)"
    by (rule checked_sub_of_nat) (use L le in simp_all)
  show ?thesis
  proof (cases "?c")
    case None
    with diff c1(4) round w2 show ?thesis by auto
  next
    case (Some d)
    obtain r w' where sl: "nanosleep P d w2 = (Ret r, w')" "later now signals w2 w'"
      and long: "0 \<le> sint d \<and> sint d < 1000000000 \<longrightarrow> int (now w2) + sint d \<le> int (now w') \<or> signals w2 < signals w'"
      by (rule sleepE [OF P, of d w2])
    have w': "later now signals w w'" by (rule later_trans [OF w2 sl(2)])
    have "now w + L \<le> now w' \<or> signals w < signals w'" if "now w' < 2 ^ 63"
      using diff Some that L le long c0(3) c1(4) w2 sl(2) by (cases "0 \<le> sint d") (auto simp: later_def)
    with round Some sl(1) w' show ?thesis by (auto simp: abind_def)
  qed
qed

lemma round_loop_rate:
  assumes "keeps_time now signals P" "answers now signals go nxt f" "L < 1000000000"
  shows "(\<forall>i<n. go ((nxt ^^ i) s)) \<Longrightarrow> \<not> go ((nxt ^^ n) s) \<Longrightarrow>
    \<exists>w'. loop_act (loop_round P (of_nat L) f) s w = Some (Ret ((nxt ^^ Suc n) s), w') \<and> later now signals w w' \<and>
      (now w' < 2 ^ 63 \<longrightarrow> now w + n * L \<le> now w' + (signals w' - signals w) * L)"
proof (induction n arbitrary: s w)
  case 0
  with loop_round_stop [OF assms(1,2), of s "of_nat L" w] show ?case by (auto simp: loop_act_leave later_def)
next
  case (Suc n)
  from Suc.prems have "go s" by auto
  from loop_round_go [OF assms(1,2) this assms(3), of w] obtain w1
    where w1: "loop_round P (of_nat L) f s w = (Ret (True, nxt s), w1)" "later now signals w w1"
      "now w1 < 2 ^ 63 \<longrightarrow> now w + L \<le> now w1 \<or> signals w < signals w1"
    by blast
  have "(nxt ^^ i) (nxt s) = (nxt ^^ Suc i) s" for i by (simp add: funpow_swap1)
  with Suc.prems have "\<forall>i<n. go ((nxt ^^ i) (nxt s))" "\<not> go ((nxt ^^ n) (nxt s))" by auto
  from Suc.IH [OF this, of w1] obtain w' where
    w': "loop_act (loop_round P (of_nat L) f) (nxt s) w1 = Some (Ret ((nxt ^^ Suc n) (nxt s)), w')" "later now signals w1 w'"
      "now w' < 2 ^ 63 \<longrightarrow> now w1 + n * L \<le> now w' + (signals w' - signals w1) * L" by blast
  have "now w + Suc n * L \<le> now w' + (signals w' - signals w) * L" if "now w' < 2 ^ 63"
  proof -
    have l: "later now signals w w1" "later now signals w1 w'" by (fact w1(2) w'(2))+
    then have split: "(signals w' - signals w) * L = (signals w' - signals w1) * L + (signals w1 - signals w) * L"
      by (simp add: later_def flip: add_mult_distrib)
    have "now w1 < 2 ^ 63" using that l by (simp add: later_def)
    with w1(3) have "now w + L \<le> now w1 + (signals w1 - signals w) * L"
    proof (elim impE disjE)
      assume "signals w < signals w1"
      then have "1 * L \<le> (signals w1 - signals w) * L" by (intro mult_le_mono) auto
      with l(1) show ?thesis unfolding later_def by linarith
    qed simp_all
    with w'(3) that split show ?thesis by simp
  qed
  with w1 w' show ?case by (auto simp: loop_act_again funpow_swap1 intro: later_trans)
qed

section \<open>What the loop guarantees\<close>

text \<open>C24. With a timer, and a rate of at least 2 that fits a signed integer (a rate of 0 panics, and a rate of 1
  may ask for a sleep of a whole second, which \<^verbatim>\<open>tv_nsec\<close> does not allow), \<^verbatim>\<open>fixed_loop\<close> calls its closure until
  it answers false and then returns. While the clock stays below \<open>2\<^sup>6\<^sup>3\<close> nanoseconds, \<open>n\<close> calls that ask for more
  take at least \<open>n\<close> times \<open>10\<^sup>9 / rate\<close> nanoseconds, less one share for each signal that cuts a sleep short:
  the result of \<^verbatim>\<open>nanosleep\<close> is not looked at, and the rest of an interrupted sleep is not slept.\<close>

theorem fixed_loop_rate_limit:
  assumes "keeps_time now signals P" "answers now signals go nxt f" "2 \<le> rate" "rate < 2 ^ 63"
    and "\<forall>i<n. go ((nxt ^^ i) s)" "\<not> go ((nxt ^^ n) s)"
  shows "\<exists>w'. fixed_loop P (of_nat rate) f s w = Some (Ret ((nxt ^^ Suc n) s), w') \<and>
    (now w' < 2 ^ 63 \<longrightarrow>
      now w + n * (1000000000 div rate) \<le> now w' + (signals w' - signals w) * (1000000000 div rate))"
proof -
  let ?L = "1000000000 div rate"
  have "?L \<le> 1000000000 div 2" by (rule div_le_mono2) (use assms(3) in simp_all)
  then have L: "?L < 1000000000" by simp
  obtain w0 where tm: "timer_new P w = (Ret (Inr ()), w0)" "later now signals w w0" by (rule keeps_timeE [OF assms(1)])
  have "fixed_loop P (of_nat rate) f s w = loop_act (loop_round P (of_nat ?L) f) s w0"
    using assms(3,4) tm(1) by (simp add: fixed_loop_def pbind_def loop_time_of_nat)
  moreover obtain w' where w': "loop_act (loop_round P (of_nat ?L) f) s w0 = Some (Ret ((nxt ^^ Suc n) s), w')"
      "later now signals w0 w'" "now w' < 2 ^ 63 \<longrightarrow> now w0 + n * ?L \<le> now w' + (signals w' - signals w0) * ?L"
    using round_loop_rate [OF assms(1,2) L assms(5,6), of w0] by blast
  moreover have "(signals w' - signals w0) * ?L \<le> (signals w' - signals w) * ?L"
    using tm(2) by (intro mult_le_mono) (auto simp: later_def)
  ultimately have "now w' < 2 ^ 63 \<longrightarrow> now w + n * ?L \<le> now w' + (signals w' - signals w) * ?L"
    using tm(2) unfolding later_def by linarith
  with \<open>fixed_loop P (of_nat rate) f s w = _\<close> w'(1) show ?thesis by auto
qed

text \<open>A platform whose world is the time, the number of signals so far, and how many sleeps the next signals leave
  alone; its clock takes a nanosecond to read.\<close>

definition sample_platform :: "(nat \<times> nat \<times> nat list) platform" where
  "sample_platform = \<lparr>timer_new = ret (Inr ()), precise_time_ns = (\<lambda>(t, k, is). (Ret (of_nat t), Suc t, k, is)),
     nanosleep = (\<lambda>d (t, k, is). case is of
         0 # is' \<Rightarrow> (Ret (- 1), t, Suc k, is')
       | Suc i # is' \<Rightarrow> (Ret 0, t + nat (sint d), k, i # is')
       | [] \<Rightarrow> (Ret 0, t + nat (sint d), k, []))\<rparr>"

lemma sample_platform_sleep:
  "\<exists>r w'. nanosleep sample_platform d w = (Ret r, w') \<and> later fst (\<lambda>w. fst (snd w)) w w' \<and>
    (0 \<le> sint d \<and> sint d < 1000000000 \<longrightarrow>
       (if r = 0 then int (fst w) + sint d \<le> int (fst w') else fst (snd w) < fst (snd w')))"
proof (cases w)
  case (fields t k "is")
  then show ?thesis
    by (cases "is" rule: list.exhaust; cases "hd is") (simp_all add: later_def sample_platform_def)
qed

lemma sample_platform_keeps_time: "keeps_time fst (\<lambda>w. fst (snd w)) sample_platform"
proof -
  have "\<exists>t w'. precise_time_ns sample_platform w = (Ret (of_nat t), w') \<and> later fst (\<lambda>w. fst (snd w)) w w' \<and>
      fst w \<le> t \<and> t \<le> fst w'" for w
    by (cases w) (auto simp: later_def sample_platform_def)
  moreover have "\<exists>w'. timer_new sample_platform w = (Ret (Inr ()), w') \<and> later fst (\<lambda>w. fst (snd w)) w w'" for w
    by (simp add: later_def sample_platform_def)
  ultimately show ?thesis unfolding keeps_time_def by (intro conjI allI sample_platform_sleep)
qed

theorem fixed_loop_rate_limit_witness:
  "\<exists>w'. fixed_loop sample_platform 100 (\<lambda>s (t, k, is). (Ret (s \<noteq> [], tl s), t + 5, k, is)) [(), (), ()] (0, 0, [1]) =
      Some (Ret [], w') \<and>
    (fst w' < 2 ^ 63 \<longrightarrow> 30000000 \<le> fst w' + fst (snd w') * 10000000)"
  using fixed_loop_rate_limit [OF sample_platform_keeps_time, of "\<lambda>s. s \<noteq> []" tl
      "\<lambda>s (t, k, is). (Ret (s \<noteq> [], tl s), t + 5, k, is)" 100 "Suc (Suc (Suc 0))" "[(), (), ()]" "(0, 0, [1])"]
  by (simp add: answers_def later_def less_Suc_eq)

text \<open>C40. A pass that takes longer than its share still sleeps: the subtraction is only checked for
  overflow, so \<^verbatim>\<open>nanosleep\<close> is called with a negative number of nanoseconds.\<close>

theorem fixed_loop_negative_sleep:
  assumes "precise_time_ns P w = (Ret (of_nat t0), w0)" "f s w0 = (Ret (True, s'), w1)"
    and "precise_time_ns P w1 = (Ret (of_nat t1), w2)" "L < 2 ^ 62" "t0 + L < t1" "t1 < 2 ^ 63"
  shows "\<exists>d. sint d < 0 \<and> loop_round P (of_nat L) f s w = abind (nanosleep P d) (\<lambda>_. ret (True, s')) w2"
proof -
  from checked_sub_of_nat [of L t0 t1] assms obtain d
    where "checked_sub (of_nat L) (of_nat t1 - of_nat t0) = Some d" "sint d < 0" by auto
  with assms(1-3) show ?thesis by (intro exI [of _ d]) (simp add: loop_round_def abind_Ret)
qed

theorem fixed_loop_negative_sleep_witness:
  "\<exists>d. sint d < 0 \<and> loop_round sample_platform (of_nat 10) (\<lambda>s (t, k, is). (Ret (True, s), t + 25, k, is)) () (0, 0, []) =
     abind (nanosleep sample_platform d) (\<lambda>_. ret (True, ())) (27, 0, [])"
  using fixed_loop_negative_sleep [of sample_platform "(0, 0, [])" 0 "(1, 0, [])"
      "\<lambda>s (t, k, is). (Ret (True, s), t + 25, k, is)" "()" "()" "(26, 0, [])" 26 "(27, 0, [])" 10]
  by (simp add: sample_platform_def)

end
