(* ===== verification/Rx_Protocol.thy ===== *)
theory Rx_Protocol
  imports Rx_Prelude
begin

text \<open>
  The framing protocols: the \<^verbatim>\<open>Protocol\<close> trait and \<^verbatim>\<open>BufProtocol\<close> of \<^verbatim>\<open>src/protocol.rs\<close>, the
  \<^verbatim>\<open>protocol_size!\<close> macro of \<^verbatim>\<open>src/default_macros.rs\<close>, and \<^verbatim>\<open>U64Protocol\<close> of the test of
  \<^verbatim>\<open>src/net_stream.rs\<close>. A protocol looks at the bytes that have arrived and cuts one item off the
  front, or says that there are not enough.

  Buffers are those of the \<^verbatim>\<open>iobuf\<close> crate: the operations the code calls are the record \<open>iobuf\<close>, and
  what is expected of them is \<open>iobuf_ok\<close>. \<open>framing\<close> is the contract between a protocol and the
  connection that drives it.
\<close>

section \<open>Buffers\<close>

record 'b iobuf =
  iobuf_len :: "'b \<Rightarrow> u32"
  iobuf_split_at :: "'b \<Rightarrow> u32 \<Rightarrow> unit + 'b \<times> 'b"
  iobuf_window :: "'b \<Rightarrow> u8 list"
  iobuf_advance :: "'b \<Rightarrow> u32 \<Rightarrow> unit + 'b"

text \<open>
  The window of a buffer is the bytes it stands for; \<^verbatim>\<open>len\<close> counts them, \<^verbatim>\<open>split_at\<close> cuts them in two
  and \<^verbatim>\<open>advance\<close> drops some from the front, and both fail when there are not enough.
\<close>

definition iobuf_ok :: "'b iobuf \<Rightarrow> bool" where
  "iobuf_ok I \<longleftrightarrow>
     (\<forall>b. length (iobuf_window I b) < 2 ^ 32 \<and> iobuf_len I b = of_nat (length (iobuf_window I b))) \<and>
     (\<forall>b n. unat n \<le> length (iobuf_window I b) \<longrightarrow> (\<exists>x y. iobuf_split_at I b n = Inr (x, y) \<and>
        iobuf_window I x = take (unat n) (iobuf_window I b) \<and> iobuf_window I y = drop (unat n) (iobuf_window I b))) \<and>
     (\<forall>b n. unat n \<le> length (iobuf_window I b) \<longrightarrow> (\<exists>x. iobuf_advance I b n = Inr x \<and>
        iobuf_window I x = drop (unat n) (iobuf_window I b)))"

lemma unat_of_nat32: "n < 2 ^ 32 \<Longrightarrow> unat (of_nat n :: u32) = n"
  by (simp add: unat_of_nat take_bit_nat_eq_self)

lemma iobuf_len_unat: "iobuf_ok I \<Longrightarrow> unat (iobuf_len I b) = length (iobuf_window I b)"
  by (simp add: iobuf_ok_def unat_of_nat32)

lemma iobuf_splitE:
  assumes "iobuf_ok I" "unat n \<le> length (iobuf_window I b)"
  obtains x y where "iobuf_split_at I b n = Inr (x, y)"
    "iobuf_window I x = take (unat n) (iobuf_window I b)" "iobuf_window I y = drop (unat n) (iobuf_window I b)"
  using assms unfolding iobuf_ok_def by blast

lemma iobuf_advanceE:
  assumes "iobuf_ok I" "unat n \<le> length (iobuf_window I b)"
  obtains x where "iobuf_advance I b n = Inr x" "iobuf_window I x = drop (unat n) (iobuf_window I b)"
  using assms unfolding iobuf_ok_def by blast

definition unwrap_unit :: "unit + 'a \<Rightarrow> ('w, 'a) act" where
  "unwrap_unit r = (case r of Inl _ \<Rightarrow> panic ''called Result::unwrap() on an Err value: ()'' | Inr a \<Rightarrow> ret a)"

section \<open>Protocols\<close>

text \<open>\<^verbatim>\<open>append\<close> gives the item, what is left of the buffer and the number of bytes consumed.\<close>

record ('w, 'p, 'b, 'o) protocol =
  proto_new :: 'p
  append_buf :: "'p \<Rightarrow> 'b \<Rightarrow> ('w, ('o \<times> 'b \<times> u32) option \<times> 'p) act"

record has_size =
  hs_size :: u32

definition protocol_size :: "u32 \<Rightarrow> has_size" where
  "protocol_size value = \<lparr>hs_size = value\<rparr>"

definition BufProtocol_append ::
  "'b iobuf \<Rightarrow> has_size \<Rightarrow> unit \<Rightarrow> 'b \<Rightarrow> ('w, ('b \<times> 'b \<times> u32) option \<times> unit) act" where
  "BufProtocol_append I S self buf =
     (let bufsz = hs_size S in
      if iobuf_len I buf \<ge> bufsz
      then abind (unwrap_unit (iobuf_split_at I buf bufsz)) (\<lambda>(a, b). ret (Some (a, b, bufsz), self))
      else ret (None, self))"

definition BufProtocol :: "'b iobuf \<Rightarrow> has_size \<Rightarrow> ('w, unit, 'b, 'b) protocol" where
  "BufProtocol I S = \<lparr>proto_new = (), append_buf = BufProtocol_append I S\<rparr>"

text \<open>The cast of the first eight bytes to \<^verbatim>\<open>u64\<close> on a little-endian machine.\<close>

definition le_u64 :: "u8 list \<Rightarrow> u64" where
  "le_u64 bs = foldr (\<lambda>b acc. ucast b + 256 * acc) (take 8 bs) 0"

definition U64Protocol_append ::
  "'b iobuf \<Rightarrow> unit \<Rightarrow> 'b \<Rightarrow> ('w, (u64 \<times> 'b \<times> u32) option \<times> unit) act" where
  "U64Protocol_append I self buf =
     (if iobuf_len I buf \<ge> 8
      then abind (unwrap_unit (iobuf_split_at I buf 8)) (\<lambda>(a, b). ret (Some (le_u64 (iobuf_window I a), b, 8), self))
      else ret (None, self))"

definition U64Protocol :: "'b iobuf \<Rightarrow> ('w, unit, 'b, u64) protocol" where
  "U64Protocol I = \<lparr>proto_new = (), append_buf = U64Protocol_append I\<rparr>"

section \<open>The contract of a protocol\<close>

text \<open>
  What a protocol does is cut the window with a function \<open>parse\<close>; \<open>item\<close> reads an item off what \<^verbatim>\<open>append\<close>
  returns. An item takes at least one byte, which is what ends the loop of the connection.
\<close>

locale framing =
  fixes P :: "('w, 'p, 'b, 'o) protocol" and fits :: "'b \<Rightarrow> bool" and window :: "'b \<Rightarrow> u8 list"
    and item :: "'o \<Rightarrow> 'i" and parse :: "u8 list \<Rightarrow> ('i \<times> nat) option"
  assumes append_short: "fits b \<Longrightarrow> parse (window b) = None \<Longrightarrow> append_buf P p b w = (Ret (None, p), w)"
    and append_item: "fits b \<Longrightarrow> parse (window b) = Some (i, n) \<Longrightarrow>
      \<exists>x b'. append_buf P p b w = (Ret (Some (x, b', of_nat n), p), w) \<and> item x = i \<and>
        window b' = drop n (window b) \<and> fits b'"
    and parse_consumes: "fits b \<Longrightarrow> parse (window b) = Some (i, n) \<Longrightarrow> 0 < n \<and> n \<le> length (window b)"

text \<open>All the items of a stretch of bytes, and what is left at the end.\<close>

function parse_all :: "(u8 list \<Rightarrow> ('i \<times> nat) option) \<Rightarrow> u8 list \<Rightarrow> 'i list \<times> u8 list" where
  "parse_all parse xs = (case parse xs of
     None \<Rightarrow> ([], xs)
   | Some (i, n) \<Rightarrow> if 0 < n \<and> n \<le> length xs
       then (case parse_all parse (drop n xs) of (is, rest) \<Rightarrow> (i # is, rest)) else ([], xs))"
  by pat_completeness auto
termination by (relation "measure (\<lambda>(_, xs). length xs)") auto

declare parse_all.simps [simp del]

definition fixed_parse :: "nat \<Rightarrow> (u8 list \<Rightarrow> 'i) \<Rightarrow> u8 list \<Rightarrow> ('i \<times> nat) option" where
  "fixed_parse k f xs = (if k \<le> length xs then Some (f (take k xs), k) else None)"

interpretation buf_framing: framing "BufProtocol I S" "\<lambda>b. iobuf_ok I \<and> 0 < hs_size S" "iobuf_window I" "iobuf_window I"
  "fixed_parse (unat (hs_size S)) (\<lambda>xs. xs)" for I :: "'b iobuf" and S
proof unfold_locales
  fix b :: 'b and p and w :: 'w
  assume *: "iobuf_ok I \<and> 0 < hs_size S"
  then have len: "hs_size S \<le> iobuf_len I b \<longleftrightarrow> unat (hs_size S) \<le> length (iobuf_window I b)"
    by (simp add: word_le_nat_alt iobuf_len_unat)
  { assume "fixed_parse (unat (hs_size S)) (\<lambda>xs. xs) (iobuf_window I b) = None"
    with len show "append_buf (BufProtocol I S) p b w = (Ret (None, p), w)"
      by (auto simp: fixed_parse_def BufProtocol_def BufProtocol_append_def Let_def split: if_splits) }
  { fix i n assume pr: "fixed_parse (unat (hs_size S)) (\<lambda>xs. xs) (iobuf_window I b) = Some (i, n)"
    then have n: "n = unat (hs_size S)" "n \<le> length (iobuf_window I b)" "i = take n (iobuf_window I b)"
      by (auto simp: fixed_parse_def split: if_splits)
    then obtain x y where "iobuf_split_at I b (hs_size S) = Inr (x, y)"
      "iobuf_window I x = take n (iobuf_window I b)" "iobuf_window I y = drop n (iobuf_window I b)"
      using iobuf_splitE [of I "hs_size S" b] * by auto
    with n len * show "\<exists>x b'. append_buf (BufProtocol I S) p b w = (Ret (Some (x, b', of_nat n), p), w) \<and>
        iobuf_window I x = i \<and> iobuf_window I b' = drop n (iobuf_window I b) \<and> iobuf_ok I \<and> 0 < hs_size S"
      by (auto simp: BufProtocol_def BufProtocol_append_def Let_def unwrap_unit_def)
    from n * show "0 < n \<and> n \<le> length (iobuf_window I b)" by (auto simp: word_less_nat_alt) }
qed

interpretation u64_framing: framing "U64Protocol I" "\<lambda>b. iobuf_ok I" "iobuf_window I" "\<lambda>x. x"
  "fixed_parse 8 le_u64" for I :: "'b iobuf"
proof unfold_locales
  fix b :: 'b and p and w :: 'w
  assume *: "iobuf_ok I"
  then have len: "8 \<le> iobuf_len I b \<longleftrightarrow> 8 \<le> length (iobuf_window I b)"
    by (simp add: word_le_nat_alt iobuf_len_unat)
  { assume "fixed_parse 8 le_u64 (iobuf_window I b) = None"
    with len show "append_buf (U64Protocol I) p b w = (Ret (None, p), w)"
      by (auto simp: fixed_parse_def U64Protocol_def U64Protocol_append_def split: if_splits) }
  { fix i n assume "fixed_parse 8 le_u64 (iobuf_window I b) = Some (i, n)"
    then have n: "n = 8" "8 \<le> length (iobuf_window I b)" "i = le_u64 (take 8 (iobuf_window I b))"
      by (auto simp: fixed_parse_def split: if_splits)
    then obtain x y where "iobuf_split_at I b 8 = Inr (x, y)"
      "iobuf_window I x = take 8 (iobuf_window I b)" "iobuf_window I y = drop 8 (iobuf_window I b)"
      using iobuf_splitE [of I 8 b] * by auto
    with n len * show "\<exists>x b'. append_buf (U64Protocol I) p b w = (Ret (Some (x, b', of_nat n), p), w) \<and>
        x = i \<and> iobuf_window I b' = drop n (iobuf_window I b) \<and> iobuf_ok I"
      by (auto simp: U64Protocol_def U64Protocol_append_def unwrap_unit_def)
    from n show "0 < n \<and> n \<le> length (iobuf_window I b)" by auto }
qed

section \<open>A buffer library\<close>

text \<open>Buffers as lists of bytes, which meets the contract: it can be met.\<close>

definition sample_window :: "u8 list \<Rightarrow> u8 list" where
  "sample_window b = take 4294967295 b"

definition sample_iobuf :: "u8 list iobuf" where
  "sample_iobuf =
     \<lparr>iobuf_len = (\<lambda>b. of_nat (length (sample_window b))),
      iobuf_split_at = (\<lambda>b n. if unat n \<le> length (sample_window b)
        then Inr (take (unat n) (sample_window b), drop (unat n) (sample_window b)) else Inl ()),
      iobuf_window = sample_window,
      iobuf_advance = (\<lambda>b n. if unat n \<le> length (sample_window b) then Inr (drop (unat n) (sample_window b)) else Inl ())\<rparr>"

lemma sample_iobuf_ok [simp]: "iobuf_ok sample_iobuf"
  by (auto simp: iobuf_ok_def sample_iobuf_def sample_window_def min_def)

end
