(* ===== verification/Rx_Net_Stream.thy ===== *)
theory Rx_Net_Stream
  imports Rx_Pipelines
begin

text \<open>
  The messages between the program and its event loop (\<^verbatim>\<open>StreamBuf\<close> and \<^verbatim>\<open>ProtoMsg\<close> of \<^verbatim>\<open>src/reactor.rs\<close>)
  and the stream that stands for a connection, \<^verbatim>\<open>NetStream\<close> and \<^verbatim>\<open>NetStreamer\<close> of \<^verbatim>\<open>src/net_stream.rs\<close>:
  what is sent to it goes to the event loop, what it publishes are the messages of the connection.
  The event loop's sender belongs to \<^verbatim>\<open>mio\<close>; its \<^verbatim>\<open>send\<close> is the parameter \<open>el_send\<close>.
\<close>

section \<open>Messages\<close>

datatype Token = Token usize

datatype 'b StreamBuf = StreamBuf (sb_buf: 'b) (sb_tok: Token)

datatype 'o ProtoMsg = ProtoMsg (pm_item: 'o) (pm_tok: Token)

text \<open>The copy of a message shares its bytes: \<open>aro_clone\<close> is the \<^verbatim>\<open>clone\<close> of the buffer.\<close>

definition StreamBuf_clone :: "('b \<Rightarrow> 'b) \<Rightarrow> 'b StreamBuf \<Rightarrow> 'b StreamBuf" where
  "StreamBuf_clone aro_clone self = StreamBuf (aro_clone (sb_buf self)) (sb_tok self)"

section \<open>The stream of a connection\<close>

record 'q NetStream =
  dtx :: 'q
  drx :: chan_id
  tok :: Token

definition NetStream_new :: "Token \<Rightarrow> chan_id \<Rightarrow> 'q \<Rightarrow> 'q NetStream" where
  "NetStream_new t rx tx = \<lparr>dtx = tx, drx = rx, tok = t\<rparr>"

record ('q, 's) NetStreamer =
  stream :: "'q NetStream"
  NetStreamer_subscriber :: "'s option"

text \<open>As a subscriber: every buffer leaves under the token of the stream, whatever token it came with.\<close>

definition NetStreamer_on_next ::
  "('q \<Rightarrow> 'b StreamBuf \<Rightarrow> ('w, 'b StreamBuf + unit) act) \<Rightarrow> ('q, 's) NetStreamer \<Rightarrow> 'b StreamBuf
   \<Rightarrow> ('w, bool \<times> ('q, 's) NetStreamer) act" where
  "NetStreamer_on_next el_send self m = (case m of StreamBuf buf _ \<Rightarrow>
     abind (el_send (dtx (stream self)) (StreamBuf buf (tok (stream self)))) (\<lambda>r. case r of
        Inr _ \<Rightarrow> ret (True, self)
      | Inl _ \<Rightarrow> ret (False, self)))"

definition NetStreamer_Subscriber ::
  "('q \<Rightarrow> 'b StreamBuf \<Rightarrow> ('w, 'b StreamBuf + unit) act) \<Rightarrow> ('w, ('q, 's) NetStreamer, 'b StreamBuf) subscriber" where
  "NetStreamer_Subscriber el_send =
     \<lparr>on_next = NetStreamer_on_next el_send,
      on_subscribe = Subscriber_on_subscribe,
      on_error = Subscriber_on_error,
      on_complete = Subscriber_on_complete\<rparr>"

text \<open>As a publisher: the messages of the connection, until all its senders are gone.\<close>

definition NetStreamer_subscribe ::
  "('w, 's, 'o ProtoMsg) subscriber \<Rightarrow> ('q, 's) NetStreamer \<Rightarrow> 's \<Rightarrow> ('w, ('q, 's) NetStreamer) act" where
  "NetStreamer_subscribe S self s =
     abind (on_subscribe S s 0) (\<lambda>s'. ret (self\<lparr>NetStreamer_subscriber := Some s'\<rparr>))"

definition NetStreamer_next ::
  "(('o ProtoMsg, 'z) world_scheme, 's, 'o ProtoMsg) subscriber \<Rightarrow> ('q, 's) NetStreamer
   \<Rightarrow> (('o ProtoMsg, 'z) world_scheme, bool \<times> ('q, 's) NetStreamer) act" where
  "NetStreamer_next S self = (case NetStreamer_subscriber self of
      Some s \<Rightarrow> abind (Receiver_recv (drx (stream self))) (\<lambda>r. case r of
          Inr d \<Rightarrow> abind (on_next S s d) (\<lambda>(b, s'). ret (b, self\<lparr>NetStreamer_subscriber := Some s'\<rparr>))
        | Inl _ \<Rightarrow> abind (on_complete S s False) (\<lambda>s'. ret (False, self\<lparr>NetStreamer_subscriber := Some s'\<rparr>)))
    | None \<Rightarrow> ret (False, self))"

definition NetStreamer_Publisher ::
  "(('o ProtoMsg, 'z) world_scheme, 's, 'o ProtoMsg) subscriber
   \<Rightarrow> (('o ProtoMsg, 'z) world_scheme, ('q, 's) NetStreamer, 's) publisher" where
  "NetStreamer_Publisher S =
     \<lparr>subscribe = NetStreamer_subscribe S, pub_next = NetStreamer_next S, try_next = Publisher_try_next\<rparr>"

lemmas NetStreamer_impls [trait_defs] = NetStreamer_Subscriber_def NetStreamer_Publisher_def
  NetStreamer_on_next_def NetStreamer_subscribe_def NetStreamer_next_def

section \<open>The stream as a coupler and as a decoupler\<close>

definition as_coupler :: "('q, 's) NetStreamer \<Rightarrow> 's Coupler" where
  "as_coupler n = \<lparr>Coupler_data_rx = drx (stream n), Coupler_subscriber = NetStreamer_subscriber n\<rparr>"

lemma NetStreamer_next_coupler:
  "Coupler_next S (as_coupler n) w = map_prod (map_outcome (map_prod id as_coupler)) id (NetStreamer_next S n w)"
  by (auto simp: Coupler_next_def NetStreamer_next_def as_coupler_def abind_def
      split: option.splits prod.splits outcome.splits sum.splits)

text \<open>C21. \<^verbatim>\<open>run\<close> on a \<^verbatim>\<open>NetStreamer\<close> is \<^verbatim>\<open>run\<close> on a \<^verbatim>\<open>Coupler\<close> on the queue of its connection: it returns, panics, waits
  or goes on for ever in the same cases, with the same subscriber and the same world at the end.\<close>

theorem NetStreamer_run_as_coupler:
  "run (Coupler_Publisher S) (as_coupler n) w =
     map_option (map_prod (map_outcome as_coupler) id) (run (NetStreamer_Publisher S) n w)"
  using loop_act_map [where h = as_coupler and ?b1.0 = "Coupler_next S" and ?b2.0 = "NetStreamer_next S", OF NetStreamer_next_coupler]
  by (simp add: run_def Coupler_Publisher_def NetStreamer_Publisher_def)

section \<open>The receiving half of the test\<close>

text \<open>The chain that \<^verbatim>\<open>oneway_test\<close> runs on the queue of its server: \<^verbatim>\<open>Coupler\<close>, \<^verbatim>\<open>Take(5)\<close>, \<^verbatim>\<open>Map\<close>, \<^verbatim>\<open>Collect\<close>.\<close>

definition oneway_receive ::
  "chan_id \<Rightarrow> (('o ProtoMsg, 'z) world_scheme,
     (('o ProtoMsg, 'z) world_scheme, 'o ProtoMsg, 'o, 'o Collect) Map_Proc Take Coupler) act" where
  "oneway_receive srv_rx =
     abind (Map_subscribe Collect_Subscriber (Map_new (\<lambda>m. ret (pm_item m))) (Collect_new [])) (\<lambda>map3.
     abind (Take_subscribe (Map_Subscriber Collect_Subscriber) (Take_new 5) map3) (\<lambda>take.
     Coupler_subscribe (Take_Subscriber (Map_Subscriber Collect_Subscriber)) (Coupler_new srv_rx) take))"

definition oneway_vec :: "('w, 'i, 'o, 'o Collect) Map_Proc Take Coupler \<Rightarrow> 'o list" where
  "oneway_vec p = Collect_val (the (Map_subscriber (the (Take_subscriber (the (Coupler_subscriber p))))))"

text \<open>With the vector it fills and the assertion on it.\<close>

definition oneway_collect :: "chan_id \<Rightarrow> ((u64 ProtoMsg, 'z) world_scheme, unit) pact" where
  "oneway_collect srv_rx =
     pbind (once (oneway_receive srv_rx)) (\<lambda>recv.
     pbind (run (Coupler_Publisher (Take_Subscriber (Map_Subscriber Collect_Subscriber))) recv) (\<lambda>recv.
     once (assert_that (oneway_vec recv = [5, 5, 5, 5, 5]))))"

lemma oneway_refines:
  "Subscriber_refines (Take_Subscriber (Map_Subscriber Collect_Subscriber))
     (\<lambda>p w. Take_max p = mx \<and> (\<exists>m. Take_subscriber p = Some m \<and>
        (Map_fun m = (\<lambda>x. ret (f x)) \<and> (\<exists>c. Map_subscriber m = Some c \<and> True))))
     (\<lambda>p w. (Take_count p, ((), Collect_val (the (Map_subscriber (the (Take_subscriber p)))))))
     (take_next mx (lift_next (\<lambda>k x. (f x, k)) (sink_next (\<lambda>x. x))) (lift_keep ignore)) (lift_keep (lift_keep ignore)) (lift_keep (lift_keep ignore))"
  by (rule Take_refines [OF map_stage.stage_refines [OF collect.Subscriber_refines_axioms]]) simp_all

lemma a_feed_map_sink: "a_feed (lift_next (\<lambda>k x. (f x, ())) (sink_next (\<lambda>x. x))) ((), v) xs = (True, ((), v @ map f xs))"
  by (induction xs arbitrary: v) (simp_all add: lift_next_def lift_eff_def sink_next_def Let_def)

lemma oneway_drain:
  fixes f :: "'a \<Rightarrow> 'b"
  defines "nx \<equiv> take_next 5 (lift_next (\<lambda>k x. (f x, k)) (sink_next (\<lambda>x. x))) (lift_keep ignore)"
  shows "snd (snd (a_drain nx (lift_keep (lift_keep ignore)) (0, ((), [])) xs)) = map f (take 5 xs)"
    and "5 < length xs \<Longrightarrow> \<not> fst (a_feed nx (0, ((), [])) xs)"
proof -
  let ?nx = "lift_next (\<lambda>k x. (f x, k)) (sink_next (\<lambda>x. x))"
  have within: "length xs \<le> 5 \<Longrightarrow> snd (snd (a_feed nx (0, ((), [])) xs)) = ((), map f xs)"
    using a_feed_take_within [of xs 5 0 5 ?nx "lift_keep ignore" "((), [])"] by (simp add: nx_def a_feed_map_sink prod_eq_iff)
  have over: "5 < length xs \<Longrightarrow> \<not> fst (a_feed nx (0, ((), [])) xs) \<and> snd (snd (a_feed nx (0, ((), [])) xs)) = ((), map f (take 5 xs))"
    using a_feed_take_over [of 5 xs 0 5 ?nx "lift_keep ignore" "((), [])"] by (simp add: nx_def a_feed_map_sink prod_eq_iff)
  show "snd (snd (a_drain nx (lift_keep (lift_keep ignore)) (0, ((), [])) xs)) = map f (take 5 xs)"
    using within over by (cases "length xs \<le> 5") (auto simp: a_drain_def lift_keep_def Let_def split: prod.splits)
  show "5 < length xs \<Longrightarrow> \<not> fst (a_feed nx (0, ((), [])) xs)" using over by blast
qed

lemma oneway_aloof:
  "aloof q (Take_Subscriber (Map_Subscriber Collect_Subscriber))
     (\<lambda>p w. Take_max p = 5 \<and> (\<exists>m. Take_subscriber p = Some m \<and>
        (Map_fun m = (\<lambda>x. ret (pm_item x)) \<and> (\<exists>c. Map_subscriber m = Some c \<and> True))))
     (\<lambda>p w. (Take_count p, ((), Collect_val (the (Map_subscriber (the (Take_subscriber p)))))))"
  by (auto simp: aloof_def trait_defs Let_def)

lemma oneway_receive_Ret:
  assumes "oneway_receive q w = (Ret p, w0)"
  obtains t where "p = \<lparr>Coupler_data_rx = q, Coupler_subscriber = Some t\<rparr>" "w0 = w" "Take_max t = 5" "Take_count t = 0"
    "Take_subscriber t = Some (Map_new (\<lambda>m. ret (pm_item m))\<lparr>Map_subscriber := Some (Collect_new []), Map_index := Some 0\<rparr>)"
  using assms by (auto simp: oneway_receive_def trait_defs processor_news Collect_new_def Coupler_new_def)

lemma oneway_receive_run:
  assumes "oneway_receive q w = (Ret p, w0)" "ch_buf (chans w q) = msgs" "5 < length msgs \<or> ch_senders (chans w q) = 0"
  shows "\<exists>p' w'. run (Coupler_Publisher (Take_Subscriber (Map_Subscriber Collect_Subscriber))) p w0 = Some (Ret p', w') \<and>
    oneway_vec p' = map pm_item (take 5 msgs)"
proof -
  obtain t where p: "p = \<lparr>Coupler_data_rx = q, Coupler_subscriber = Some t\<rparr>" "w0 = w"
    and t: "Take_max t = 5" "Take_count t = 0" "Take_subscriber t = Some (Map_new (\<lambda>m. ret (pm_item m))
      \<lparr>Map_subscriber := Some (Collect_new []), Map_index := Some 0\<rparr>)"
    by (rule oneway_receive_Ret [OF assms(1)])
  from Coupler_run_refines [OF oneway_refines oneway_aloof, where s = t and w = w and xs = msgs and p = p]
  show ?thesis using p t assms(2,3) oneway_drain [where f = pm_item and xs = msgs]
    by (auto simp: Map_new_def Collect_new_def oneway_vec_def prod_eq_iff)
qed

lemma oneway_receive_starts: "\<exists>p. oneway_receive q w = (Ret p, w)"
  by (simp add: oneway_receive_def trait_defs processor_news)

text \<open>So the assertion is reached, and decides, when a sixth message has come or the senders are gone \<dots>\<close>

lemma oneway_collect_decides:
  assumes "ch_buf (chans w q) = msgs" "5 < length msgs \<or> ch_senders (chans w q) = 0"
  shows "\<exists>w'. oneway_collect q w =
    Some (if map pm_item (take 5 msgs) = [5, 5, 5, 5, 5] then Ret () else Panic ''assertion failed'', w')"
proof -
  obtain p where p: "oneway_receive q w = (Ret p, w)" using oneway_receive_starts by blast
  from oneway_receive_run [OF p assms] p show ?thesis
    by (auto simp: oneway_collect_def pbind_Ret assert_that_def panic_def)
qed

text \<open>\<dots> and not reached when the five messages are there, and a sender with them.\<close>

lemma oneway_collect_waits:
  assumes "length (ch_buf (chans w q)) \<le> 5" "ch_senders (chans w q) \<noteq> 0"
  shows "\<exists>w'. oneway_collect q w = Some (Blocked, w') \<and> ch_buf (chans w' q) = []"
proof -
  obtain p where p: "oneway_receive q w = (Ret p, w)" using oneway_receive_starts by blast
  obtain t where t: "p = \<lparr>Coupler_data_rx = q, Coupler_subscriber = Some t\<rparr>" "w = w" "Take_max t = 5" "Take_count t = 0"
    "Take_subscriber t = Some (Map_new (\<lambda>m. ret (pm_item m))\<lparr>Map_subscriber := Some (Collect_new []), Map_index := Some 0\<rparr>)"
    by (rule oneway_receive_Ret [OF p])
  have "fst (a_feed (take_next 5 (lift_next (\<lambda>k x. (pm_item x, k)) (sink_next (\<lambda>x. x))) (lift_keep ignore)) (0, ((), [])) (ch_buf (chans w q)))"
    using a_feed_take_within [of "ch_buf (chans w q)" 5 0 5 "lift_next (\<lambda>k x. (pm_item x, k)) (sink_next (\<lambda>x. x))" "lift_keep ignore" "((), [])"]
      assms(1) by (simp add: a_feed_map_sink prod_eq_iff)
  with Coupler_run_waits [OF oneway_refines oneway_aloof, where s = t and w = w and xs = "ch_buf (chans w q)" and p = p] t assms(2)
  have "\<exists>w'. run (Coupler_Publisher (Take_Subscriber (Map_Subscriber Collect_Subscriber))) p w = Some (Blocked, w') \<and> ch_buf (chans w' q) = []"
    by (auto simp: Map_new_def Collect_new_def)
  with p show ?thesis by (auto simp: oneway_collect_def pbind_def)
qed

text \<open>The receiving half of \<^verbatim>\<open>oneway_test\<close>: when at least six messages wait in the queue, or its senders
  are gone, \<^verbatim>\<open>run\<close> returns and the vector holds the items of the first five, in order.\<close>

theorem oneway_receives_five:
  assumes "oneway_receive q w = (Ret p, w0)" "ch_buf (chans w q) = msgs" "5 < length msgs \<or> ch_senders (chans w q) = 0"
  shows "\<exists>p' w'. run (Coupler_Publisher (Take_Subscriber (Map_Subscriber Collect_Subscriber))) p w0 = Some (Ret p', w') \<and>
    oneway_vec p' = map pm_item (take 5 msgs)"
  by (rule oneway_receive_run [OF assms])

theorem oneway_receives_five_witness:
  "\<exists>p p' w'. oneway_receive 2 \<lparr>stdout = [], chans = (\<lambda>_. (sync_queue 16)\<lparr>ch_buf := replicate 6 (ProtoMsg (5 :: u64) (Token 1))\<rparr>)\<rparr> =
      (Ret p, \<lparr>stdout = [], chans = (\<lambda>_. (sync_queue 16)\<lparr>ch_buf := replicate 6 (ProtoMsg 5 (Token 1))\<rparr>)\<rparr>) \<and>
    run (Coupler_Publisher (Take_Subscriber (Map_Subscriber Collect_Subscriber))) p
      \<lparr>stdout = [], chans = (\<lambda>_. (sync_queue 16)\<lparr>ch_buf := replicate 6 (ProtoMsg 5 (Token 1))\<rparr>)\<rparr> = Some (Ret p', w') \<and>
    oneway_vec p' = [5, 5, 5, 5, 5]"
proof -
  let ?w = "\<lparr>stdout = [], chans = (\<lambda>_. (sync_queue 16)\<lparr>ch_buf := replicate 6 (ProtoMsg (5 :: u64) (Token 1))\<rparr>)\<rparr> :: u64 ProtoMsg world"
  obtain p where p: "oneway_receive 2 ?w = (Ret p, ?w)"
    by (simp add: oneway_receive_def trait_defs processor_news)
  from oneway_receives_five [OF p refl] p show ?thesis by (auto simp: numeral_eq_Suc)
qed

section \<open>A chain on a queue\<close>

text \<open>\<^verbatim>\<open>Map\<close> and \<^verbatim>\<open>Collect\<close> behind a \<^verbatim>\<open>Coupler\<close>.\<close>

lemma map_collect_refines:
  "Subscriber_refines (Map_Subscriber Collect_Subscriber)
     (\<lambda>m w. Map_fun m = (\<lambda>x. ret (f x)) \<and> (\<exists>c. Map_subscriber m = Some c \<and> True))
     (\<lambda>m w. ((), Collect_val (the (Map_subscriber m))))
     (lift_next (\<lambda>k x. (f x, k)) (sink_next (\<lambda>x. x))) (lift_keep ignore) (lift_keep ignore)"
  by (rule map_stage.stage_refines [OF collect.Subscriber_refines_axioms]) simp_all

lemma map_collect_aloof:
  "aloof q (Map_Subscriber Collect_Subscriber)
     (\<lambda>m w. Map_fun m = (\<lambda>x. ret (f x)) \<and> (\<exists>c. Map_subscriber m = Some c \<and> True))
     (\<lambda>m w. ((), Collect_val (the (Map_subscriber m))))"
  by (auto simp: aloof_def trait_defs)

lemma Coupler_map_collect:
  assumes "ch_senders (chans w q) = 0" "ch_buf (chans w q) = xs"
  shows "\<exists>m' w'. run (Coupler_Publisher (Map_Subscriber Collect_Subscriber))
      \<lparr>Coupler_data_rx = q, Coupler_subscriber = Some ((Map_new (\<lambda>x. ret (f x)))\<lparr>Map_subscriber := Some (Collect_new [])\<rparr>)\<rparr> w =
        Some (Ret \<lparr>Coupler_data_rx = q, Coupler_subscriber = Some m'\<rparr>, w') \<and>
    Collect_val (the (Map_subscriber m')) = map f xs"
proof -
  let ?m = "(Map_new (\<lambda>x. ret (f x)))\<lparr>Map_subscriber := Some (Collect_new [])\<rparr>"
  have "a_drain (lift_next (\<lambda>k x. (f x, ())) (sink_next (\<lambda>x. x))) (lift_keep ignore) ((), []) xs = ((), map f xs)"
    by (simp add: a_drain_def a_feed_map_sink lift_keep_def)
  with Coupler_run_refines [OF map_collect_refines [of f] map_collect_aloof [of q f], where s = ?m and w = w and xs = xs
      and p = "\<lparr>Coupler_data_rx = q, Coupler_subscriber = Some ?m\<rparr>"] assms
  show ?thesis by (auto simp: Map_new_def Collect_new_def)
qed

text \<open>While a sender is alive, the chain takes what is in the queue and waits for more.\<close>

lemma Coupler_map_collect_waits:
  assumes "ch_senders (chans w q) \<noteq> 0"
  shows "\<exists>w'. run (Coupler_Publisher (Map_Subscriber Collect_Subscriber))
      \<lparr>Coupler_data_rx = q, Coupler_subscriber = Some ((Map_new (\<lambda>x. ret (f x)))\<lparr>Map_subscriber := Some (Collect_new [])\<rparr>)\<rparr> w =
        Some (Blocked, w') \<and> ch_buf (chans w' q) = []"
proof -
  let ?m = "(Map_new (\<lambda>x. ret (f x)))\<lparr>Map_subscriber := Some (Collect_new [])\<rparr>"
  have "fst (a_feed (lift_next (\<lambda>k x. (f x, ())) (sink_next (\<lambda>x. x))) ((), []) (ch_buf (chans w q)))"
    by (simp add: a_feed_map_sink)
  with Coupler_run_waits [OF map_collect_refines [of f] map_collect_aloof [of q f], where s = ?m and w = w
      and p = "\<lparr>Coupler_data_rx = q, Coupler_subscriber = Some ?m\<rparr>"] assms
  show ?thesis by (auto simp: Map_new_def Collect_new_def)
qed

end
