(* ===== verification/Rx_Reactor.thy ===== *)
theory Rx_Reactor
  imports Rx_Protocol Rx_Net_Stream
begin

text \<open>
  The network engine of \<^verbatim>\<open>src/reactor.rs\<close>: connections with their queues of outgoing buffers, the engine
  that keeps them, and the handlers the event loop calls.

  Three libraries are parameters, each a record of the operations the code calls: the buffers of
  \<^verbatim>\<open>iobuf\<close> (\<open>iobuf\<close> of the previous theory and \<open>appendbuf\<close>), the sockets and the event loop of \<^verbatim>\<open>mio\<close>
  (\<open>mio\<close>), and its \<^verbatim>\<open>Slab\<close> (\<open>slab\<close>), once for each of the three kinds of entries. Code with a loop in it
  may not come back and is a \<open>pact\<close>. Log messages are left out.
\<close>

section \<open>Libraries\<close>

datatype Interest = READABLE | WRITABLE | HUP

datatype ReadHint = DATAHINT | HUPHINT | ERRORHINT

datatype 'a NonBlock = Ready 'a | WouldBlock

text \<open>\<^verbatim>\<open>Buf\<close>, the trait through which \<^verbatim>\<open>mio\<close> reads and writes the buffers of the crate.\<close>

record 'x buf_trait =
  remaining :: "'x \<Rightarrow> usize"
  bytes :: "'x \<Rightarrow> u8 list"
  advance :: "'x \<Rightarrow> usize \<Rightarrow> 'x outcome"

text \<open>\<^verbatim>\<open>MutBuf\<close> adds the window as something to write to: its bytes, and the buffer with other bytes in their place.\<close>

record 'x mut_buf_trait = "'x buf_trait" +
  mut_bytes :: "'x \<Rightarrow> u8 list \<times> (u8 list \<Rightarrow> 'x)"

record ('a, 'al, 'b) appendbuf =
  ab_new :: "usize \<Rightarrow> 'a"
  ab_new_with_allocator :: "usize \<Rightarrow> 'al \<Rightarrow> 'a"
  ab_len :: "'a \<Rightarrow> u32"
  ab_window :: "'a \<Rightarrow> u8 list"
  ab_mut_window :: "'a \<Rightarrow> u8 list \<times> (u8 list \<Rightarrow> 'a)"
  ab_advance :: "'a \<Rightarrow> u32 \<Rightarrow> unit + 'a"
  ab_atomic_slice_pos_from_begin :: "'a \<Rightarrow> u32 \<Rightarrow> 64 word \<Rightarrow> unit + 'b"
  ab_fill :: "'a \<Rightarrow> u8 list \<Rightarrow> 'a"

record ('t, 'v) slab =
  slab_new_starting_at :: "Token \<Rightarrow> usize \<Rightarrow> 't"
  slab_insert :: "'t \<Rightarrow> 'v \<Rightarrow> ('v + Token) \<times> 't"
  slab_contains :: "'t \<Rightarrow> Token \<Rightarrow> bool"
  slab_get :: "'t \<Rightarrow> Token \<Rightarrow> 'v option"
  slab_set :: "'t \<Rightarrow> Token \<Rightarrow> 'v \<Rightarrow> 't"
  slab_remove :: "'t \<Rightarrow> Token \<Rightarrow> 't"
  slab_values :: "'t \<Rightarrow> 'v list"

datatype 'a ReadBuf = ReadBuf (rb_buf: 'a)

type_synonym io_error = string

text \<open>Sockets are registered edge-triggered throughout. \<open>'s\<close> is a socket, \<open>'l\<close> a bound one, \<open>'c\<close> an acceptor.\<close>

record ('w, 's, 'l, 'c, 'a, 'b, 'ip, 'h, 'q) mio =
  get_host_addresses :: "string \<Rightarrow> ('w, io_error + 'ip list) act"
  tcp_v4 :: "('w, io_error + 's) act"
  tcp_connect :: "'s \<Rightarrow> 'ip \<Rightarrow> 16 word \<Rightarrow> ('w, io_error + unit) act"
  tcp_bind :: "'s \<Rightarrow> 'ip \<Rightarrow> 16 word \<Rightarrow> ('w, io_error + 'l) act"
  tcp_listen :: "'l \<Rightarrow> usize \<Rightarrow> ('w, io_error + 'c) act"
  tcp_accept :: "'c \<Rightarrow> ('w, io_error + 's NonBlock) act"
  tcp_write :: "'s \<Rightarrow> 'b StreamBuf buf_trait \<Rightarrow> 'b StreamBuf \<Rightarrow> ('w, (io_error + usize NonBlock) \<times> 'b StreamBuf) act"
  tcp_read :: "'s \<Rightarrow> 'a ReadBuf mut_buf_trait \<Rightarrow> 'a ReadBuf \<Rightarrow> ('w, (io_error + usize NonBlock) \<times> 'a ReadBuf) act"
  el_register_sock :: "'s \<Rightarrow> Token \<Rightarrow> Interest set \<Rightarrow> ('w, io_error + unit) act"
  el_register_acceptor :: "'c \<Rightarrow> Token \<Rightarrow> Interest set \<Rightarrow> ('w, io_error + unit) act"
  el_reregister_sock :: "'s \<Rightarrow> Token \<Rightarrow> Interest set \<Rightarrow> ('w, io_error + unit) act"
  el_reregister_acceptor :: "'c \<Rightarrow> Token \<Rightarrow> Interest set \<Rightarrow> ('w, io_error + unit) act"
  el_timeout :: "Token \<Rightarrow> int \<Rightarrow> ('w, io_error + 'h) act"
  el_clear_timeout :: "'h \<Rightarrow> ('w, bool) act"
  el_channel :: 'q

definition unwrap_io :: "io_error + 'a \<Rightarrow> ('w, 'a) act" where
  "unwrap_io r = (case r of Inl e \<Rightarrow> panic ''called Result::unwrap() on an Err value'' | Inr a \<Rightarrow> ret a)"

definition unwrap_option :: "'a option \<Rightarrow> ('w, 'a) act" where
  "unwrap_option r = (case r of None \<Rightarrow> panic ''called Option::unwrap() on a None value'' | Some a \<Rightarrow> ret a)"

section \<open>The buffers as Buf\<close>

definition StreamBuf_remaining :: "'b iobuf \<Rightarrow> 'b StreamBuf \<Rightarrow> usize" where
  "StreamBuf_remaining I self = ucast (iobuf_len I (sb_buf self))"

definition StreamBuf_bytes :: "'b iobuf \<Rightarrow> 'b StreamBuf \<Rightarrow> u8 list" where
  "StreamBuf_bytes I self = iobuf_window I (sb_buf self)"

definition StreamBuf_advance :: "'b iobuf \<Rightarrow> 'b StreamBuf \<Rightarrow> usize \<Rightarrow> 'b StreamBuf outcome" where
  "StreamBuf_advance I self cnt = (case iobuf_advance I (sb_buf self) (ucast cnt) of
      Inl _ \<Rightarrow> Panic ''called Result::unwrap() on an Err value: ()''
    | Inr b \<Rightarrow> Ret (StreamBuf b (sb_tok self)))"

definition StreamBuf_Buf :: "'b iobuf \<Rightarrow> 'b StreamBuf buf_trait" where
  "StreamBuf_Buf I = \<lparr>remaining = StreamBuf_remaining I, bytes = StreamBuf_bytes I, advance = StreamBuf_advance I\<rparr>"

definition ReadBuf_remaining :: "('a, 'al, 'b) appendbuf \<Rightarrow> 'a ReadBuf \<Rightarrow> usize" where
  "ReadBuf_remaining A self = ucast (ab_len A (rb_buf self))"

definition ReadBuf_bytes :: "('a, 'al, 'b) appendbuf \<Rightarrow> 'a ReadBuf \<Rightarrow> u8 list" where
  "ReadBuf_bytes A self = ab_window A (rb_buf self)"

definition ReadBuf_advance :: "('a, 'al, 'b) appendbuf \<Rightarrow> 'a ReadBuf \<Rightarrow> usize \<Rightarrow> 'a ReadBuf outcome" where
  "ReadBuf_advance A self cnt = (case ab_advance A (rb_buf self) (ucast cnt) of
      Inl _ \<Rightarrow> Panic ''called Result::unwrap() on an Err value: ()''
    | Inr b \<Rightarrow> Ret (ReadBuf b))"

definition ReadBuf_mut_bytes :: "('a, 'al, 'b) appendbuf \<Rightarrow> 'a ReadBuf \<Rightarrow> u8 list \<times> (u8 list \<Rightarrow> 'a ReadBuf)" where
  "ReadBuf_mut_bytes A self = (case ab_mut_window A (rb_buf self) of (bs, put) \<Rightarrow> (bs, \<lambda>bs'. ReadBuf (put bs')))"

definition ReadBuf_MutBuf :: "('a, 'al, 'b) appendbuf \<Rightarrow> 'a ReadBuf mut_buf_trait" where
  "ReadBuf_MutBuf A = \<lparr>remaining = ReadBuf_remaining A, bytes = ReadBuf_bytes A, advance = ReadBuf_advance A,
     mut_bytes = ReadBuf_mut_bytes A\<rparr>"

definition new_buf :: "('a, 'al, 'b) appendbuf \<Rightarrow> usize \<Rightarrow> 'al option \<Rightarrow> 'a ReadBuf" where
  "new_buf A sz calloc = (case calloc of
      Some alloc \<Rightarrow> ReadBuf (ab_new_with_allocator A sz alloc)
    | None \<Rightarrow> ReadBuf (ab_new A sz))"

section \<open>Connections\<close>

record ('s, 'p, 'a, 'b) Connection =
  conn_sock :: 's
  outbuf :: "'b StreamBuf list"
  interest :: "Interest set"
  conn_tx :: chan_id
  marker :: u32
  proto :: 'p
  conn_buf :: "'a ReadBuf"

definition Connection_new ::
  "('w, 'p, 'b, 'o) protocol \<Rightarrow> 's \<Rightarrow> chan_id \<Rightarrow> 'a ReadBuf \<Rightarrow> ('s, 'p, 'a, 'b) Connection" where
  "Connection_new P s tx rbuf =
     \<lparr>conn_sock = s, outbuf = [], interest = {HUP}, conn_tx = tx, marker = 0, proto = proto_new P, conn_buf = rbuf\<rparr>"

text \<open>One pass of the loop of \<^verbatim>\<open>drain_write_queue_to_socket\<close>: \<open>writable\<close> and the queue are the loop's state.\<close>

definition drain_round ::
  "'b iobuf \<Rightarrow> ('w, 's, 'l, 'c, 'a, 'b, 'ip, 'h, 'q) mio \<Rightarrow> bool \<times> ('s, 'p, 'a, 'b) Connection
   \<Rightarrow> ('w, bool \<times> (bool \<times> ('s, 'p, 'a, 'b) Connection)) act" where
  "drain_round I M = (\<lambda>(writable, self).
     (case outbuf self of
        [] \<Rightarrow> ret (False, (writable, self))
      | buf # rest \<Rightarrow>
          if \<not> writable then ret (False, (writable, self))
          else let sz = ucast (iobuf_len I (sb_buf buf)) :: usize in
            abind (tcp_write M (conn_sock self) (StreamBuf_Buf I) buf) (\<lambda>(result, buf').
            case result of
              Inr (Ready n) \<Rightarrow>
                if n = sz then ret (True, (writable, self\<lparr>outbuf := rest\<rparr>))
                else ret (True, (writable, self\<lparr>outbuf := buf' # rest\<rparr>))
            | Inr WouldBlock \<Rightarrow> ret (True, (False, self\<lparr>outbuf := buf' # rest\<rparr>))
            | Inl e \<Rightarrow> ret (True, (False, self\<lparr>outbuf := buf' # rest\<rparr>)))))"

definition drain_write_queue_to_socket ::
  "'b iobuf \<Rightarrow> ('w, 's, 'l, 'c, 'a, 'b, 'ip, 'h, 'q) mio \<Rightarrow> ('s, 'p, 'a, 'b) Connection
   \<Rightarrow> ('w, nat \<times> ('s, 'p, 'a, 'b) Connection) pact" where
  "drain_write_queue_to_socket I M self =
     pbind (loop_act (drain_round I M) (True, self)) (\<lambda>(writable, self). once (ret (length (outbuf self), self)))"

definition Connection_read ::
  "('a, 'al, 'b) appendbuf \<Rightarrow> ('w, 's, 'l, 'c, 'a, 'b, 'ip, 'h, 'q) mio \<Rightarrow> ('s, 'p, 'a, 'b) Connection
   \<Rightarrow> ('w, (io_error + usize NonBlock) \<times> ('s, 'p, 'a, 'b) Connection) act" where
  "Connection_read A M self = abind (tcp_read M (conn_sock self) (ReadBuf_MutBuf A) (conn_buf self)) (\<lambda>(r, buf').
     ret (r, self\<lparr>conn_buf := buf'\<rparr>))"

section \<open>The engine\<close>

record 'al NetEngineConfig =
  queue_size :: usize
  read_buf_sz :: usize
  min_read_buf_sz :: usize
  max_connections :: usize
  poll_timeout_ms :: usize
  config_allocator :: "'al option"

record ('tl, 'tt, 'tc, 'al) EngineInner =
  listeners :: 'tl
  timeouts :: 'tt
  conns :: 'tc
  config :: "'al NetEngineConfig"

text \<open>Everything the engine calls that is not part of the crate, and the protocol it is used with.\<close>

record ('w, 's, 'l, 'c, 'a, 'b, 'ip, 'h, 'q, 'al, 'p, 'o, 'tl, 'tt, 'tc, 'cb) env =
  e_iobuf :: "'b iobuf"
  e_ab :: "('a, 'al, 'b) appendbuf"
  e_mio :: "('w, 's, 'l, 'c, 'a, 'b, 'ip, 'h, 'q) mio"
  e_proto :: "('w, 'p, 'b, 'o) protocol"
  e_listeners :: "('tl, 'c \<times> chan_id) slab"
  e_timeouts :: "('tt, 'cb \<times> 'h option) slab"
  e_conns :: "('tc, ('s, 'p, 'a, 'b) Connection) slab"
  e_call :: "'cb \<Rightarrow> ('w, bool \<times> 'cb) act"

definition EngineInner_new where
  "EngineInner_new E cfg =
     \<lparr>listeners = slab_new_starting_at (e_listeners E) (Token 0) 128,
      timeouts = slab_new_starting_at (e_timeouts E) (Token 129) 255,
      conns = slab_new_starting_at (e_conns E) (Token 256) (max_connections cfg + 256),
      config = cfg\<rparr>"

text \<open>\<^verbatim>\<open>sync_channel\<close> takes the next number no queue has had.\<close>

record 'm net_world = "'m world" +
  next_chan :: nat

definition sync_channel :: "usize \<Rightarrow> (('m, 'z) net_world_scheme, chan_id \<times> chan_id) act" where
  "sync_channel n = (\<lambda>w. (Ret (next_chan w, next_chan w),
     set_chan (next_chan w) (sync_queue (unat n)) (w\<lparr>next_chan := next_chan w + 1\<rparr>)))"

text \<open>The messages that \<^verbatim>\<open>connect\<close> and \<^verbatim>\<open>listen\<close> format, a constructor for each, with what is put into it.\<close>

datatype net_error =
    FailedToConnect string usize io_error
  | FailedToRegister io_error
  | FailedToInsertConnection
  | FailedToCreateSocket io_error
  | FailedToCreateTcpSocket io_error
  | EventRegistrationFailed io_error
  | FailedToBind string usize io_error
  | FailedToListen string usize io_error
  | FailedToInsertListener

definition first_address :: "'ip list \<Rightarrow> ('w, 'ip) act" where
  "first_address ips = (case ips of [] \<Rightarrow> panic ''index out of bounds: the len is 0 but the index is 0'' | ip # _ \<Rightarrow> ret ip)"

definition EngineInner_connect where
  "EngineInner_connect E self hostname port =
     (let M = e_mio E in
      abind (get_host_addresses M hostname) (\<lambda>r. abind (unwrap_io r) (\<lambda>ips. abind (first_address ips) (\<lambda>ip.
      abind (tcp_v4 M) (\<lambda>r. case r of
        Inl e \<Rightarrow> ret (Inl (FailedToCreateSocket e), self)
      | Inr s \<Rightarrow>
          abind (sync_channel (queue_size (config self))) (\<lambda>(tx, rx).
          let buf = new_buf (e_ab E) (read_buf_sz (config self)) (config_allocator (config self)) in
          case slab_insert (e_conns E) (conns self) (Connection_new (e_proto E) s tx buf) of
            (Inr t, cs) \<Rightarrow>
              let self = self\<lparr>conns := cs\<rparr> in
              abind (unwrap_option (slab_get (e_conns E) cs t)) (\<lambda>c.
              abind (el_register_sock M (conn_sock c) t {READABLE}) (\<lambda>r. case r of
                Inr _ \<Rightarrow> abind (tcp_connect M (conn_sock c) ip (ucast (port :: usize))) (\<lambda>r. case r of
                    Inr _ \<Rightarrow> ret (Inr (NetStream_new t rx (el_channel M)), self)
                  | Inl e \<Rightarrow> abind (effect (drop_receiver rx)) (\<lambda>_. ret (Inl (FailedToConnect hostname port e), self)))
              | Inl e \<Rightarrow> abind (effect (drop_receiver rx)) (\<lambda>_. ret (Inl (FailedToRegister e), self))))
          | (Inl _, cs) \<Rightarrow>
              abind (effect (\<lambda>w. drop_receiver rx (drop_sender tx w))) (\<lambda>_.
              ret (Inl FailedToInsertConnection, self\<lparr>conns := cs\<rparr>))))))))"

definition EngineInner_listen where
  "EngineInner_listen E self addr port =
     (let M = e_mio E in
      abind (get_host_addresses M addr) (\<lambda>r. abind (unwrap_io r) (\<lambda>ips. abind (first_address ips) (\<lambda>ip.
      abind (tcp_v4 M) (\<lambda>r. case r of
        Inl e \<Rightarrow> ret (Inl (FailedToCreateTcpSocket e), self)
      | Inr s \<Rightarrow> abind (tcp_bind M s ip (ucast (port :: usize))) (\<lambda>r. case r of
          Inl e \<Rightarrow> ret (Inl (FailedToBind addr port e), self)
        | Inr l \<Rightarrow> abind (tcp_listen M l 255) (\<lambda>r. case r of
            Inl e \<Rightarrow> ret (Inl (FailedToListen addr port e), self)
          | Inr a \<Rightarrow> abind (sync_channel (queue_size (config self))) (\<lambda>(tx, rx).
              case slab_insert (e_listeners E) (listeners self) (a, tx) of
                (Inr t, ls) \<Rightarrow>
                  let self = self\<lparr>listeners := ls\<rparr> in
                  abind (unwrap_option (slab_get (e_listeners E) ls t)) (\<lambda>(a, _).
                  abind (el_register_acceptor M a t {READABLE}) (\<lambda>r. case r of
                    Inr _ \<Rightarrow> ret (Inr rx, self)
                  | Inl e \<Rightarrow> abind (effect (drop_receiver rx)) (\<lambda>_. ret (Inl (EventRegistrationFailed e), self))))
              | (Inl _, ls) \<Rightarrow>
                  abind (effect (\<lambda>w. drop_receiver rx (drop_sender tx w))) (\<lambda>_.
                  ret (Inl FailedToInsertListener, self\<lparr>listeners := ls\<rparr>))))))))))"

section \<open>The handlers\<close>

text \<open>The loop that cuts the bytes just read into messages and sends them on.\<close>

definition frame_round ::
  "(('o ProtoMsg, 'z) world_scheme, 'p, 'b, 'o) protocol \<Rightarrow> Token \<Rightarrow> 'b \<times> ('s, 'p, 'a, 'b) Connection
   \<Rightarrow> (('o ProtoMsg, 'z) world_scheme, bool \<times> ('b \<times> ('s, 'p, 'a, 'b) Connection)) act" where
  "frame_round P token = (\<lambda>(abuf, c).
     abind (append_buf P (proto c) abuf) (\<lambda>(r, p'). case r of
       None \<Rightarrow> ret (False, (abuf, c\<lparr>proto := p'\<rparr>))
     | Some (item, rest, consumed) \<Rightarrow>
         abind (SyncSender_send (conn_tx c) (ProtoMsg item token)) (\<lambda>_.
         ret (True, (rest, c\<lparr>proto := p', marker := marker c + consumed\<rparr>)))))"

text \<open>What \<^verbatim>\<open>readable\<close> does with \<open>n\<close> bytes that were read; a buffer that is nearly full is replaced. The cast of \<open>n\<close> to a
  signed integer keeps its 64 bits, and so do the arguments of the slice.\<close>

definition read_frames where
  "read_frames E cfg token c n =
     pbind (once (unwrap_unit (ab_atomic_slice_pos_from_begin (e_ab E) (rb_buf (conn_buf c)) (marker c) n))) (\<lambda>abuf.
     pbind (loop_act (frame_round (e_proto E) token) (abuf, c)) (\<lambda>(abuf, c). once (ret
       (if ab_len (e_ab E) (rb_buf (conn_buf c)) < ucast (min_read_buf_sz cfg)
        then let newbuf = new_buf (e_ab E) (read_buf_sz cfg) (config_allocator cfg);
                 newbuf = (if iobuf_len (e_iobuf E) abuf > 0
                           then ReadBuf (ab_fill (e_ab E) (rb_buf newbuf) (iobuf_window (e_iobuf E) abuf)) else newbuf)
             in c\<lparr>conn_buf := newbuf, marker := 0\<rparr>
        else c))))"

text \<open>A new connection on a listener: it shares the listener's queue.\<close>

definition accept_connection where
  "accept_connection E self tx s =
     (let buf = new_buf (e_ab E) (read_buf_sz (config self)) (config_allocator (config self)) in
      abind (effect (clone_sender tx)) (\<lambda>_.
      case slab_insert (e_conns E) (conns self) (Connection_new (e_proto E) s tx buf) of
        (Inr t, cs) \<Rightarrow>
          abind (unwrap_option (slab_get (e_conns E) cs t)) (\<lambda>c.
          abind (el_register_sock (e_mio E) (conn_sock c) t {READABLE, HUP}) (\<lambda>r.
          abind (unwrap_io r) (\<lambda>_. ret (self\<lparr>conns := cs\<rparr>))))
      | (Inl _, cs) \<Rightarrow> abind (effect (drop_sender tx)) (\<lambda>_. ret (self\<lparr>conns := cs\<rparr>))))"

definition readable_listener where
  "readable_listener E self token =
     abind (unwrap_option (slab_get (e_listeners E) (listeners self) token)) (\<lambda>(list, tx).
     abind (tcp_accept (e_mio E) list) (\<lambda>r.
     abind (case r of Inr (Ready s) \<Rightarrow> accept_connection E self tx s | _ \<Rightarrow> ret self) (\<lambda>self.
     abind (el_reregister_acceptor (e_mio E) list token {READABLE}) (\<lambda>r.
     abind (unwrap_io r) (\<lambda>_. ret self)))))"

definition readable_connection where
  "readable_connection E self token hint c =
     pbind (once (Connection_read (e_ab E) (e_mio E) c)) (\<lambda>(r, c).
     pbind (case r of Inr (Ready n) \<Rightarrow> read_frames E (config self) token c n | _ \<Rightarrow> once (ret c)) (\<lambda>c.
     if HUPHINT \<in> hint
     then once (abind (effect (drop_sender (conn_tx c))) (\<lambda>_. ret (self\<lparr>conns := slab_remove (e_conns E) (conns self) token\<rparr>)))
     else let c = c\<lparr>interest := insert READABLE (interest c)\<rparr> in
       once (abind (el_reregister_sock (e_mio E) (conn_sock c) token (interest c)) (\<lambda>r.
         abind (unwrap_io r) (\<lambda>_. ret (self\<lparr>conns := slab_set (e_conns E) (conns self) token c\<rparr>))))))"

definition readable where
  "readable E self token hint =
     (if slab_contains (e_listeners E) (listeners self) token then once (readable_listener E self token)
      else case slab_get (e_conns E) (conns self) token of
        None \<Rightarrow> once (ret self)
      | Some c \<Rightarrow> readable_connection E self token hint c)"

text \<open>\<^verbatim>\<open>writable\<close> and \<^verbatim>\<open>notify\<close> both write what they can and ask to be told when more can be written.\<close>

definition flush_connection where
  "flush_connection E self token c =
     pbind (drain_write_queue_to_socket (e_iobuf E) (e_mio E) c) (\<lambda>(left, c).
     if 0 < left
     then let c = c\<lparr>interest := insert WRITABLE (interest c)\<rparr> in
       once (abind (el_reregister_sock (e_mio E) (conn_sock c) token (interest c)) (\<lambda>r.
         abind (unwrap_io r) (\<lambda>_. ret (self\<lparr>conns := slab_set (e_conns E) (conns self) token c\<rparr>))))
     else once (ret (self\<lparr>conns := slab_set (e_conns E) (conns self) token c\<rparr>)))"

definition handle_writable where
  "handle_writable E self token = (case slab_get (e_conns E) (conns self) token of
      None \<Rightarrow> once (ret self)
    | Some c \<Rightarrow> flush_connection E self token c)"

definition handle_notify where
  "handle_notify E self msg = (case slab_get (e_conns E) (conns self) (sb_tok msg) of
      Some c \<Rightarrow> flush_connection E self (sb_tok msg) (c\<lparr>outbuf := outbuf c @ [msg]\<rparr>)
    | None \<Rightarrow> once (ret self))"

definition handle_timeout where
  "handle_timeout E self t =
     abind (unwrap_option (slab_get (e_timeouts E) (timeouts self) t)) (\<lambda>(cb, handle).
     abind (e_call E cb) (\<lambda>(go, cb').
     let self = self\<lparr>timeouts := slab_set (e_timeouts E) (timeouts self) t (cb', handle)\<rparr> in
     if \<not> go then abind (unwrap_option handle) (\<lambda>h. abind (el_clear_timeout (e_mio E) h) (\<lambda>_. ret self))
     else ret self))"

text \<open>The methods of the trait \<^verbatim>\<open>Handler\<close>, through which the event loop calls the engine.\<close>

record ('w, 'h, 'b) handler =
  h_readable :: "'h \<Rightarrow> Token \<Rightarrow> ReadHint set \<Rightarrow> ('w, 'h) pact"
  h_writable :: "'h \<Rightarrow> Token \<Rightarrow> ('w, 'h) pact"
  h_notify :: "'h \<Rightarrow> 'b StreamBuf \<Rightarrow> ('w, 'h) pact"
  h_timeout :: "'h \<Rightarrow> Token \<Rightarrow> ('w, 'h) pact"

definition EngineInner_Handler where
  "EngineInner_Handler E = \<lparr>h_readable = readable E, h_writable = handle_writable E, h_notify = handle_notify E,
     h_timeout = (\<lambda>self t. once (handle_timeout E self t))\<rparr>"

section \<open>The engine from outside\<close>

text \<open>The event loop itself is in the world; what is left of a \<^verbatim>\<open>NetEngine\<close> is its inner part.\<close>

record EventLoopConfig =
  io_poll_timeout_ms :: usize
  notify_capacity :: usize
  messages_per_tick :: usize
  timer_tick_ms :: usize
  timer_wheel_size :: usize
  timer_capacity :: usize

definition event_loop_config :: "usize \<Rightarrow> usize \<Rightarrow> EventLoopConfig" where
  "event_loop_config queue_sz timeout =
     \<lparr>io_poll_timeout_ms = timeout, notify_capacity = queue_sz, messages_per_tick = 512,
      timer_tick_ms = 100, timer_wheel_size = 1024, timer_capacity = 65536\<rparr>"

definition NetEngine_configured where
  "NetEngine_configured E el_configured cfg =
     abind (el_configured (event_loop_config (queue_size cfg) (poll_timeout_ms cfg))) (\<lambda>r.
     abind (unwrap_io r) (\<lambda>_. ret (EngineInner_new E cfg)))"

definition NetEngine_new where
  "NetEngine_new E el_configured = NetEngine_configured E el_configured
     \<lparr>queue_size = 524288, read_buf_sz = 1536, min_read_buf_sz = 64, max_connections = 10240,
      poll_timeout_ms = 100, config_allocator = None\<rparr>"

definition NetEngine_timeout where
  "NetEngine_timeout E self duration callback =
     (case slab_insert (e_timeouts E) (timeouts self) (callback, None) of
        (Inl _, ts) \<Rightarrow> panic ''called Result::unwrap() on an Err value: ()''
      | (Inr t, ts) \<Rightarrow>
          abind (el_timeout (e_mio E) t duration) (\<lambda>r. abind (unwrap_io r) (\<lambda>handle.
          abind (unwrap_option (slab_get (e_timeouts E) ts t)) (\<lambda>(cb, _).
          ret (self\<lparr>timeouts := slab_set (e_timeouts E) ts t (cb, Some handle)\<rparr>)))))"

definition NetEngine_connect where
  "NetEngine_connect E self hostname port = EngineInner_connect E self hostname port"

definition NetEngine_listen where
  "NetEngine_listen E self addr port = EngineInner_listen E self addr port"

definition NetEngine_channel where
  "NetEngine_channel E self = el_channel (e_mio E)"

text \<open>
  The engine is dropped at the end of \<^verbatim>\<open>run\<close>, \<^verbatim>\<open>run_once\<close> and \<^verbatim>\<open>shutdown\<close>, which take it by value: every listener
  and every connection gives up its end of its queue. The loops of \<^verbatim>\<open>mio\<close> are the parameters \<open>el_run\<close>,
  \<open>el_run_once\<close> and \<open>el_shutdown\<close>; the first two call the handler and give it back at the end.
\<close>

definition drop_engine where
  "drop_engine E self = fold drop_sender
     (map snd (slab_values (e_listeners E) (listeners self)) @ map conn_tx (slab_values (e_conns E) (conns self)))"

definition run_handler where
  "run_handler E loop self =
     pbind (loop (EngineInner_Handler E) self) (\<lambda>r. case r of
        Inl _ \<Rightarrow> once (panic ''called Result::unwrap() on an Err value: ()'')
      | Inr self' \<Rightarrow> once (effect (drop_engine E self')))"

definition NetEngine_run where
  "NetEngine_run E el_run self = run_handler E el_run self"

definition NetEngine_run_once where
  "NetEngine_run_once E el_run_once self = run_handler E el_run_once self"

definition NetEngine_shutdown where
  "NetEngine_shutdown E el_shutdown self = abind el_shutdown (\<lambda>_. effect (drop_engine E self))"

section \<open>A platform\<close>

text \<open>
  One socket in a world that records what was written to it and holds what can be read from it; it takes
  three bytes at a time, as long as it holds fewer than eight. Slabs are association lists. It meets the contracts stated in the following
  theories, which can therefore be met.
\<close>

record 'm sample_world = "'m net_world" +
  sent :: "u8 list"
  arrived :: "u8 list"

definition sample_write ::
  "u8 list StreamBuf \<Rightarrow> ('m sample_world, (io_error + usize NonBlock) \<times> u8 list StreamBuf) act" where
  "sample_write b = (\<lambda>w. let bs = sample_window (sb_buf b); n = min 3 (length bs) in
     if length (sent w) < 8
     then (Ret (Inr (Ready (of_nat n)), StreamBuf (drop n bs) (sb_tok b)), w\<lparr>sent := sent w @ take n bs\<rparr>)
     else (Ret (Inr WouldBlock, b), w))"

definition sample_read ::
  "u8 list ReadBuf \<Rightarrow> ('m sample_world, (io_error + usize NonBlock) \<times> u8 list ReadBuf) act" where
  "sample_read b = (\<lambda>w. (Ret (Inr (Ready (of_nat (length (arrived w)))), ReadBuf (rb_buf b @ arrived w)), w\<lparr>arrived := []\<rparr>))"

definition sample_mio ::
  "('m sample_world, unit, unit, unit, u8 list, u8 list, nat, nat, unit) mio" where
  "sample_mio =
     \<lparr>get_host_addresses = (\<lambda>_. ret (Inr [0])), tcp_v4 = ret (Inr ()), tcp_connect = (\<lambda>_ _ _. ret (Inr ())),
      tcp_bind = (\<lambda>_ _ _. ret (Inr ())), tcp_listen = (\<lambda>_ _. ret (Inr ())), tcp_accept = (\<lambda>_. ret (Inr WouldBlock)),
      tcp_write = (\<lambda>_ _. sample_write), tcp_read = (\<lambda>_ _. sample_read),
      el_register_sock = (\<lambda>_ _ _. ret (Inr ())), el_register_acceptor = (\<lambda>_ _ _. ret (Inr ())),
      el_reregister_sock = (\<lambda>_ _ _. ret (Inr ())), el_reregister_acceptor = (\<lambda>_ _ _. ret (Inr ())),
      el_timeout = (\<lambda>_ _. ret (Inr 7)), el_clear_timeout = (\<lambda>_. ret True), el_channel = ()\<rparr>"

definition sample_ab :: "(u8 list, unit, u8 list) appendbuf" where
  "sample_ab =
     \<lparr>ab_new = (\<lambda>_. []), ab_new_with_allocator = (\<lambda>_ _. []), ab_len = (\<lambda>b. of_nat (1536 - length b)),
      ab_window = (\<lambda>_. []), ab_mut_window = (\<lambda>b. ([], \<lambda>_. b)), ab_advance = (\<lambda>b _. Inr b),
      ab_atomic_slice_pos_from_begin = (\<lambda>b pos n. Inr (take (unat n) (drop (unat pos) b))), ab_fill = (\<lambda>b bs. b @ bs)\<rparr>"

definition sample_slab :: "((Token \<times> 'v) list, 'v) slab" where
  "sample_slab =
     \<lparr>slab_new_starting_at = (\<lambda>_ _. []),
      slab_insert = (\<lambda>s v. let t = Token (of_nat (length s)) in if map_of s t = None then (Inr t, (t, v) # s) else (Inl v, s)),
      slab_contains = (\<lambda>s t. map_of s t \<noteq> None), slab_get = map_of,
      slab_set = (\<lambda>s t v. (t, v) # s), slab_remove = (\<lambda>s t. filter (\<lambda>(u, _). u \<noteq> t) s),
      slab_values = (\<lambda>s. map (\<lambda>t. the (map_of s t)) (remdups (map fst s)))\<rparr>"

definition sample_env where
  "sample_env P =
     \<lparr>e_iobuf = sample_iobuf, e_ab = sample_ab, e_mio = sample_mio, e_proto = P,
      e_listeners = sample_slab, e_timeouts = sample_slab, e_conns = sample_slab, e_call = (\<lambda>cb. ret (cb, cb))\<rparr>"

end
