(* ===== verification/Rx_Reactor_Write.thy ===== *)
theory Rx_Reactor_Write
  imports Rx_Reactor
begin

text \<open>
  The write side of the reactor: what \<^verbatim>\<open>drain_write_queue_to_socket\<close>, \<^verbatim>\<open>writable\<close> and \<^verbatim>\<open>notify\<close> do to the
  bytes that wait, and that the engine always asks to be told when a connection with bytes left can
  be written to.
\<close>

section \<open>What is expected of a socket\<close>

text \<open>
  \<open>wire s w\<close> is what has been written to the socket so far. A write takes some bytes off the front of the
  buffer, through \<^verbatim>\<open>Buf\<close>, or none if it would block or fails; it takes at least one if there is any.
\<close>

abbreviation window_of :: "'b iobuf \<Rightarrow> 'b StreamBuf \<Rightarrow> u8 list" where
  "window_of I b \<equiv> iobuf_window I (sb_buf b)"

definition written ::
  "'b iobuf \<Rightarrow> u8 list \<Rightarrow> 'b StreamBuf \<Rightarrow> io_error + usize NonBlock \<Rightarrow> 'b StreamBuf \<Rightarrow> u8 list \<Rightarrow> bool" where
  "written I before buf r buf' after \<longleftrightarrow>
     (case r of
        Inr (Ready n) \<Rightarrow> unat n \<le> length (window_of I buf) \<and> StreamBuf_advance I buf n = Ret buf' \<and>
          after = before @ take (unat n) (window_of I buf) \<and> (n = 0 \<longrightarrow> window_of I buf = [])
      | _ \<Rightarrow> buf' = buf \<and> after = before)"

definition writes_ok :: "'b iobuf \<Rightarrow> ('w, 's, 'l, 'c, 'a, 'b, 'ip, 'h, 'q) mio \<Rightarrow> ('s \<Rightarrow> 'w \<Rightarrow> u8 list) \<Rightarrow> bool" where
  "writes_ok I M wire \<longleftrightarrow> (\<forall>s buf w. \<exists>r buf' w'.
     tcp_write M s (StreamBuf_Buf I) buf w = (Ret (r, buf'), w') \<and> written I (wire s w) buf r buf' (wire s w'))"

text \<open>The bytes a connection still has to write.\<close>

definition pending_bytes :: "'b iobuf \<Rightarrow> ('s, 'p, 'a, 'b) Connection \<Rightarrow> u8 list" where
  "pending_bytes I c = concat (map (window_of I) (outbuf c))"

lemma StreamBuf_advance_window:
  assumes "iobuf_ok I" "unat n \<le> length (window_of I b)" "StreamBuf_advance I b n = Ret b'"
  shows "window_of I b' = drop (unat n) (window_of I b) \<and> sb_tok b' = sb_tok b"
proof -
  have "length (window_of I b) < 2 ^ 32" using assms(1) by (simp add: iobuf_ok_def)
  with assms(2) have n: "unat (ucast n :: u32) = unat n" by (simp add: unsigned_ucast_eq take_bit_nat_eq_self)
  from assms(1,2) n obtain x where "iobuf_advance I (sb_buf b) (ucast n) = Inr x" "iobuf_window I x = drop (unat n) (window_of I b)"
    using iobuf_advanceE [of I "ucast n" "sb_buf b"] by auto
  with assms(3) show ?thesis by (auto simp: StreamBuf_advance_def)
qed

text \<open>One write: the stream of bytes stays the same, it only moves from the queue to the wire.\<close>

definition drained where
  "drained I wire c w c' w' \<longleftrightarrow>
     c' = c\<lparr>outbuf := outbuf c'\<rparr> \<and>
     wire (conn_sock c) w' @ pending_bytes I c' = wire (conn_sock c) w @ pending_bytes I c \<and>
     (\<exists>k. map sb_tok (outbuf c') = drop k (map sb_tok (outbuf c)))"

lemma drained_refl: "drained I wire c w c w"
  by (auto simp: drained_def intro: exI [of _ 0])

lemma drained_trans:
  assumes "drained I wire c w c1 w1" "drained I wire c1 w1 c2 w2"
  shows "drained I wire c w c2 w2"
proof -
  from assms obtain j k where "map sb_tok (outbuf c1) = drop j (map sb_tok (outbuf c))"
    "map sb_tok (outbuf c2) = drop k (map sb_tok (outbuf c1))" by (auto simp: drained_def)
  then have "map sb_tok (outbuf c2) = drop (j + k) (map sb_tok (outbuf c))" by (simp add: add.commute)
  moreover have "conn_sock c1 = conn_sock c" "c2 = c\<lparr>outbuf := outbuf c2\<rparr>"
    using assms by (metis Connection.select_convs(1) Connection.surjective Connection.update_convs(2) drained_def,
        metis Connection.surjective Connection.update_convs(2) drained_def)
  ultimately show ?thesis using assms by (auto simp: drained_def)
qed

lemma drained_pop: "outbuf c = b # rest \<Longrightarrow> wire (conn_sock c) w' = wire (conn_sock c) w @ window_of I b \<Longrightarrow>
   drained I wire c w (c\<lparr>outbuf := rest\<rparr>) w'"
  by (auto simp: drained_def pending_bytes_def intro: exI [of _ 1])

lemma drained_front:
  "outbuf c = b # rest \<Longrightarrow> sb_tok b' = sb_tok b \<Longrightarrow> wire (conn_sock c) w' @ window_of I b' = wire (conn_sock c) w @ window_of I b \<Longrightarrow>
   drained I wire c w (c\<lparr>outbuf := b' # rest\<rparr>) w'"
  by (auto simp: drained_def pending_bytes_def intro: exI [of _ 0])

lemma drain_round_write:
  assumes ok: "iobuf_ok I" and wr: "writes_ok I M wire" and c: "outbuf c = b # rest"
  obtains (wrote) c' w' where "drain_round I M (True, c) w = (Ret (True, (True, c')), w')" "drained I wire c w c' w'"
      "length (outbuf c') + length (pending_bytes I c') < length (outbuf c) + length (pending_bytes I c)"
    | (stopped) c' w' where "drain_round I M (True, c) w = (Ret (True, (False, c')), w')" "drained I wire c w c' w'"
proof -
  from wr obtain r b' w' where w: "tcp_write M (conn_sock c) (StreamBuf_Buf I) b w = (Ret (r, b'), w')"
    and r: "written I (wire (conn_sock c) w) b r b' (wire (conn_sock c) w')"
    unfolding writes_ok_def by blast
  have sz: "unat (ucast (iobuf_len I (sb_buf b)) :: usize) = length (window_of I b)"
  proof -
    have "length (window_of I b) < 2 ^ 32" using ok by (simp add: iobuf_ok_def)
    then show ?thesis using iobuf_len_unat [OF ok, of "sb_buf b"] by (simp add: unsigned_ucast_eq take_bit_nat_eq_self)
  qed
  show ?thesis
  proof (cases "\<exists>n. r = Inr (Ready n)")
    case True
    then obtain n where n: "r = Inr (Ready n)" by blast
    show ?thesis
    proof (cases "n = ucast (iobuf_len I (sb_buf b))")
      case True
      with sz have "unat n = length (window_of I b)" by simp
      with r n have wire: "wire (conn_sock c) w' = wire (conn_sock c) w @ window_of I b" by (simp add: written_def)
      show ?thesis
        by (rule wrote [of "c\<lparr>outbuf := rest\<rparr>" w'])
          (use c w n True wire in \<open>auto simp: drain_round_def abind_Ret intro: drained_pop, simp add: pending_bytes_def\<close>)
    next
      case False
      with sz have ne: "unat n \<noteq> length (window_of I b)" by (metis word_unat_eq_iff)
      from r n StreamBuf_advance_window [OF ok, of n b b']
      have adv: "window_of I b' = drop (unat n) (window_of I b)" "sb_tok b' = sb_tok b" by (auto simp: written_def)
      have "0 < unat n" using r n ne by (cases "n = 0") (auto simp: unat_gt_0 written_def)
      then show ?thesis
        by (intro wrote [of "c\<lparr>outbuf := b' # rest\<rparr>" w'] drained_front)
          (use c w n False r ne adv in \<open>auto simp: drain_round_def abind_Ret pending_bytes_def written_def\<close>)
    qed
  next
    case False
    then have "drain_round I M (True, c) w = (Ret (True, (False, c\<lparr>outbuf := b' # rest\<rparr>)), w')"
      using c w by (auto simp: drain_round_def abind_Ret Let_def split: sum.splits NonBlock.splits)
    moreover have "b' = b" "wire (conn_sock c) w' = wire (conn_sock c) w"
      using r False by (auto simp: written_def split: sum.splits NonBlock.splits)
    ultimately show ?thesis using c by (intro stopped [of "c\<lparr>outbuf := b' # rest\<rparr>" w'] drained_front) auto
  qed
qed

lemma drain_loop:
  assumes ok: "iobuf_ok I" and wr: "writes_ok I M wire"
  shows "\<exists>wb c' w'. loop_act (drain_round I M) (True, c) w = Some (Ret (wb, c'), w') \<and> drained I wire c w c' w'"
proof (induction "length (outbuf c) + length (pending_bytes I c)" arbitrary: c w rule: less_induct)
  case less
  show ?case
  proof (cases "outbuf c")
    case Nil
    then have "drain_round I M (True, c) w = (Ret (False, (True, c)), w)" by (simp add: drain_round_def)
    then show ?thesis using drained_refl by (fastforce dest: loop_act_leave)
  next
    case (Cons b rest)
    from ok wr Cons show ?thesis
    proof (cases rule: drain_round_write [of I M wire c b rest w])
      case (wrote c' w')
      with less [of c' w'] show ?thesis by (auto simp: loop_act_again intro: drained_trans)
    next
      case (stopped c' w')
      have "drain_round I M (False, c') w' = (Ret (False, (False, c')), w')"
        by (simp add: drain_round_def split: list.split)
      with stopped show ?thesis by (auto simp: loop_act_again loop_act_leave)
    qed
  qed
qed

text \<open>C15. \<^verbatim>\<open>drain_write_queue_to_socket\<close> returns, with the number of buffers that are left, and the stream of bytes is
  kept: what is on the wire followed by what still waits is what it was before the call. Nothing is
  lost, repeated or reordered by partial writes, by a socket that would block or by an error.\<close>

theorem drain_keeps_the_stream:
  assumes "iobuf_ok I" "writes_ok I M wire"
  shows "\<exists>c' w'. drain_write_queue_to_socket I M c w = Some (Ret (length (outbuf c'), c'), w') \<and>
    wire (conn_sock c) w' @ pending_bytes I c' = wire (conn_sock c) w @ pending_bytes I c \<and>
    c' = c\<lparr>outbuf := outbuf c'\<rparr>"
proof -
  from drain_loop [OF assms, of c w] obtain wb c' w' where
    "loop_act (drain_round I M) (True, c) w = Some (Ret (wb, c'), w')" "drained I wire c w c' w'" by blast
  then show ?thesis by (auto simp: drain_write_queue_to_socket_def pbind_def drained_def)
qed

lemma sample_writes_ok: "writes_ok sample_iobuf sample_mio (\<lambda>_. sent)"
proof -
  have "\<exists>r b' w'. tcp_write sample_mio s (StreamBuf_Buf sample_iobuf) b w = (Ret (r, b'), w') \<and>
      written sample_iobuf (sent w) b r b' (sent w')" for s b and w :: "'m sample_world"
  proof -
    let ?bs = "sample_window (sb_buf b)" and ?n = "min 3 (length (sample_window (sb_buf b)))"
    have n: "unat (of_nat ?n :: usize) = ?n" "unat (ucast (of_nat ?n :: usize) :: u32) = ?n"
      by (simp_all add: unat_of_nat unsigned_ucast_eq take_bit_nat_eq_self)
    have z: "?n = 0 \<Longrightarrow> ?bs = []" by (auto simp: min_def split: if_splits)
    have "written sample_iobuf (sent w) b (Inr (Ready (of_nat ?n))) (StreamBuf (drop ?n ?bs) (sb_tok b)) (sent w @ take ?n ?bs)"
      using n z by (auto simp: written_def sample_iobuf_def StreamBuf_advance_def)
    then show ?thesis by (auto simp: sample_mio_def sample_write_def written_def Let_def)
  qed
  then show ?thesis unfolding writes_ok_def by blast
qed

definition sample_conn :: "(unit, unit, u8 list, u8 list) Connection" where
  "sample_conn = \<lparr>conn_sock = (), outbuf = [StreamBuf [1, 2, 3, 4, 5] (Token 0), StreamBuf [6] (Token 0)], interest = {HUP},
     conn_tx = 0, marker = 0, proto = (), conn_buf = ReadBuf []\<rparr>"

theorem drain_keeps_the_stream_witness:
  "\<exists>c' w'. drain_write_queue_to_socket sample_iobuf sample_mio sample_conn
      \<lparr>stdout = [], chans = (\<lambda>_. sync_queue 4), next_chan = 1, sent = [], arrived = []\<rparr> = Some (Ret (length (outbuf c'), c'), w') \<and>
    sent w' @ pending_bytes sample_iobuf c' = [1, 2, 3, 4, 5, 6]"
  using drain_keeps_the_stream [OF sample_iobuf_ok sample_writes_ok, of sample_conn
      "\<lparr>stdout = [], chans = (\<lambda>_. sync_queue 4), next_chan = 1, sent = [], arrived = []\<rparr>"]
  by (auto simp: sample_conn_def pending_bytes_def sample_iobuf_def sample_window_def)

section \<open>What is expected of a slab\<close>

text \<open>A slab is a map from tokens to entries; an insertion that succeeds takes a token that was free.\<close>

definition slab_ok :: "('t, 'v) slab \<Rightarrow> bool" where
  "slab_ok S \<longleftrightarrow>
     (\<forall>s t. slab_contains S s t \<longleftrightarrow> slab_get S s t \<noteq> None) \<and>
     (\<forall>s t v. slab_get S s t \<noteq> None \<longrightarrow> slab_get S (slab_set S s t v) = (slab_get S s)(t \<mapsto> v)) \<and>
     (\<forall>s t. slab_get S (slab_remove S s t) = (slab_get S s)(t := None)) \<and>
     (\<forall>s v t s'. slab_insert S s v = (Inr t, s') \<longrightarrow> slab_get S s t = None \<and> slab_get S s' = (slab_get S s)(t \<mapsto> v)) \<and>
     (\<forall>s v u s'. slab_insert S s v = (Inl u, s') \<longrightarrow> slab_get S s' = slab_get S s) \<and>
     (\<forall>t n u. slab_get S (slab_new_starting_at S t n) u = None)"

lemma slab_set_get: "slab_ok S \<Longrightarrow> slab_get S s t = Some u \<Longrightarrow> slab_get S (slab_set S s t v) = (slab_get S s)(t \<mapsto> v)"
  unfolding slab_ok_def by blast

lemma slab_remove_get: "slab_ok S \<Longrightarrow> slab_get S (slab_remove S s t) = (slab_get S s)(t := None)"
  unfolding slab_ok_def by blast

lemma slab_insert_get: "slab_ok S \<Longrightarrow> slab_insert S s v = (Inr t, s') \<Longrightarrow> slab_get S s t = None \<and> slab_get S s' = (slab_get S s)(t \<mapsto> v)"
  unfolding slab_ok_def by blast

lemma slab_full_get: "slab_ok S \<Longrightarrow> slab_insert S s v = (Inl u, s') \<Longrightarrow> slab_get S s' = slab_get S s"
  unfolding slab_ok_def by blast

lemma slab_new_get: "slab_ok S \<Longrightarrow> slab_get S (slab_new_starting_at S t n) u = None"
  unfolding slab_ok_def by blast

lemma map_of_filter_key: "map_of (filter (\<lambda>(u, _). u \<noteq> t) s) = (map_of s)(t := None)"
  by (induction s) (auto simp: fun_eq_iff)

lemma sample_slab_ok [simp]: "slab_ok sample_slab"
  by (auto simp: slab_ok_def sample_slab_def map_of_filter_key Let_def split: if_splits)

section \<open>Flushing a connection\<close>

abbreviation conn_at where
  "conn_at E self t \<equiv> slab_get (e_conns E) (conns self) t"

text \<open>Telling the event loop of a change of interest succeeds and writes nothing.\<close>

definition reregisters_ok :: "('w, 's, 'l, 'c, 'a, 'b, 'ip, 'h, 'q) mio \<Rightarrow> ('s \<Rightarrow> 'w \<Rightarrow> u8 list) \<Rightarrow> bool" where
  "reregisters_ok M wire \<longleftrightarrow>
     (\<forall>s t i w. \<exists>w'. el_reregister_sock M s t i w = (Ret (Inr ()), w') \<and> (\<forall>s'. wire s' w' = wire s' w))"

lemma flush_connection_returns:
  assumes ok: "iobuf_ok (e_iobuf E)" "writes_ok (e_iobuf E) (e_mio E) wire" "slab_ok (e_conns E)" "reregisters_ok (e_mio E) wire"
    and c: "conn_at E self t = Some c0"
  obtains self' c' w' where "flush_connection E self t c w = Some (Ret self', w')"
    "slab_get (e_conns E) (conns self') = (slab_get (e_conns E) (conns self))(t \<mapsto> c')"
    "self' = self\<lparr>conns := conns self'\<rparr>"
    "wire (conn_sock c) w' @ pending_bytes (e_iobuf E) c' = wire (conn_sock c) w @ pending_bytes (e_iobuf E) c"
    "\<exists>k. map sb_tok (outbuf c') = drop k (map sb_tok (outbuf c))"
    "interest c' = interest c \<union> (if outbuf c' = [] then {} else {WRITABLE})" "conn_sock c' = conn_sock c"
proof -
  from drain_loop [OF ok(1,2), of c w] obtain wb c1 w1 where
    loop: "loop_act (drain_round (e_iobuf E) (e_mio E)) (True, c) w = Some (Ret (wb, c1), w1)"
    and dr: "drained (e_iobuf E) wire c w c1 w1" by blast
  have c1: "interest c1 = interest c" "conn_sock c1 = conn_sock c"
    using dr by (metis Connection.ext_inject Connection.surjective Connection.update_convs(2) drained_def)+
  show ?thesis
  proof (cases "outbuf c1 = []")
    case True
    with loop have "flush_connection E self t c w = Some (Ret (self\<lparr>conns := slab_set (e_conns E) (conns self) t c1\<rparr>), w1)"
      by (simp add: flush_connection_def drain_write_queue_to_socket_def pbind_def)
    then show ?thesis using True dr c1 slab_set_get [OF ok(3) c]
      by (intro that [of "self\<lparr>conns := slab_set (e_conns E) (conns self) t c1\<rparr>" w1 c1]) (auto simp: drained_def)
  next
    case False
    let ?c = "c1\<lparr>interest := insert WRITABLE (interest c1)\<rparr>"
    from ok(4) obtain w2 where w2: "el_reregister_sock (e_mio E) (conn_sock c1) t (interest ?c) w1 = (Ret (Inr ()), w2)"
      "\<And>s. wire s w2 = wire s w1" unfolding reregisters_ok_def by blast
    have "flush_connection E self t c w = Some (Ret (self\<lparr>conns := slab_set (e_conns E) (conns self) t ?c\<rparr>), w2)"
      using loop False w2(1) by (simp add: flush_connection_def drain_write_queue_to_socket_def pbind_def abind_def unwrap_io_def Let_def)
    then show ?thesis using False dr c1 slab_set_get [OF ok(3) c] w2(2)
      by (intro that [of "self\<lparr>conns := slab_set (e_conns E) (conns self) t ?c\<rparr>" w2 ?c]) (auto simp: drained_def pending_bytes_def)
  qed
qed

text \<open>A message for a connection goes to the end of that connection's stream of bytes: after \<^verbatim>\<open>notify\<close> what is on
  the wire followed by what waits is what it was, followed by the message. If anything still waits the
  interest of the connection includes writing; no other connection is touched. A message for a token without a
  connection is dropped and changes nothing.\<close>

theorem notify_appends_to_the_stream:
  assumes "iobuf_ok (e_iobuf E)" "writes_ok (e_iobuf E) (e_mio E) wire" "slab_ok (e_conns E)" "reregisters_ok (e_mio E) wire"
  shows "case conn_at E self t of
      None \<Rightarrow> handle_notify E self (StreamBuf b t) w = Some (Ret self, w)
    | Some c \<Rightarrow> \<exists>self' c' w'. handle_notify E self (StreamBuf b t) w = Some (Ret self', w') \<and>
        slab_get (e_conns E) (conns self') = (slab_get (e_conns E) (conns self))(t \<mapsto> c') \<and>
        wire (conn_sock c) w' @ pending_bytes (e_iobuf E) c' =
          wire (conn_sock c) w @ pending_bytes (e_iobuf E) c @ iobuf_window (e_iobuf E) b \<and>
        (outbuf c' \<noteq> [] \<longrightarrow> WRITABLE \<in> interest c')"
proof (cases "conn_at E self t")
  case None
  then show ?thesis by (simp add: handle_notify_def)
next
  case (Some c)
  let ?c = "c\<lparr>outbuf := outbuf c @ [StreamBuf b t]\<rparr>"
  obtain self' c' w' where "flush_connection E self t ?c w = Some (Ret self', w')"
    "slab_get (e_conns E) (conns self') = (slab_get (e_conns E) (conns self))(t \<mapsto> c')"
    "wire (conn_sock c) w' @ pending_bytes (e_iobuf E) c' = wire (conn_sock c) w @ pending_bytes (e_iobuf E) ?c"
    "interest c' = interest c \<union> (if outbuf c' = [] then {} else {WRITABLE})"
    by (rule flush_connection_returns [OF assms Some, of ?c w]) auto
  then show ?thesis using Some by (auto simp: handle_notify_def pending_bytes_def)
qed

lemma sample_env_fields [simp]:
  "e_iobuf (sample_env P) = sample_iobuf" "e_mio (sample_env P) = sample_mio" "e_conns (sample_env P) = sample_slab"
  "e_listeners (sample_env P) = sample_slab" "e_proto (sample_env P) = P" "e_ab (sample_env P) = sample_ab"
  "e_timeouts (sample_env P) = sample_slab" "e_call (sample_env P) cb = ret (cb, cb)"
  by (simp_all add: sample_env_def)

lemma sample_reregisters_ok: "reregisters_ok sample_mio (\<lambda>_. sent)"
  by (simp add: reregisters_ok_def sample_mio_def)

definition sample_config :: "unit NetEngineConfig" where
  "sample_config = \<lparr>queue_size = 4, read_buf_sz = 1536, min_read_buf_sz = 64, max_connections = 8, poll_timeout_ms = 100,
     config_allocator = None\<rparr>"

definition sample_engine where
  "sample_engine = \<lparr>listeners = [], timeouts = [], conns = [(Token 0, sample_conn)], config = sample_config\<rparr>"

definition sample_start :: "'m sample_world" where
  "sample_start = \<lparr>stdout = [], chans = (\<lambda>_. sync_queue 4), next_chan = 1, sent = [], arrived = [1, 2, 3, 4, 5, 6, 7, 8, 9]\<rparr>"

lemma sample_fields [simp]:
  "iobuf_window sample_iobuf b = take 4294967295 b" "slab_get sample_slab = map_of"
  "conns sample_engine = [(Token 0, sample_conn)]" "sent sample_start = []"
  "pending_bytes sample_iobuf sample_conn = [1, 2, 3, 4, 5, 6]"
  by (simp_all add: sample_iobuf_def sample_window_def sample_slab_def sample_engine_def sample_start_def pending_bytes_def sample_conn_def)

theorem notify_appends_to_the_stream_witness:
  "\<exists>self' c' w'. handle_notify (sample_env (BufProtocol sample_iobuf (protocol_size 4))) sample_engine (StreamBuf [9] (Token 0)) sample_start =
      Some (Ret self', w') \<and> map_of (conns self') = [Token 0 \<mapsto> c'] \<and>
    sent w' @ pending_bytes sample_iobuf c' = [1, 2, 3, 4, 5, 6, 9]"
  using notify_appends_to_the_stream [of "sample_env (BufProtocol sample_iobuf (protocol_size 4))" "\<lambda>_. sent" sample_engine
      "[9]" "Token 0" sample_start]
  by (auto simp: sample_writes_ok sample_reregisters_ok)

end
