(* ===== verification/Rx_Engine.thy ===== *)
theory Rx_Engine
  imports Rx_Reactor_Write
begin

text \<open>
  The engine over time: the events the loop delivers and the calls the program makes, in any order, as a
  step relation on the engine and the world, and what holds in every state that can be reached.
\<close>

section \<open>Steps\<close>

datatype 'b event = Readable Token "ReadHint set" | Writable Token | Notify "'b StreamBuf" | TimedOut Token

definition dispatch :: "('w, 'h, 'b) handler \<Rightarrow> 'b event \<Rightarrow> 'h \<Rightarrow> ('w, 'h) pact" where
  "dispatch H ev self = (case ev of
      Readable t hint \<Rightarrow> h_readable H self t hint
    | Writable t \<Rightarrow> h_writable H self t
    | Notify msg \<Rightarrow> h_notify H self msg
    | TimedOut t \<Rightarrow> h_timeout H self t)"

abbreviation handle where
  "handle E \<equiv> dispatch (EngineInner_Handler E)"

lemma handle_def: "handle E ev self = (case ev of
      Readable t hint \<Rightarrow> readable E self t hint
    | Writable t \<Rightarrow> handle_writable E self t
    | Notify msg \<Rightarrow> handle_notify E self msg
    | TimedOut t \<Rightarrow> once (handle_timeout E self t))"
  by (simp add: dispatch_def EngineInner_Handler_def split: event.split)

text \<open>An event loop that delivers some events and comes to its end.\<close>

primrec events_loop :: "'b event list \<Rightarrow> ('w, 'h, 'b) handler \<Rightarrow> 'h \<Rightarrow> ('w, unit + 'h) pact" where
  "events_loop [] H h = once (ret (Inr h))"
| "events_loop (ev # evs) H h = pbind (dispatch H ev h) (events_loop evs H)"

lemma events_loop_append:
  "events_loop evs H h w = Some (Ret (Inr h'), w') \<Longrightarrow> events_loop (evs @ evs') H h w = events_loop evs' H h' w'"
  by (induction evs arbitrary: h w) (auto simp: pbind_eq_Ret pbind_Ret)

text \<open>
  While the engine waits for events the rest of the program and the system do what they like, except that
  nobody else holds a sender of the engine's queues: the sender counts stay.
\<close>

definition same_ends :: "('m, 'z) net_world_scheme \<Rightarrow> ('m, 'z) net_world_scheme \<Rightarrow> bool" where
  "same_ends w w' \<longleftrightarrow> next_chan w' = next_chan w \<and> (\<forall>q. ch_senders (chans w' q) = ch_senders (chans w q))"

inductive engine_step for E where
  event: "handle E ev self w = Some (Ret self', w') \<Longrightarrow> engine_step E (self, w) (self', w')"
| connect: "NetEngine_connect E self host port w = (Ret (r, self'), w') \<Longrightarrow> engine_step E (self, w) (self', w')"
| listen: "NetEngine_listen E self host port w = (Ret (r, self'), w') \<Longrightarrow> engine_step E (self, w) (self', w')"
| timeout: "NetEngine_timeout E self duration cb w = (Ret self', w') \<Longrightarrow> engine_step E (self, w) (self', w')"
| elsewhere: "same_ends w w' \<Longrightarrow> engine_step E (self, w) (self, w')"

inductive engine_reach for E cfg w0 where
  start: "engine_reach E cfg w0 (EngineInner_new E cfg, w0)"
| step: "engine_reach E cfg w0 x \<Longrightarrow> engine_step E x y \<Longrightarrow> engine_reach E cfg w0 y"

section \<open>The invariant\<close>

text \<open>
  The interest of a connection with bytes left includes writing (that the event loop knows of it is \<^verbatim>\<open>Rx_Registration\<close>); what waits
  on a connection was addressed to it.
\<close>

definition conn_ok :: "Token \<Rightarrow> ('s, 'p, 'a, 'b) Connection \<Rightarrow> bool" where
  "conn_ok t c \<longleftrightarrow> (outbuf c \<noteq> [] \<longrightarrow> WRITABLE \<in> interest c) \<and> (\<forall>m\<in>set (outbuf c). sb_tok m = t)"

definition engine_inv where
  "engine_inv E self \<longleftrightarrow> (\<forall>t c. conn_at E self t = Some c \<longrightarrow> conn_ok t c)"

lemma engine_inv_update:
  assumes "engine_inv E self" "slab_get (e_conns E) cs = (slab_get (e_conns E) (conns self))(t \<mapsto> c)" "conn_ok t c"
  shows "engine_inv E (self\<lparr>conns := cs\<rparr>)"
  using assms by (auto simp: engine_inv_def)

lemma conn_ok_new: "conn_ok t (Connection_new P s tx buf)"
  by (simp add: conn_ok_def Connection_new_def)

lemma engine_inv_insert:
  assumes "slab_ok (e_conns E)" "engine_inv E self" "slab_insert (e_conns E) (conns self) (Connection_new P s tx buf) = (r, cs)"
  shows "engine_inv E (self\<lparr>conns := cs\<rparr>)"
proof (cases r)
  case (Inl u)
  with slab_full_get [OF assms(1)] assms(3) have "slab_get (e_conns E) cs = slab_get (e_conns E) (conns self)" by blast
  with assms(2) show ?thesis by (simp add: engine_inv_def)
next
  case (Inr t)
  with slab_insert_get [OF assms(1)] assms(3)
  have "slab_get (e_conns E) cs = (slab_get (e_conns E) (conns self))(t \<mapsto> Connection_new P s tx buf)" by blast
  from engine_inv_update [OF assms(2) this conn_ok_new] show ?thesis .
qed

lemma flush_connection_inv:
  assumes ok: "iobuf_ok (e_iobuf E)" "writes_ok (e_iobuf E) (e_mio E) wire" "slab_ok (e_conns E)" "reregisters_ok (e_mio E) wire"
    and c: "conn_at E self t = Some c0" "\<forall>m\<in>set (outbuf c). sb_tok m = t"
    and inv: "engine_inv E self" and step: "flush_connection E self t c w = Some (Ret self', w')"
  shows "engine_inv E self'"
proof -
  obtain self1 c' w1 where fl: "flush_connection E self t c w = Some (Ret self1, w1)"
    "slab_get (e_conns E) (conns self1) = (slab_get (e_conns E) (conns self))(t \<mapsto> c')" "self1 = self\<lparr>conns := conns self1\<rparr>"
    and k: "\<exists>k. map sb_tok (outbuf c') = drop k (map sb_tok (outbuf c))"
    and i: "interest c' = interest c \<union> (if outbuf c' = [] then {} else {WRITABLE})"
    by (rule flush_connection_returns [OF ok c(1), of c w])
  from k have "set (map sb_tok (outbuf c')) \<subseteq> set (map sb_tok (outbuf c))" by (metis set_drop_subset)
  with c(2) i have "conn_ok t c'" by (auto simp: conn_ok_def)
  from engine_inv_update [OF inv fl(2) this] fl step show ?thesis by simp
qed

section \<open>Reading keeps what waits to be written\<close>

definition same_output :: "('s, 'p, 'a, 'b) Connection \<Rightarrow> ('s, 'p, 'a, 'b) Connection \<Rightarrow> bool" where
  "same_output c c' \<longleftrightarrow> outbuf c' = outbuf c \<and> interest c' = interest c \<and> conn_tx c' = conn_tx c \<and> conn_sock c' = conn_sock c"

lemma same_output_trans: "same_output c c1 \<Longrightarrow> same_output c1 c2 \<Longrightarrow> same_output c c2"
  by (simp add: same_output_def)

lemma frame_round_same_output:
  assumes "frame_round P t (abuf, c) w = (Ret (b, (abuf', c')), w')"
  shows "same_output c c'"
  using assms by (auto simp: frame_round_def abind_eq_Ret same_output_def split: option.splits)

lemma frame_loop_same_output:
  assumes "loop_act (frame_round P t) (abuf, c) w = Some (Ret (abuf', c'), w')"
  shows "same_output c c'"
proof -
  have "case (abuf', c') of (_, c') \<Rightarrow> same_output c c'"
  proof (rule loop_act_invariant [OF assms, of "\<lambda>(_, c'). same_output c c'"])
    show "case (abuf, c) of (_, c') \<Rightarrow> same_output c c'" by (simp add: same_output_def)
  next
    fix s w b s' w'
    assume "case s of (_, c') \<Rightarrow> same_output c c'" "frame_round P t s w = (Ret (b, s'), w')"
    then show "case s' of (_, c') \<Rightarrow> same_output c c'"
      by (cases s; cases s') (auto dest: frame_round_same_output intro: same_output_trans)
  qed
  then show ?thesis by simp
qed

lemma read_frames_same_output:
  assumes "read_frames E cfg t c n w = Some (Ret c', w')"
  shows "same_output c c'"
proof -
  from assms obtain abuf w1 abuf2 c2 w2 where
    loop: "loop_act (frame_round (e_proto E) t) (abuf, c) w1 = Some (Ret (abuf2, c2), w2)" and c': "same_output c2 c'"
    unfolding read_frames_def pbind_eq_Ret by (auto simp: Let_def same_output_def split: if_splits)
  from frame_loop_same_output [OF loop] c' show ?thesis by (rule same_output_trans)
qed

lemma readable_connection_inv:
  assumes ok: "slab_ok (e_conns E)" and c: "conn_at E self t = Some c" and inv: "engine_inv E self"
    and step: "readable_connection E self t hint c w = Some (Ret self', w')"
  shows "engine_inv E self'"
proof -
  from step obtain r c1 w1 c2 w2 where
    rd: "Connection_read (e_ab E) (e_mio E) c w = (Ret (r, c1), w1)"
    and fr: "(case r of Inr (Ready n) \<Rightarrow> read_frames E (config self) t c1 n | _ \<Rightarrow> once (ret c1)) w1 = Some (Ret c2, w2)"
    and rest: "self' = self\<lparr>conns := slab_remove (e_conns E) (conns self) t\<rparr> \<or>
       self' = self\<lparr>conns := slab_set (e_conns E) (conns self) t (c2\<lparr>interest := insert READABLE (interest c2)\<rparr>)\<rparr>"
    by (auto simp: readable_connection_def pbind_eq_Ret abind_eq_Ret Let_def split: if_splits)
  from rd have "same_output c c1" by (auto simp: Connection_read_def abind_eq_Ret same_output_def)
  moreover from fr have "same_output c1 c2"
    by (auto simp: same_output_def split: sum.splits NonBlock.splits dest: read_frames_same_output)
  ultimately have "same_output c c2" by (rule same_output_trans)
  with inv c have "conn_ok t (c2\<lparr>interest := insert READABLE (interest c2)\<rparr>)"
    by (auto simp: engine_inv_def conn_ok_def same_output_def)
  from engine_inv_update [OF inv slab_set_get [OF ok c] this] rest inv show ?thesis
    by (auto simp: engine_inv_def slab_remove_get [OF ok] split: if_splits)
qed

lemma accept_connection_inv:
  assumes ok: "slab_ok (e_conns E)" and inv: "engine_inv E self"
    and step: "accept_connection E self tx s w = (Ret self', w')"
  shows "engine_inv E self'"
proof -
  obtain r cs where ins: "slab_insert (e_conns E) (conns self) (Connection_new (e_proto E) s tx
      (new_buf (e_ab E) (read_buf_sz (config self)) (config_allocator (config self)))) = (r, cs)" by (metis surj_pair)
  then have "self' = self\<lparr>conns := cs\<rparr>"
    using step by (auto simp: accept_connection_def Let_def abind_eq_Ret split: sum.splits)
  with engine_inv_insert [OF ok inv ins] show ?thesis by simp
qed

lemma readable_listener_inv:
  assumes ok: "slab_ok (e_conns E)" and inv: "engine_inv E self"
    and step: "readable_listener E self t w = (Ret self', w')"
  shows "engine_inv E self'"
proof -
  from step obtain tx and r :: "io_error + _ NonBlock" and w1 w2 where
    "(case r of Inr (Ready s) \<Rightarrow> accept_connection E self tx s | _ \<Rightarrow> ret self) w1 = (Ret self', w2)"
    by (auto simp: readable_listener_def abind_eq_Ret)
  then show ?thesis using inv accept_connection_inv [OF ok inv] by (auto split: sum.splits NonBlock.splits)
qed

lemma handle_timeout_conns: "handle_timeout E self t w = (Ret self', w') \<Longrightarrow> conns self' = conns self"
  by (auto simp: handle_timeout_def abind_eq_Ret Let_def split: if_splits)

lemma NetEngine_timeout_conns: "NetEngine_timeout E self d cb w = (Ret self', w') \<Longrightarrow> conns self' = conns self"
  by (auto simp: NetEngine_timeout_def elim!: abind_RetE split: prod.split_asm sum.split_asm)

lemma EngineInner_listen_conns: "EngineInner_listen E self host port w = (Ret (r, self'), w') \<Longrightarrow> conns self' = conns self"
  by (auto simp: EngineInner_listen_def Let_def elim!: abind_RetE split: prod.split_asm sum.split_asm)

lemma EngineInner_connect_inv:
  assumes "slab_ok (e_conns E)" "engine_inv E self" "EngineInner_connect E self host port w = (Ret (r, self'), w')"
  shows "engine_inv E self'"
  using assms(3,2)
  by (auto simp: EngineInner_connect_def Let_def elim!: abind_RetE split: prod.split_asm sum.split_asm)
    (rule engine_inv_insert [OF assms(1,2)], assumption)+

lemma engine_inv_conns: "engine_inv E self \<Longrightarrow> conns self' = conns self \<Longrightarrow> engine_inv E self'"
  by (simp add: engine_inv_def)

text \<open>The contracts of the libraries, for a whole environment.\<close>

definition env_ok where
  "env_ok E wire \<longleftrightarrow> iobuf_ok (e_iobuf E) \<and> writes_ok (e_iobuf E) (e_mio E) wire \<and> reregisters_ok (e_mio E) wire \<and>
     slab_ok (e_conns E) \<and> slab_ok (e_listeners E) \<and> slab_ok (e_timeouts E)"

lemma handle_inv:
  assumes ok: "env_ok E wire" and inv: "engine_inv E self" and step: "handle E ev self w = Some (Ret self', w')"
  shows "engine_inv E self'"
proof -
  have toks: "\<forall>m\<in>set (outbuf c). sb_tok m = t" if "conn_at E self t = Some c" for t c
    using inv that by (auto simp: engine_inv_def conn_ok_def)
  from ok have lib: "iobuf_ok (e_iobuf E)" "writes_ok (e_iobuf E) (e_mio E) wire" "slab_ok (e_conns E)" "reregisters_ok (e_mio E) wire"
    by (simp_all add: env_ok_def)
  show ?thesis
  proof (cases ev)
    case (Readable t hint)
    with step inv show ?thesis
      by (auto simp: handle_def readable_def split: if_splits option.splits
          intro: readable_connection_inv [OF lib(3)] readable_listener_inv [OF lib(3)])
  next
    case (Writable t)
    show ?thesis
    proof (cases "conn_at E self t")
      case (Some c)
      with step Writable have "flush_connection E self t c w = Some (Ret self', w')" by (simp add: handle_def handle_writable_def)
      from flush_connection_inv [OF lib Some toks [OF Some] inv this] show ?thesis .
    qed (use step inv Writable in \<open>auto simp: handle_def handle_writable_def\<close>)
  next
    case (Notify msg)
    show ?thesis
    proof (cases "conn_at E self (sb_tok msg)")
      case (Some c)
      with step Notify have fl: "flush_connection E self (sb_tok msg) (c\<lparr>outbuf := outbuf c @ [msg]\<rparr>) w = Some (Ret self', w')"
        by (simp add: handle_def handle_notify_def)
      show ?thesis by (rule flush_connection_inv [OF lib Some _ inv fl]) (use toks [OF Some] in auto)
    qed (use step inv Notify in \<open>auto simp: handle_def handle_notify_def\<close>)
  next
    case (TimedOut t)
    with step inv show ?thesis by (auto simp: handle_def dest: handle_timeout_conns intro: engine_inv_conns)
  qed
qed

lemma engine_step_inv:
  assumes ok: "env_ok E wire" and "engine_step E x y" "engine_inv E (fst x)"
  shows "engine_inv E (fst y)"
  using assms(2,3)
proof (induction rule: engine_step.induct)
  case (event ev self w self' w')
  with handle_inv [OF ok] show ?case by simp
next
  case (connect self host port w r self' w')
  with EngineInner_connect_inv [of E self] ok show ?case by (simp add: env_ok_def NetEngine_connect_def)
next
  case (listen self host port w r self' w')
  then show ?case by (auto simp: NetEngine_listen_def dest: EngineInner_listen_conns intro: engine_inv_conns)
next
  case (timeout self duration cb w self' w')
  then show ?case by (auto dest: NetEngine_timeout_conns intro: engine_inv_conns)
next
  case (elsewhere w w' self)
  then show ?case by simp
qed

lemma engine_reach_inv:
  assumes "env_ok E wire"
  shows "engine_reach E cfg w0 x \<Longrightarrow> engine_inv E (fst x)"
proof (induction rule: engine_reach.induct)
  case start
  from assms show ?case by (simp add: engine_inv_def EngineInner_new_def env_ok_def slab_new_get)
next
  case (step x y)
  with engine_step_inv [OF assms] show ?case by blast
qed

lemma sample_env_ok: "env_ok (sample_env P) (\<lambda>_. sent)"
  by (simp add: env_ok_def sample_writes_ok sample_reregisters_ok)

abbreviation sample_buf_env where
  "sample_buf_env \<equiv> sample_env (BufProtocol sample_iobuf (protocol_size 4))"

end
