(* ===== verification/Rx_Engine_Tokens.thy ===== *)
theory Rx_Engine_Tokens
  imports Rx_Engine
begin

text \<open>
  The tokens of the engine (\<^verbatim>\<open>src/reactor.rs\<close>): listeners, timeouts and connections live in three slabs that start
  at different tokens, and \<^verbatim>\<open>readable\<close> tells a listener from a connection by asking the slab of the listeners
  first. That is right only if a connection never has the token of a listener.
\<close>

section \<open>Slabs with a range\<close>

text \<open>The states of a slab that was made for \<open>cap\<close> entries from the token \<open>base\<close> on.\<close>

inductive slab_made for S base cap where
  fresh: "slab_made S base cap (slab_new_starting_at S (Token base) cap)"
| insert: "slab_made S base cap s \<Longrightarrow> slab_insert S s v = (r, s') \<Longrightarrow> slab_made S base cap s'"
| overwrite: "slab_made S base cap s \<Longrightarrow> slab_get S s t \<noteq> None \<Longrightarrow> slab_made S base cap (slab_set S s t v)"
| remove: "slab_made S base cap s \<Longrightarrow> slab_made S base cap (slab_remove S s t)"

text \<open>What \<^verbatim>\<open>mio\<close> says of its slabs: the tokens given out are those from the first one on, as many as the slab holds.\<close>

definition slab_in_range :: "('t, 'v) slab \<Rightarrow> bool" where
  "slab_in_range S \<longleftrightarrow> (\<forall>base cap s t v. slab_made S base cap s \<longrightarrow> slab_get S s (Token t) = Some v \<longrightarrow>
     unat base \<le> unat t \<and> unat t < unat base + unat cap)"

lemma in_range:
  "slab_in_range S \<Longrightarrow> slab_made S base cap s \<Longrightarrow> slab_get S s (Token t) = Some v \<Longrightarrow>
    unat base \<le> unat t \<and> unat t < unat base + unat cap"
  unfolding slab_in_range_def by blast

section \<open>The slabs of the engine\<close>

definition slabs_made where
  "slabs_made E self cfg \<longleftrightarrow> slab_made (e_listeners E) 0 128 (listeners self) \<and>
     slab_made (e_timeouts E) 129 255 (timeouts self) \<and> slab_made (e_conns E) 256 (max_connections cfg + 256) (conns self)"

lemma flush_connection_made:
  "slabs_made E self cfg \<Longrightarrow> conn_at E self t = Some c0 \<Longrightarrow> flush_connection E self t c w = Some (Ret self', w') \<Longrightarrow> slabs_made E self' cfg"
  by (auto simp: slabs_made_def flush_connection_def pbind_eq_Ret abind_eq_Ret Let_def split: if_splits intro!: slab_made.overwrite)

lemma readable_connection_made:
  "slabs_made E self cfg \<Longrightarrow> conn_at E self t = Some c0 \<Longrightarrow> readable_connection E self t hint c w = Some (Ret self', w') \<Longrightarrow>
    slabs_made E self' cfg"
  by (auto simp: slabs_made_def readable_connection_def pbind_eq_Ret abind_eq_Ret Let_def split: if_splits intro!: slab_made.overwrite slab_made.remove)

lemma accept_connection_made:
  "slabs_made E self cfg \<Longrightarrow> accept_connection E self tx s w = (Ret self', w') \<Longrightarrow> slabs_made E self' cfg"
  by (auto simp: slabs_made_def accept_connection_def Let_def elim!: abind_RetE split: prod.split_asm sum.split_asm intro: slab_made.insert)

lemma readable_listener_made:
  "slabs_made E self cfg \<Longrightarrow> readable_listener E self t w = (Ret self', w') \<Longrightarrow> slabs_made E self' cfg"
  by (auto simp: readable_listener_def elim!: abind_RetE split: sum.split_asm NonBlock.split_asm intro: accept_connection_made)

lemma handle_timeout_made:
  "slabs_made E self cfg \<Longrightarrow> handle_timeout E self t w = (Ret self', w') \<Longrightarrow> slabs_made E self' cfg"
  by (auto simp: slabs_made_def handle_timeout_def unwrap_option_def Let_def elim!: abind_RetE split: option.split_asm if_split_asm
      intro!: slab_made.overwrite)

lemma connect_made:
  "slabs_made E self cfg \<Longrightarrow> EngineInner_connect E self host port w = (Ret (r, self'), w') \<Longrightarrow> slabs_made E self' cfg"
  by (auto simp: slabs_made_def EngineInner_connect_def Let_def elim!: abind_RetE split: prod.split_asm sum.split_asm)
    (rule slab_made.insert, assumption+)+

lemma listen_made:
  "slabs_made E self cfg \<Longrightarrow> EngineInner_listen E self host port w = (Ret (r, self'), w') \<Longrightarrow> slabs_made E self' cfg"
  by (auto simp: slabs_made_def EngineInner_listen_def Let_def elim!: abind_RetE split: prod.split_asm sum.split_asm)
    (rule slab_made.insert, assumption+)+

lemma NetEngine_timeout_made:
  "slabs_made E self cfg \<Longrightarrow> NetEngine_timeout E self d cb w = (Ret self', w') \<Longrightarrow> slabs_made E self' cfg"
  by (auto simp: slabs_made_def NetEngine_timeout_def unwrap_option_def elim!: abind_RetE split: prod.split_asm sum.split_asm option.split_asm
      intro!: slab_made.overwrite intro: slab_made.insert)

lemmas handlers_made = flush_connection_made readable_connection_made readable_listener_made handle_timeout_made
  connect_made listen_made NetEngine_timeout_made

lemma handle_slabs_made:
  "slabs_made E self cfg \<Longrightarrow> handle E ev self w = Some (Ret self', w') \<Longrightarrow> slabs_made E self' cfg"
  by (cases ev) (auto simp: handle_def readable_def handle_writable_def handle_notify_def split: if_splits option.splits intro: handlers_made)

lemma engine_step_slabs_made:
  "engine_step E x y \<Longrightarrow> slabs_made E (fst x) cfg \<Longrightarrow> slabs_made E (fst y) cfg"
  by (induction rule: engine_step.induct) (auto simp: NetEngine_connect_def NetEngine_listen_def intro: handle_slabs_made handlers_made)

lemma engine_reach_slabs_made:
  "engine_reach E cfg w0 x \<Longrightarrow> slabs_made E (fst x) cfg"
proof (induction rule: engine_reach.induct)
  case start
  show ?case by (simp add: slabs_made_def EngineInner_new_def slab_made.fresh)
next
  case (step x y)
  with engine_step_slabs_made show ?case by blast
qed

lemma connection_no_listener:
  assumes "slab_in_range (e_listeners E)" "slab_in_range (e_conns E)" "engine_reach E cfg w0 (self, w)" "conn_at E self (Token t) = Some c"
  shows "256 \<le> unat t" "slab_get (e_listeners E) (listeners self) (Token t) = None"
proof -
  from engine_reach_slabs_made [OF assms(3)] have made: "slab_made (e_listeners E) 0 128 (listeners self)"
    "slab_made (e_conns E) 256 (max_connections cfg + 256) (conns self)" by (simp_all add: slabs_made_def)
  show t: "256 \<le> unat t" using in_range [OF assms(2) made(2) assms(4)] by simp
  show "slab_get (e_listeners E) (listeners self) (Token t) = None"
  proof (rule ccontr)
    assume "slab_get (e_listeners E) (listeners self) (Token t) \<noteq> None"
    then obtain v where "slab_get (e_listeners E) (listeners self) (Token t) = Some v" by blast
    from in_range [OF assms(1) made(1) this] t show False by simp
  qed
qed

text \<open>C14. A connection never has the token of a listener, in any state the engine can get to: the tokens of the
  connections begin at 256, where those of the listeners have ended. So \<^verbatim>\<open>readable\<close> never takes a connection for
  a listener, and an event for a connection is always handled by the part that reads from it.\<close>

theorem tokens_tell_connections:
  assumes "slab_in_range (e_listeners E)" "slab_in_range (e_conns E)" "slab_ok (e_listeners E)"
    and "engine_reach E cfg w0 (self, w)" "conn_at E self (Token t) = Some c"
  shows "256 \<le> unat t \<and> slab_get (e_listeners E) (listeners self) (Token t) = None \<and>
    readable E self (Token t) hint = readable_connection E self (Token t) hint c"
  using connection_no_listener [OF assms(1,2,4,5)] assms(3,5) by (simp add: readable_def slab_ok_def)

section \<open>A platform with ranges\<close>

definition ranged_slab :: "(usize \<times> usize \<times> nat \<times> (Token \<times> 'v) list, 'v) slab" where
  "ranged_slab =
     \<lparr>slab_new_starting_at = (\<lambda>t n. case t of Token base \<Rightarrow> (base, n, 0, [])),
      slab_insert = (\<lambda>(base, cap, used, vs) v.
        if used < unat cap \<and> unat base + used < 2 ^ 64 \<and> map_of vs (Token (base + of_nat used)) = None
        then (Inr (Token (base + of_nat used)), (base, cap, Suc used, (Token (base + of_nat used), v) # vs))
        else (Inl v, (base, cap, used, vs))),
      slab_contains = (\<lambda>(base, cap, used, vs) t. map_of vs t \<noteq> None), slab_get = (\<lambda>(base, cap, used, vs). map_of vs),
      slab_set = (\<lambda>(base, cap, used, vs) t v. (base, cap, used, (t, v) # vs)),
      slab_remove = (\<lambda>(base, cap, used, vs) t. (base, cap, used, filter (\<lambda>(u, _). u \<noteq> t) vs)),
      slab_values = (\<lambda>(base, cap, used, vs). map (\<lambda>t. the (map_of vs t)) (remdups (map fst vs)))\<rparr>"

lemma unat_add_of_nat: "unat (base :: usize) + n < 2 ^ 64 \<Longrightarrow> unat (base + of_nat n) = unat base + n"
  by (simp add: unat_word_ariths unat_of_nat)

lemma ranged_made:
  assumes "slab_made ranged_slab base cap s"
  shows "\<exists>used vs. s = (base, cap, used, vs) \<and> (\<forall>(t, v)\<in>set vs. \<exists>u. t = Token u \<and> unat base \<le> unat u \<and> unat u < unat base + unat cap)"
  using assms
proof (induction rule: slab_made.induct)
  case fresh
  show ?case by (simp add: ranged_slab_def)
next
  case (insert s v r s')
  then show ?case by (auto simp: ranged_slab_def unat_add_of_nat split: if_splits)
next
  case (overwrite s t v)
  then show ?case by (auto simp: ranged_slab_def dest!: map_of_SomeD)
next
  case (remove s t)
  then show ?case by (auto simp: ranged_slab_def)
qed

lemma ranged_slab_in_range: "slab_in_range ranged_slab"
proof -
  have get: "slab_get ranged_slab (base, cap, used, vs) = map_of vs" for base cap used and vs :: "(Token \<times> 'v) list"
    by (simp add: ranged_slab_def)
  show ?thesis by (auto simp: slab_in_range_def get dest!: ranged_made map_of_SomeD)
qed

lemma ranged_slab_ok: "slab_ok ranged_slab"
  by (auto simp: slab_ok_def ranged_slab_def fun_eq_iff map_of_filter_key split: if_splits Token.split)

definition ranged_env where
  "ranged_env = \<lparr>e_iobuf = sample_iobuf, e_ab = sample_ab,
     e_mio = (sample_mio :: (u8 list ProtoMsg sample_world, _, _, _, _, _, _, _, _) mio), e_proto = BufProtocol sample_iobuf (protocol_size 4),
     e_listeners = ranged_slab, e_timeouts = ranged_slab, e_conns = ranged_slab, e_call = (\<lambda>cb. ret (cb, cb))\<rparr>"

theorem tokens_tell_connections_witness:
  "\<exists>self w c. engine_reach ranged_env sample_config sample_start (self, w) \<and> conn_at ranged_env self (Token 256) = Some c \<and>
    readable ranged_env self (Token 256) {} = readable_connection ranged_env self (Token 256) {} c"
  (is "\<exists>self w c. engine_reach ?E ?cfg ?w0 (self, w) \<and> _")
proof -
  obtain r self w c where s: "NetEngine_connect ?E (EngineInner_new ?E ?cfg) ''host'' 80 ?w0 = (Ret (r, self), w)"
    and c: "conn_at ?E self (Token 256) = Some c"
    by (simp add: ranged_env_def NetEngine_connect_def EngineInner_connect_def EngineInner_new_def sample_mio_def abind_def unwrap_io_def
        first_address_def sync_channel_def ranged_slab_def unwrap_option_def new_buf_def sample_ab_def sample_config_def Let_def)
  have reach: "engine_reach ?E ?cfg ?w0 (self, w)"
    by (rule engine_reach.step [OF engine_reach.start engine_step.connect [OF s]])
  have slabs: "e_listeners ?E = ranged_slab" "e_conns ?E = ranged_slab" by (simp_all add: ranged_env_def)
  have "readable ?E self (Token 256) {} = readable_connection ?E self (Token 256) {} c"
    using tokens_tell_connections [OF _ _ _ reach c, of "{}"] by (simp add: slabs ranged_slab_in_range ranged_slab_ok)
  with reach c show ?thesis by blast
qed

end
