(* ===== verification/Rx_Engine_Queues.thy ===== *)
theory Rx_Engine_Queues
  imports Rx_Engine
begin

text \<open>
  The queues between the engine and the program, from the side of their ends: every queue has as many
  live senders as there are connections and listeners that hold one. A program that reads a queue
  therefore sees its end exactly when the last of them is gone, and at the latest when the engine is.
\<close>

section \<open>Counting entries\<close>

definition tally :: "('v \<Rightarrow> 'q) \<Rightarrow> ('t \<rightharpoonup> 'v) \<Rightarrow> 'q \<Rightarrow> nat" where
  "tally f m q = card {t. \<exists>v. m t = Some v \<and> f v = q}"

lemma finite_tally: "finite (dom m) \<Longrightarrow> finite {t. \<exists>v. m t = Some v \<and> P v}"
  by (rule finite_subset [of _ "dom m"]) auto

lemma tally_empty: "(\<And>t. m t = None) \<Longrightarrow> tally f m q = 0"
  by (simp add: tally_def)

lemma tally_new:
  assumes "finite (dom m)" "m t = None"
  shows "tally f (m(t \<mapsto> v)) = (tally f m)(f v := tally f m (f v) + 1)"
proof
  fix q
  have "{u. \<exists>x. (m(t \<mapsto> v)) u = Some x \<and> f x = q} =
      (if f v = q then insert t {u. \<exists>x. m u = Some x \<and> f x = q} else {u. \<exists>x. m u = Some x \<and> f x = q})"
    using assms(2) by (auto split: if_splits)
  then show "tally f (m(t \<mapsto> v)) q = ((tally f m)(f v := tally f m (f v) + 1)) q"
    using assms finite_tally [of m "\<lambda>x. f x = q"] by (cases "f v = q") (simp_all add: tally_def)
qed

lemma tally_same:
  assumes "m t = Some u" "f v = f u"
  shows "tally f (m(t \<mapsto> v)) = tally f m"
proof
  fix q
  have "{a. \<exists>x. (m(t \<mapsto> v)) a = Some x \<and> f x = q} = {a. \<exists>x. m a = Some x \<and> f x = q}"
    using assms by (auto split: if_splits)
  then show "tally f (m(t \<mapsto> v)) q = tally f m q" by (simp add: tally_def)
qed

lemma tally_remove:
  assumes "finite (dom m)" "m t = Some v"
  shows "tally f (m(t := None)) = (tally f m)(f v := tally f m (f v) - 1)"
proof -
  have "tally f ((m(t := None))(t \<mapsto> v)) = (tally f (m(t := None)))(f v := tally f (m(t := None)) (f v) + 1)"
    by (rule tally_new) (use assms in auto)
  moreover have "(m(t := None))(t \<mapsto> v) = m" using assms(2) by auto
  ultimately have "tally f m = (tally f (m(t := None)))(f v := tally f (m(t := None)) (f v) + 1)" by simp
  then show ?thesis by simp
qed

lemma tally_pos: "finite (dom m) \<Longrightarrow> m t = Some v \<Longrightarrow> 0 < tally f m (f v)"
  using finite_tally [of m "\<lambda>x. f x = f v"] by (auto simp: tally_def card_gt_0_iff)

section \<open>The ends of the queues\<close>

text \<open>\<open>ends w q\<close>: how many senders the queue has; none as long as it has not been made.\<close>

definition ends :: "('m, 'z) net_world_scheme \<Rightarrow> chan_id \<Rightarrow> nat" where
  "ends w q = (if q < next_chan w then ch_senders (chans w q) else 0)"

lemma same_ends_refl [simp]: "same_ends w w"
  by (simp add: same_ends_def)

lemma same_ends_trans: "same_ends w w1 \<Longrightarrow> same_ends w1 w2 \<Longrightarrow> same_ends w w2"
  by (simp add: same_ends_def)

lemma same_ends_ends: "same_ends w w' \<Longrightarrow> ends w' = ends w"
  by (simp add: same_ends_def ends_def fun_eq_iff)

text \<open>For chains of calls: what \<open>same_ends\<close> compares, as one value.\<close>

definition end_state :: "('m, 'z) net_world_scheme \<Rightarrow> nat \<times> (chan_id \<Rightarrow> nat)" where
  "end_state w = (next_chan w, \<lambda>q. ch_senders (chans w q))"

lemma same_ends_iff: "same_ends w w' \<longleftrightarrow> end_state w' = end_state w"
  by (auto simp: same_ends_def end_state_def fun_eq_iff)

lemma end_state_ends: "end_state w' = end_state w \<Longrightarrow> ends w' = ends w"
  by (simp add: end_state_def ends_def fun_eq_iff)

lemma next_chan_set_chan [simp]: "next_chan (set_chan q c w) = next_chan w"
  by (simp add: set_chan_def)

lemma ends_drop_sender: "ends (drop_sender q w) = (ends w)(q := ends w q - 1)"
  by (auto simp: ends_def drop_sender_def fun_eq_iff)

lemma ends_clone_sender: "0 < ends w q \<Longrightarrow> ends (clone_sender q w) = (ends w)(q := ends w q + 1)"
  by (auto simp: ends_def clone_sender_def fun_eq_iff split: if_splits)

lemma same_ends_drop_receiver [simp]: "same_ends w (drop_receiver q w)"
  by (simp add: same_ends_def drop_receiver_def)

lemma end_state_drop_receiver [simp]: "end_state (drop_receiver q w) = end_state w"
  using same_ends_drop_receiver [of w q] by (simp add: same_ends_iff)

lemma ends_drop_receiver [simp]: "ends (drop_receiver q w) = ends w"
  by (rule end_state_ends) simp

lemma sync_channel_Ret:
  "sync_channel n w = (Ret x, w') \<Longrightarrow> x = (next_chan w, next_chan w) \<and> ends w' = (ends w)(next_chan w := 1)"
  by (auto simp: sync_channel_def ends_def sync_queue_def fun_eq_iff set_chan_def)

lemma ends_fresh: "ends w (next_chan w) = 0"
  by (simp add: ends_def)

lemma same_ends_send: "SyncSender_send q a w = (Ret r, w') \<Longrightarrow> same_ends w w'"
  by (auto simp: SyncSender_send_def mpsc_push_def same_ends_def split: if_splits option.splits)

section \<open>What is expected of the libraries\<close>

text \<open>Calls into the libraries, timer callbacks and protocols hold no sender of the engine's queues.\<close>

definition keeps :: "(('m, 'z) net_world_scheme, 'a) act \<Rightarrow> bool" where
  "keeps m \<longleftrightarrow> (\<forall>w. same_ends w (snd (m w)))"

lemma keepsD: "keeps m \<Longrightarrow> m w = (r, w') \<Longrightarrow> same_ends w w'"
  by (metis keeps_def snd_conv)

lemma keeps_state: "keeps m \<Longrightarrow> m w = (r, w') \<Longrightarrow> end_state w' = end_state w"
  by (drule (1) keepsD) (simp add: same_ends_iff)

definition mio_private :: "(('m, 'z) net_world_scheme, 's, 'l, 'c, 'a, 'b, 'ip, 'h, 'q) mio \<Rightarrow> bool" where
  "mio_private M \<longleftrightarrow>
     (\<forall>h. keeps (get_host_addresses M h)) \<and> keeps (tcp_v4 M) \<and> (\<forall>s ip p. keeps (tcp_connect M s ip p)) \<and>
     (\<forall>s ip p. keeps (tcp_bind M s ip p)) \<and> (\<forall>l n. keeps (tcp_listen M l n)) \<and> (\<forall>a. keeps (tcp_accept M a)) \<and>
     (\<forall>s B b. keeps (tcp_write M s B b)) \<and> (\<forall>s B b. keeps (tcp_read M s B b)) \<and>
     (\<forall>s t i. keeps (el_register_sock M s t i)) \<and> (\<forall>a t i. keeps (el_register_acceptor M a t i)) \<and>
     (\<forall>s t i. keeps (el_reregister_sock M s t i)) \<and> (\<forall>a t i. keeps (el_reregister_acceptor M a t i)) \<and>
     (\<forall>t d. keeps (el_timeout M t d)) \<and> (\<forall>h. keeps (el_clear_timeout M h))"

definition slab_counts :: "('t, 'v) slab \<Rightarrow> bool" where
  "slab_counts S \<longleftrightarrow> (\<forall>s. finite (dom (slab_get S s))) \<and>
     (\<forall>s P. length (filter P (slab_values S s)) = card {t. \<exists>v. slab_get S s t = Some v \<and> P v})"

definition env_private where
  "env_private E \<longleftrightarrow> mio_private (e_mio E) \<and> (\<forall>cb. keeps (e_call E cb)) \<and> (\<forall>p b. keeps (append_buf (e_proto E) p b)) \<and>
     slab_ok (e_conns E) \<and> slab_ok (e_listeners E) \<and> slab_counts (e_conns E) \<and> slab_counts (e_listeners E)"

lemma keeps_unwrap [simp]: "keeps (unwrap_io r)" "keeps (unwrap_option x)" "keeps (first_address ips)" "keeps (unwrap_unit y)"
  by (auto simp: keeps_def unwrap_io_def unwrap_option_def first_address_def unwrap_unit_def split: sum.split option.split list.split)

text \<open>The calls of the engine that concern no queue, as one collection.\<close>

named_theorems ends_kept \<open>calls that keep the senders\<close>

lemma mio_keeps [ends_kept]:
  assumes "env_private E"
  shows "keeps (get_host_addresses (e_mio E) h)" "keeps (tcp_v4 (e_mio E))" "keeps (tcp_connect (e_mio E) s ip p)"
    "keeps (tcp_bind (e_mio E) s ip p)" "keeps (tcp_listen (e_mio E) l n)" "keeps (tcp_accept (e_mio E) a)"
    "keeps (tcp_write (e_mio E) s B b)" "keeps (tcp_read (e_mio E) s B' b')"
    "keeps (el_register_sock (e_mio E) s t i)" "keeps (el_register_acceptor (e_mio E) a t i)"
    "keeps (el_reregister_sock (e_mio E) s t i)" "keeps (el_reregister_acceptor (e_mio E) a t i)"
    "keeps (el_timeout (e_mio E) t d)" "keeps (el_clear_timeout (e_mio E) timer)"
    "keeps (e_call E cb)" "keeps (append_buf (e_proto E) pr bf)"
  using assms by (simp_all add: env_private_def mio_private_def)

section \<open>The invariant\<close>

definition holders where
  "holders E self q = tally conn_tx (slab_get (e_conns E) (conns self)) q + tally snd (slab_get (e_listeners E) (listeners self)) q"

definition ends_inv where
  "ends_inv E self w \<longleftrightarrow> holders E self = ends w"

lemma slab_finite: "slab_counts S \<Longrightarrow> finite (dom (slab_get S s))"
  by (simp add: slab_counts_def)

lemma conn_tx_new [simp]: "conn_tx (Connection_new P s tx buf) = tx"
  by (simp add: Connection_new_def)

lemma holders_update:
  assumes "conn_at E self t = Some c" "slab_get (e_conns E) cs = (slab_get (e_conns E) (conns self))(t \<mapsto> c')" "conn_tx c' = conn_tx c"
  shows "holders E (self\<lparr>conns := cs\<rparr>) = holders E self"
  using assms by (auto simp: holders_def tally_same [of _ t c conn_tx c'])

lemma holders_insert:
  assumes "env_private E" "slab_insert (e_conns E) (conns self) c = (Inr t, cs)"
  shows "holders E (self\<lparr>conns := cs\<rparr>) = (holders E self)(conn_tx c := holders E self (conn_tx c) + 1)"
proof -
  have S: "slab_ok (e_conns E)" "slab_counts (e_conns E)" using assms(1) by (simp_all add: env_private_def)
  show ?thesis using slab_insert_get [OF S(1) assms(2)] tally_new [OF slab_finite [OF S(2)], of "conns self" t conn_tx c]
    by (auto simp: holders_def)
qed

lemma holders_insert_listener:
  assumes "env_private E" "slab_insert (e_listeners E) (listeners self) (a, q) = (Inr t, ls)"
  shows "holders E (self\<lparr>listeners := ls\<rparr>) = (holders E self)(q := holders E self q + 1)"
proof -
  have S: "slab_ok (e_listeners E)" "slab_counts (e_listeners E)" using assms(1) by (simp_all add: env_private_def)
  show ?thesis using slab_insert_get [OF S(1) assms(2)] tally_new [OF slab_finite [OF S(2)], of "listeners self" t snd "(a, q)"]
    by (auto simp: holders_def)
qed

lemma holders_full:
  assumes "env_private E"
  shows "slab_insert (e_conns E) (conns self) c = (Inl u, cs) \<Longrightarrow> holders E (self\<lparr>conns := cs\<rparr>) = holders E self"
    and "slab_insert (e_listeners E) (listeners self) l = (Inl v, ls) \<Longrightarrow> holders E (self\<lparr>listeners := ls\<rparr>) = holders E self"
proof -
  have S: "slab_ok (e_conns E)" "slab_ok (e_listeners E)" using assms by (simp_all add: env_private_def)
  show "slab_insert (e_conns E) (conns self) c = (Inl u, cs) \<Longrightarrow> holders E (self\<lparr>conns := cs\<rparr>) = holders E self"
    using slab_full_get [OF S(1)] by (fastforce simp: holders_def)
  show "slab_insert (e_listeners E) (listeners self) l = (Inl v, ls) \<Longrightarrow> holders E (self\<lparr>listeners := ls\<rparr>) = holders E self"
    using slab_full_get [OF S(2)] by (fastforce simp: holders_def)
qed

lemma holders_remove:
  assumes "env_private E" "conn_at E self t = Some c"
  shows "holders E (self\<lparr>conns := slab_remove (e_conns E) (conns self) t\<rparr>) = (holders E self)(conn_tx c := holders E self (conn_tx c) - 1)"
proof -
  have S: "slab_ok (e_conns E)" "slab_counts (e_conns E)" using assms(1) by (simp_all add: env_private_def)
  show ?thesis using slab_remove_get [OF S(1)] tally_remove [OF slab_finite [OF S(2)] assms(2), of conn_tx]
      tally_pos [OF slab_finite [OF S(2)] assms(2), of conn_tx] by (auto simp: holders_def)
qed

section \<open>The handlers keep it\<close>

lemma keeps_abind:
  assumes "keeps m" "\<And>a. keeps (f a)"
  shows "keeps (abind m f)"
  unfolding keeps_def
proof
  fix w
  show "same_ends w (snd (abind m f w))"
  proof (cases "m w" rule: outcome_exhaust3)
    case (Ret a w')
    with keepsD [OF assms(1)] keepsD [OF assms(2), of a w'] show ?thesis
      by (cases "f a w'") (auto simp: abind_Ret intro: same_ends_trans)
  qed (use keepsD [OF assms(1)] in \<open>auto simp: abind_steps\<close>)
qed

lemma keeps_ret [simp]: "keeps (Pair (Ret x))"
  by (simp add: keeps_def)

lemma reregistered:
  assumes "env_private E" "abind (el_reregister_sock (e_mio E) s t i) (\<lambda>r. abind (unwrap_io r) (\<lambda>_. Pair (Ret x))) w = (Ret y, w')"
  shows "y = x \<and> same_ends w w'"
proof
  show "y = x" using assms(2) by (auto simp: abind_eq_Ret)
  have "keeps (abind (el_reregister_sock (e_mio E) s t i) (\<lambda>r. abind (unwrap_io r) (\<lambda>_. Pair (Ret x))))"
    by (intro keeps_abind mio_keeps(11) [OF assms(1)] keeps_unwrap(1) keeps_ret)
  from keepsD [OF this assms(2)] show "same_ends w w'" .
qed

lemma drain_ends:
  assumes E: "env_private E" and "loop_act (drain_round (e_iobuf E) (e_mio E)) (wr, c) w = Some (Ret (wr', c'), w')"
  shows "conn_tx c' = conn_tx c \<and> same_ends w w'"
proof -
  let ?I = "\<lambda>(_, c'). \<lambda>w'. conn_tx c' = conn_tx c \<and> same_ends w w'"
  have "?I (wr', c') w'"
  proof (rule loop_act_invariant_world [OF assms(2), of ?I])
    fix s w1 b s' w2
    assume "?I s w1" "drain_round (e_iobuf E) (e_mio E) s w1 = (Ret (b, s'), w2)"
    then show "?I s' w2"
      by (cases s; cases s') (auto simp: drain_round_def Let_def elim!: abind_RetE split: list.splits if_splits sum.splits NonBlock.splits
          dest!: keepsD [OF mio_keeps(7) [OF E]] intro: same_ends_trans)
  qed simp
  then show ?thesis by simp
qed

lemma flush_ends:
  assumes E: "env_private E" and c: "conn_at E self t = Some c0" "conn_tx c = conn_tx c0"
    and inv: "ends_inv E self w" and step: "flush_connection E self t c w = Some (Ret self', w')"
  shows "ends_inv E self' w'"
proof -
  from step obtain wr c1 w1 c2 where dr: "loop_act (drain_round (e_iobuf E) (e_mio E)) (True, c) w = Some (Ret (wr, c1), w1)"
    and self': "self' = self\<lparr>conns := slab_set (e_conns E) (conns self) t c2\<rparr>" and c2: "conn_tx c2 = conn_tx c1" and w1: "same_ends w1 w'"
    by (auto simp: flush_connection_def drain_write_queue_to_socket_def pbind_eq_Ret Let_def split: if_splits
        dest!: reregistered [OF E])
  have "slab_get (e_conns E) (slab_set (e_conns E) (conns self) t c2) = (slab_get (e_conns E) (conns self))(t \<mapsto> c2)"
    by (rule slab_set_get [OF _ c(1)]) (use E in \<open>simp add: env_private_def\<close>)
  with drain_ends [OF E dr] c c2 have "holders E self' = holders E self"
    unfolding self' by (intro holders_update [OF c(1), of _ c2]) simp_all
  moreover have "ends w' = ends w" using drain_ends [OF E dr] w1 by (metis same_ends_ends)
  ultimately show ?thesis using inv by (simp add: ends_inv_def)
qed

lemma frame_loop_ends:
  assumes E: "env_private E" and "loop_act (frame_round (e_proto E) t) (abuf, c) w = Some (Ret (abuf', c'), w')"
  shows "same_ends w w'"
proof (rule loop_act_invariant_world [OF assms(2), of "\<lambda>_ w'. same_ends w w'"])
  fix s w1 b s' w2
  assume "same_ends w w1" "frame_round (e_proto E) t s w1 = (Ret (b, s'), w2)"
  then show "same_ends w w2"
    by (cases s) (auto simp: frame_round_def elim!: abind_RetE split: option.splits
        dest!: keepsD [OF mio_keeps(16) [OF E]] same_ends_send intro: same_ends_trans)
qed simp

lemma read_frames_ends:
  assumes E: "env_private E" and "read_frames E cfg t c n w = Some (Ret c', w')"
  shows "same_ends w w'"
proof -
  from assms(2) obtain abuf w1 s where "unwrap_unit (ab_atomic_slice_pos_from_begin (e_ab E) (rb_buf (conn_buf c)) (marker c) n) w = (Ret abuf, w1)"
    "loop_act (frame_round (e_proto E) t) (abuf, c) w1 = Some (Ret s, w')"
    by (auto simp: read_frames_def pbind_eq_Ret)
  then have "same_ends w w1" "same_ends w1 w'"
    using frame_loop_ends [OF E, of t abuf c w1 "fst s" "snd s" w'] by (auto dest: keepsD [OF keeps_unwrap(4)])
  then show ?thesis by (rule same_ends_trans)
qed

lemma readable_connection_ends:
  assumes E: "env_private E" and c: "conn_at E self t = Some c"
    and inv: "ends_inv E self w" and step: "readable_connection E self t hint c w = Some (Ret self', w')"
  shows "ends_inv E self' w'"
proof -
  from step obtain r c1 w1 c2 w2 where
    rd: "Connection_read (e_ab E) (e_mio E) c w = (Ret (r, c1), w1)"
    and fr: "(case r of Inr (Ready n) \<Rightarrow> read_frames E (config self) t c1 n | _ \<Rightarrow> once (ret c1)) w1 = Some (Ret c2, w2)"
    and rest: "self' = self\<lparr>conns := slab_remove (e_conns E) (conns self) t\<rparr> \<and> w' = drop_sender (conn_tx c2) w2 \<or>
       self' = self\<lparr>conns := slab_set (e_conns E) (conns self) t (c2\<lparr>interest := insert READABLE (interest c2)\<rparr>)\<rparr> \<and> same_ends w2 w'"
    by (auto simp: readable_connection_def pbind_eq_Ret Let_def split: if_splits dest!: reregistered [OF E])
  have "conn_tx c1 = conn_tx c" "same_ends w w1"
    using rd by (auto simp: Connection_read_def abind_eq_Ret dest: keepsD [OF mio_keeps(8) [OF E]])
  moreover have "conn_tx c2 = conn_tx c1" "same_ends w1 w2"
    using fr by (auto split: sum.splits NonBlock.splits dest: read_frames_ends [OF E] read_frames_same_output simp: same_output_def)
  ultimately have tx: "conn_tx c2 = conn_tx c" and w2: "ends w2 = ends w" by (auto dest!: same_ends_ends)
  from rest show ?thesis
  proof (elim disjE conjE)
    assume "self' = self\<lparr>conns := slab_remove (e_conns E) (conns self) t\<rparr>" "w' = drop_sender (conn_tx c2) w2"
    then show ?thesis using inv tx w2 holders_remove [OF E c] by (simp add: ends_inv_def ends_drop_sender)
  next
    let ?c = "c2\<lparr>interest := insert READABLE (interest c2)\<rparr>"
    assume s: "self' = self\<lparr>conns := slab_set (e_conns E) (conns self) t ?c\<rparr>" "same_ends w2 w'"
    have "slab_get (e_conns E) (slab_set (e_conns E) (conns self) t ?c) = (slab_get (e_conns E) (conns self))(t \<mapsto> ?c)"
      by (rule slab_set_get [OF _ c]) (use E in \<open>simp add: env_private_def\<close>)
    from holders_update [OF c this] tx s same_ends_ends [OF s(2)] inv w2 show ?thesis by (simp add: ends_inv_def)
  qed
qed

lemma accept_connection_ends:
  assumes E: "env_private E" and tx: "0 < ends w tx" and inv: "ends_inv E self w"
    and step: "accept_connection E self tx s w = (Ret self', w')"
  shows "ends_inv E self' w'"
proof -
  let ?c = "Connection_new (e_proto E) s tx (new_buf (e_ab E) (read_buf_sz (config self)) (config_allocator (config self)))"
  obtain r cs where ins: "slab_insert (e_conns E) (conns self) ?c = (r, cs)" by (metis surj_pair)
  show ?thesis
  proof (cases r)
    case (Inl u)
    with step ins have "self' = self\<lparr>conns := cs\<rparr>" "w' = drop_sender tx (clone_sender tx w)"
      by (auto simp: accept_connection_def Let_def)
    then show ?thesis using inv tx holders_full(1) [OF E ins [unfolded Inl]]
      by (simp add: ends_inv_def ends_drop_sender ends_clone_sender)
  next
    case (Inr t)
    with step ins have "self' = self\<lparr>conns := cs\<rparr>" "same_ends (clone_sender tx w) w'"
      by (auto simp: accept_connection_def Let_def elim!: abind_RetE dest!: keepsD [OF mio_keeps(9) [OF E]] keepsD [OF keeps_unwrap(1)]
          keepsD [OF keeps_unwrap(2)] intro: same_ends_trans)
    then show ?thesis using inv tx holders_insert [OF E ins [unfolded Inr]]
      by (simp add: ends_inv_def same_ends_ends ends_clone_sender)
  qed
qed

lemma readable_listener_ends:
  assumes E: "env_private E" and inv: "ends_inv E self w" and step: "readable_listener E self t w = (Ret self', w')"
  shows "ends_inv E self' w'"
proof -
  let ?accept = "\<lambda>tx r. case r of Inr (Ready s) \<Rightarrow> accept_connection E self tx s | _ \<Rightarrow> ret self"
  from step obtain list tx r w1 w2 where l: "slab_get (e_listeners E) (listeners self) t = Some (list, tx)"
    and acc: "tcp_accept (e_mio E) list w = (Ret r, w1)"
    and con: "?accept tx r w1 = (Ret self', w2)" and rest: "end_state w' = end_state w2"
    by (auto simp: readable_listener_def unwrap_option_def elim!: abind_RetE split: option.splits
        dest!: keeps_state [OF mio_keeps(12) [OF E]] keeps_state [OF keeps_unwrap(1)])
  have S: "slab_counts (e_listeners E)" using E by (simp add: env_private_def)
  have e: "ends w1 = ends w" using keepsD [OF mio_keeps(6) [OF E] acc] by (rule same_ends_ends)
  with inv tally_pos [OF slab_finite [OF S] l, of snd] have "ends_inv E self w1" "0 < ends w1 tx"
    by (auto simp: ends_inv_def holders_def fun_eq_iff dest: spec [of _ tx])
  then have "ends_inv E self' w2"
    using con accept_connection_ends [OF E, of w1 tx self _ self' w2] by (auto split: sum.splits NonBlock.splits)
  then show ?thesis using end_state_ends [OF rest] by (simp add: ends_inv_def)
qed

lemma handle_ends:
  assumes E: "env_private E" and inv: "ends_inv E self w" and step: "handle E ev self w = Some (Ret self', w')"
  shows "ends_inv E self' w'"
proof (cases ev)
  case (Readable t hint)
  with step inv show ?thesis
    by (auto simp: handle_def readable_def split: if_splits option.splits
        intro: readable_connection_ends [OF E] readable_listener_ends [OF E])
next
  case (Writable t)
  with step inv show ?thesis
    by (auto simp: handle_def handle_writable_def split: option.splits intro: flush_ends [OF E])
next
  case (Notify msg)
  show ?thesis
  proof (cases "conn_at E self (sb_tok msg)")
    case (Some c)
    with step Notify have "flush_connection E self (sb_tok msg) (c\<lparr>outbuf := outbuf c @ [msg]\<rparr>) w = Some (Ret self', w')"
      by (simp add: handle_def handle_notify_def)
    from flush_ends [OF E Some _ inv this] show ?thesis by simp
  qed (use step inv Notify in \<open>auto simp: handle_def handle_notify_def\<close>)
next
  case (TimedOut t)
  with step have h: "handle_timeout E self t w = (Ret self', w')" by (simp add: handle_def)
  then have "end_state w' = end_state w"
    by (auto simp: handle_timeout_def Let_def elim!: abind_RetE split: if_splits prod.splits
        dest!: keeps_state [OF mio_keeps(15) [OF E]] keeps_state [OF mio_keeps(14) [OF E]] keeps_state [OF keeps_unwrap(2)])
  moreover have "conns self' = conns self" "listeners self' = listeners self"
    using h by (auto simp: handle_timeout_def Let_def elim!: abind_RetE split: if_splits)
  ultimately show ?thesis using inv end_state_ends [of w' w] by (simp add: ends_inv_def holders_def fun_eq_iff)
qed

text \<open>Making a queue and giving one end of it to the engine, or not.\<close>

lemma queue_made:
  assumes "env_private E" "ends_inv E self w" "end_state w1 = end_state w" "sync_channel n w1 = (Ret (tx, rx), w2)"
  shows "ends w2 = (holders E self)(tx := 1)" "holders E self tx = 0"
  using sync_channel_Ret [OF assms(4)] ends_fresh [of w1] end_state_ends [OF assms(3)] assms(2) by (simp_all add: ends_inv_def)

lemma connect_ends:
  assumes E: "env_private E" and inv: "ends_inv E self w" and step: "EngineInner_connect E self host port w = (Ret (r, self'), w')"
  shows "ends_inv E self' w'"
proof -
  let ?c = "\<lambda>s tx. Connection_new (e_proto E) s tx (new_buf (e_ab E) (read_buf_sz (config self)) (config_allocator (config self)))"
  have given: "ends_inv E (self\<lparr>conns := cs\<rparr>) w'"
    if "end_state w1 = end_state w" "sync_channel n w1 = (Ret (tx, rx), w2)" "slab_insert (e_conns E) (conns self) (?c s tx) = (Inr t, cs)"
      "end_state w' = end_state w2" for w' w1 n tx rx w2 s t cs
    using queue_made [OF E inv that(1,2)] holders_insert [OF E that(3)] end_state_ends [OF that(4)] by (simp add: ends_inv_def)
  have refused: "ends_inv E (self\<lparr>conns := cs\<rparr>) (drop_receiver rx (drop_sender tx w2))"
    if "end_state w1 = end_state w" "sync_channel n w1 = (Ret (tx, rx), w2)" "slab_insert (e_conns E) (conns self) (?c s tx) = (Inl u, cs)"
    for w1 n tx rx w2 s u cs
    using queue_made [OF E inv that(1,2)] holders_full(1) [OF E that(3)]
    by (simp add: ends_inv_def ends_drop_sender fun_upd_idem)
  have early: "ends_inv E self' w'" if "self = self'" "end_state w' = end_state w"
    using inv end_state_ends [OF that(2)] that(1) by (simp add: ends_inv_def)
  show ?thesis using step
    by (auto simp: EngineInner_connect_def Let_def elim!: abind_RetE split: prod.split_asm sum.split_asm
        dest!: keeps_state [OF mio_keeps(1) [OF E]] keeps_state [OF mio_keeps(2) [OF E]] keeps_state [OF mio_keeps(3) [OF E]]
          keeps_state [OF mio_keeps(9) [OF E]] keeps_state [OF keeps_unwrap(1)] keeps_state [OF keeps_unwrap(2)] keeps_state [OF keeps_unwrap(3)])
      (auto intro: early given refused)
qed

lemma listen_ends:
  assumes E: "env_private E" and inv: "ends_inv E self w" and step: "EngineInner_listen E self host port w = (Ret (r, self'), w')"
  shows "ends_inv E self' w'"
proof -
  have given: "ends_inv E (self\<lparr>listeners := ls\<rparr>) w'"
    if "end_state w1 = end_state w" "sync_channel n w1 = (Ret (tx, rx), w2)" "slab_insert (e_listeners E) (listeners self) (a, tx) = (Inr t, ls)"
      "end_state w' = end_state w2" for w' w1 n tx rx w2 a t ls
    using queue_made [OF E inv that(1,2)] holders_insert_listener [OF E that(3)] end_state_ends [OF that(4)] by (simp add: ends_inv_def)
  have refused: "ends_inv E (self\<lparr>listeners := ls\<rparr>) (drop_receiver rx (drop_sender tx w2))"
    if "end_state w1 = end_state w" "sync_channel n w1 = (Ret (tx, rx), w2)" "slab_insert (e_listeners E) (listeners self) (a, tx) = (Inl u, ls)"
    for w1 n tx rx w2 a u ls
    using queue_made [OF E inv that(1,2)] holders_full(2) [OF E that(3)]
    by (simp add: ends_inv_def ends_drop_sender fun_upd_idem)
  have early: "ends_inv E self' w'" if "self = self'" "end_state w' = end_state w"
    using inv end_state_ends [OF that(2)] that(1) by (simp add: ends_inv_def)
  show ?thesis using step
    by (auto simp: EngineInner_listen_def Let_def elim!: abind_RetE split: prod.split_asm sum.split_asm
        dest!: keeps_state [OF mio_keeps(1) [OF E]] keeps_state [OF mio_keeps(2) [OF E]] keeps_state [OF mio_keeps(4) [OF E]]
          keeps_state [OF mio_keeps(5) [OF E]] keeps_state [OF mio_keeps(10) [OF E]]
          keeps_state [OF keeps_unwrap(1)] keeps_state [OF keeps_unwrap(2)] keeps_state [OF keeps_unwrap(3)])
      (auto intro: early given refused)
qed

lemma NetEngine_timeout_ends:
  assumes E: "env_private E" and inv: "ends_inv E self w" and step: "NetEngine_timeout E self d cb w = (Ret self', w')"
  shows "ends_inv E self' w'"
proof -
  have "end_state w' = end_state w" "conns self' = conns self" "listeners self' = listeners self"
    using step by (auto simp: NetEngine_timeout_def elim!: abind_RetE split: prod.split_asm sum.split_asm
        dest!: keeps_state [OF mio_keeps(13) [OF E]] keeps_state [OF keeps_unwrap(1)] keeps_state [OF keeps_unwrap(2)])
  then show ?thesis using inv end_state_ends [of w' w] by (simp add: ends_inv_def holders_def fun_eq_iff)
qed

lemma engine_step_ends:
  assumes E: "env_private E" and "engine_step E x y" "ends_inv E (fst x) (snd x)"
  shows "ends_inv E (fst y) (snd y)"
  using assms(2,3)
proof (induction rule: engine_step.induct)
  case (event ev self w self' w')
  with handle_ends [OF E] show ?case by simp
next
  case (connect self host port w r self' w')
  with connect_ends [OF E] show ?case by (simp add: NetEngine_connect_def)
next
  case (listen self host port w r self' w')
  with listen_ends [OF E] show ?case by (simp add: NetEngine_listen_def)
next
  case (timeout self duration cb w self' w')
  with NetEngine_timeout_ends [OF E] show ?case by simp
next
  case (elsewhere w w' self)
  then show ?case using same_ends_ends [of w w'] by (simp add: ends_inv_def)
qed

lemma engine_reach_ends:
  assumes E: "env_private E" and w0: "\<forall>q<next_chan w0. ch_senders (chans w0 q) = 0" and "engine_reach E cfg w0 x"
  shows "ends_inv E (fst x) (snd x)"
  using assms(3)
proof (induction rule: engine_reach.induct)
  case start
  have "ends w0 = (\<lambda>_. 0)" using w0 by (simp add: ends_def fun_eq_iff)
  moreover have "holders E (EngineInner_new E cfg) q = 0" for q
    using E by (auto simp: holders_def EngineInner_new_def env_private_def slab_new_get intro!: tally_empty)
  ultimately show ?case by (simp add: ends_inv_def fun_eq_iff)
next
  case (step x y)
  then show ?case by (auto intro: engine_step_ends [OF E])
qed

section \<open>Queues stay\<close>

text \<open>No piece of the engine takes a queue number back, whatever its outcome; this goes through by composition.\<close>

definition grows :: "(('m, 'z) net_world_scheme, 'a) act \<Rightarrow> bool" where
  "grows m \<longleftrightarrow> (\<forall>w. next_chan w \<le> next_chan (snd (m w)))"

definition pgrows :: "(('m, 'z) net_world_scheme, 'a) pact \<Rightarrow> bool" where
  "pgrows m \<longleftrightarrow> (\<forall>w r w'. m w = Some (r, w') \<longrightarrow> next_chan w \<le> next_chan w')"

named_theorems growing \<open>composition of code that keeps the queues\<close>

lemma keeps_grows: "keeps m \<Longrightarrow> grows m"
  by (simp add: keeps_def grows_def same_ends_def)

lemma grows_ret [growing]: "grows (Pair r)" "grows (panic e)" "grows block"
  by (simp_all add: grows_def)

lemma grows_effect [growing]: "(\<And>w. next_chan w \<le> next_chan (f w)) \<Longrightarrow> grows (effect f)"
  by (simp add: grows_def)

lemma grows_abind [growing]:
  assumes "grows m" "\<And>a. grows (f a)"
  shows "grows (abind m f)"
  unfolding grows_def
proof
  fix w
  show "next_chan w \<le> next_chan (snd (abind m f w))"
  proof (cases "m w" rule: outcome_exhaust3)
    case (Ret a w')
    with assms(1) have "next_chan w \<le> next_chan w'" unfolding grows_def by (metis snd_conv)
    also have "\<dots> \<le> next_chan (snd (f a w'))" using assms(2) by (simp add: grows_def)
    finally show ?thesis using Ret by (simp add: abind_Ret)
  qed (use assms(1) in \<open>auto simp: abind_steps grows_def dest: spec [of _ w]\<close>)
qed

lemma pgrows_once [growing]: "grows m \<Longrightarrow> pgrows (once m)"
  by (auto simp: grows_def pgrows_def dest: spec) (metis snd_conv)

lemma pgrows_pbind [growing]:
  assumes "pgrows m" "\<And>a. pgrows (f a)"
  shows "pgrows (pbind m f)"
  unfolding pgrows_def
proof (intro allI impI)
  fix w r w' assume p: "pbind m f w = Some (r, w')"
  then obtain x w1 where m: "m w = Some (x, w1)" by (auto simp: pbind_def split: option.splits)
  with assms(1) have "next_chan w \<le> next_chan w1" by (auto simp: pgrows_def)
  moreover have "next_chan w1 \<le> next_chan w'"
    using p m assms(2) by (cases x) (auto simp: pbind_def pgrows_def)
  ultimately show "next_chan w \<le> next_chan w'" by simp
qed

lemma pgrows_loop [growing]:
  assumes "\<And>s. grows (body s)"
  shows "pgrows (loop_act body s)"
  unfolding pgrows_def
proof (intro allI impI)
  fix w r w' assume "loop_act body s w = Some (r, w')"
  then show "next_chan w \<le> next_chan w'"
  proof -
    have "\<And>r. loop_act body s w = Some r \<Longrightarrow> next_chan w \<le> next_chan (snd r)" for w
    proof -
      fix r assume l: "loop_act body s w = Some r"
      have "\<forall>r. loop_act body s w = Some r \<longrightarrow> next_chan w \<le> next_chan (snd r)" using l
      proof (induction rule: loop_act_induct)
        case (again s w s' w')
        have "next_chan w \<le> next_chan w'" using assms [of s] again.hyps unfolding grows_def by (metis snd_conv)
        with again show ?case by (auto simp: loop_act_again)
      next
        case (leave s w)
        then show ?case using assms [of s]
          by (cases "body s w" rule: outcome_exhaust3) (auto simp: loop_act.simps [of body s w] grows_def dest: spec [of _ w] split: if_splits)
      qed
      with l show "next_chan w \<le> next_chan (snd r)" by blast
    qed
    with \<open>loop_act body s w = Some (r, w')\<close> show ?thesis by fastforce
  qed
qed

lemma next_chan_ends [simp]:
  "next_chan (drop_sender q w) = next_chan w" "next_chan (drop_receiver q w) = next_chan w" "next_chan (clone_sender q w) = next_chan w"
  by (simp_all add: drop_sender_def drop_receiver_def clone_sender_def)

lemma grows_channel [growing]: "grows (sync_channel n)" "grows (SyncSender_send q a)"
  by (auto simp: grows_def sync_channel_def SyncSender_send_def mpsc_push_def set_chan_def split: option.split)

lemma grows_case [growing]:
  "(\<And>a. grows (f a)) \<Longrightarrow> (\<And>b. grows (g b)) \<Longrightarrow> grows (case x of Inl a \<Rightarrow> f a | Inr b \<Rightarrow> g b)"
  "grows m \<Longrightarrow> (\<And>b. grows (g b)) \<Longrightarrow> grows (case y of None \<Rightarrow> m | Some b \<Rightarrow> g b)"
  "(\<And>a b. grows (h a b)) \<Longrightarrow> grows (case z of (a, b) \<Rightarrow> h a b)"
  "(\<And>a. grows (f a)) \<Longrightarrow> grows m \<Longrightarrow> grows (case n of Ready a \<Rightarrow> f a | WouldBlock \<Rightarrow> m)"
  "(\<And>a l. grows (k a l)) \<Longrightarrow> grows m \<Longrightarrow> grows (case l of [] \<Rightarrow> m | a # l \<Rightarrow> k a l)"
  "grows m \<Longrightarrow> grows m' \<Longrightarrow> grows (if c then m else m')"
  by (simp_all split: sum.split option.split prod.split NonBlock.split list.split)

lemma pgrows_case [growing]:
  "(\<And>a. pgrows (f a)) \<Longrightarrow> (\<And>b. pgrows (g b)) \<Longrightarrow> pgrows (case x of Inl a \<Rightarrow> f a | Inr b \<Rightarrow> g b)"
  "pgrows m \<Longrightarrow> (\<And>b. pgrows (g b)) \<Longrightarrow> pgrows (case y of None \<Rightarrow> m | Some b \<Rightarrow> g b)"
  "(\<And>a b. pgrows (h a b)) \<Longrightarrow> pgrows (case z of (a, b) \<Rightarrow> h a b)"
  "(\<And>a. pgrows (f a)) \<Longrightarrow> pgrows m \<Longrightarrow> pgrows (case n of Ready a \<Rightarrow> f a | WouldBlock \<Rightarrow> m)"
  "pgrows m \<Longrightarrow> pgrows m' \<Longrightarrow> pgrows (if c then m else m')"
  by (simp_all split: sum.split option.split prod.split NonBlock.split)

lemma handlers_grow:
  assumes "env_private E"
  shows "pgrows (readable E self t hint)" "pgrows (handle_writable E self t)" "pgrows (handle_notify E self msg)" "grows (handle_timeout E self t)"
    "grows (EngineInner_connect E self host port)" "grows (EngineInner_listen E self host port)" "grows (NetEngine_timeout E self d cb)"
proof -
  note kept = mio_keeps [OF assms, THEN keeps_grows] keeps_unwrap [THEN keeps_grows]
  note defs = readable_def readable_listener_def readable_connection_def accept_connection_def Connection_read_def read_frames_def frame_round_def
    handle_writable_def handle_notify_def flush_connection_def drain_write_queue_to_socket_def drain_round_def handle_timeout_def
    EngineInner_connect_def EngineInner_listen_def NetEngine_timeout_def Let_def ret_eq
  show "pgrows (readable E self t hint)" unfolding defs by (intro growing kept) simp_all
  show "pgrows (handle_writable E self t)" unfolding defs by (intro growing kept)
  show "pgrows (handle_notify E self msg)" unfolding defs by (intro growing kept)
  show "grows (handle_timeout E self t)" unfolding defs by (intro growing kept)
  show "grows (EngineInner_connect E self host port)" unfolding defs by (intro growing kept) simp_all
  show "grows (EngineInner_listen E self host port)" unfolding defs by (intro growing kept) simp_all
  show "grows (NetEngine_timeout E self d cb)" unfolding defs by (intro growing kept)
qed

lemma growsD: "grows m \<Longrightarrow> m w = (r, w') \<Longrightarrow> next_chan w \<le> next_chan w'"
  by (metis grows_def snd_conv)

lemma pgrowsD: "pgrows m \<Longrightarrow> m w = Some (r, w') \<Longrightarrow> next_chan w \<le> next_chan w'"
  by (simp add: pgrows_def)

lemma handle_grows: "env_private E \<Longrightarrow> pgrows (handle E ev self)"
  by (cases ev) (simp_all add: handle_def handlers_grow pgrows_once)

lemma engine_step_grows:
  assumes E: "env_private E" and "engine_step E x y"
  shows "next_chan (snd x) \<le> next_chan (snd y)"
  using assms(2)
  by (cases rule: engine_step.cases)
    (auto simp: NetEngine_connect_def NetEngine_listen_def same_ends_def
      dest: pgrowsD [OF handle_grows [OF E]] growsD [OF handlers_grow(5) [OF E]] growsD [OF handlers_grow(6) [OF E]] growsD [OF handlers_grow(7) [OF E]])

text \<open>The queue that \<^verbatim>\<open>listen\<close> hands out is one the engine has made.\<close>

lemma listened_queue:
  assumes E: "env_private E" and "EngineInner_listen E self addr port w = (Ret (Inr rx, self'), w')"
  shows "rx < next_chan w'"
  using assms(2)
  by (auto simp: EngineInner_listen_def Let_def sync_channel_def elim!: abind_RetE split: prod.split_asm sum.split_asm
      dest!: growsD [OF keeps_grows [OF mio_keeps(10) [OF E]]] growsD [OF keeps_grows [OF keeps_unwrap(2)]])

section \<open>Who holds a queue\<close>

text \<open>C13. In every state the engine can get to, a queue has exactly as many senders as there are connections and
  listeners that hold it: no handler loses one or keeps one too many, on any path through it. A program
  that reads the queue sees its end when, and only when, the last of them is gone.\<close>

theorem queue_senders_are_exact:
  assumes "env_private E" "\<forall>q<next_chan w0. ch_senders (chans w0 q) = 0" "engine_reach E cfg w0 (self, w)" "q < next_chan w"
  shows "ch_senders (chans w q) = card {t. \<exists>c. conn_at E self t = Some c \<and> conn_tx c = q} +
    card {t. \<exists>a. slab_get (e_listeners E) (listeners self) t = Some (a, q)}"
proof -
  have "{t. \<exists>v. slab_get (e_listeners E) (listeners self) t = Some v \<and> snd v = q} =
      {t. \<exists>a. slab_get (e_listeners E) (listeners self) t = Some (a, q)}" by auto
  then show ?thesis using engine_reach_ends [OF assms(1-3)] assms(4)
    by (auto simp: ends_inv_def ends_def holders_def tally_def fun_eq_iff dest: spec [of _ q])
qed

section \<open>The end of the engine\<close>

text \<open>
  What is expected of the loops of \<^verbatim>\<open>mio\<close>: they deliver events to the handler, one after the other, and give
  it back; meanwhile nobody else touches the ends of the queues.
\<close>

inductive loop_runs :: "(('m, 'z) net_world_scheme, 'h, 'b) handler \<Rightarrow> 'h \<times> ('m, 'z) net_world_scheme \<Rightarrow> 'h \<times> ('m, 'z) net_world_scheme \<Rightarrow> bool"
  for H x where
  begins: "loop_runs H x x"
| delivers: "loop_runs H x (h, w) \<Longrightarrow> dispatch H ev h w = Some (Ret h', w') \<Longrightarrow> loop_runs H x (h', w')"
| waits: "loop_runs H x (h, w) \<Longrightarrow> same_ends w w' \<Longrightarrow> loop_runs H x (h, w')"

definition event_loop_ok where
  "event_loop_ok loop \<longleftrightarrow> (\<forall>H h w h' w'. loop H h w = Some (Ret (Inr h'), w') \<longrightarrow> loop_runs H (h, w) (h', w'))"

lemma events_loop_runs:
  "loop_runs H x (h, w) \<Longrightarrow> events_loop evs H h w = Some (Ret (Inr h'), w') \<Longrightarrow> loop_runs H x (h', w')"
  by (induction evs arbitrary: h w) (auto simp: pbind_eq_Ret intro: loop_runs.delivers)

lemma events_loop_ok: "event_loop_ok (events_loop evs)"
  by (auto simp: event_loop_ok_def intro: events_loop_runs [OF loop_runs.begins])

lemma loop_runs_reach:
  assumes "loop_runs (EngineInner_Handler E) x y" "engine_reach E cfg w0 x"
  shows "engine_reach E cfg w0 y"
  using assms(1)
proof (induction rule: loop_runs.induct)
  case begins
  show ?case by (rule assms(2))
next
  case (delivers h w ev h' w')
  from engine_reach.step [OF delivers.IH engine_step.event [OF delivers.hyps(2)]] show ?case .
next
  case (waits h w w')
  from engine_reach.step [OF waits.IH engine_step.elsewhere [OF waits.hyps(2)]] show ?case .
qed

lemma ends_fold_drop: "ends (fold drop_sender qs w) q = ends w q - count_list qs q"
  by (induction qs arbitrary: w) (auto simp: ends_drop_sender)

lemma end_next_fold_drop: "next_chan (fold drop_sender qs w) = next_chan w"
  by (induction qs arbitrary: w) (simp_all add: drop_sender_def)

lemma count_list_values:
  assumes "slab_counts S"
  shows "count_list (map f (slab_values S s)) q = tally f (slab_get S s) q"
proof -
  have "count_list (map f vs) q = length (filter (\<lambda>v. f v = q) vs)" for vs by (induction vs) auto
  with assms show ?thesis by (simp add: slab_counts_def tally_def)
qed

lemma dropped_engine_ends:
  assumes "env_private E" "ends_inv E self w" "q < next_chan w"
  shows "ch_senders (chans (drop_engine E self w) q) = 0"
proof -
  have S: "slab_counts (e_conns E)" "slab_counts (e_listeners E)" using assms(1) by (simp_all add: env_private_def)
  have "ends (drop_engine E self w) q = ends w q - holders E self q"
    by (simp add: drop_engine_def ends_fold_drop count_list_values [OF S(1)] count_list_values [OF S(2)] holders_def)
  moreover have "holders E self q = ends w q" using assms(2) by (simp add: ends_inv_def)
  ultimately show ?thesis using assms(3) by (simp add: ends_def drop_engine_def end_next_fold_drop)
qed

lemma NetEngine_run_Ret:
  assumes "NetEngine_run E el_run self w = Some (Ret (), w')"
  obtains self1 w1 where "el_run (EngineInner_Handler E) self w = Some (Ret (Inr self1), w1)" "w' = drop_engine E self1 w1"
proof -
  from assms obtain r w1 where r: "el_run (EngineInner_Handler E) self w = Some (Ret r, w1)"
    "(case r of Inl _ \<Rightarrow> once (panic ''called Result::unwrap() on an Err value: ()'') | Inr s \<Rightarrow> once (effect (drop_engine E s))) w1 = Some (Ret (), w')"
    unfolding NetEngine_run_def run_handler_def pbind_eq_Ret by blast
  then show ?thesis using that by (cases r) auto
qed

lemma run_drops_all_ends:
  assumes "env_private E" "\<forall>q<next_chan w0. ch_senders (chans w0 q) = 0" "engine_reach E cfg w0 (self, w)"
    and "event_loop_ok el_run" "NetEngine_run E el_run self w = Some (Ret (), w')" "q < next_chan w'"
  shows "ch_senders (chans w' q) = 0"
proof -
  from assms(5) obtain self1 w1 where run: "el_run (EngineInner_Handler E) self w = Some (Ret (Inr self1), w1)" and w': "w' = drop_engine E self1 w1"
    by (rule NetEngine_run_Ret)
  have "engine_reach E cfg w0 (self1, w1)"
    by (rule loop_runs_reach [OF _ assms(3)]) (use assms(4) run in \<open>auto simp: event_loop_ok_def\<close>)
  from engine_reach_ends [OF assms(1,2) this] have "ends_inv E self1 w1" by simp
  from dropped_engine_ends [OF assms(1) this, of q] assms(6) w' show ?thesis by (simp add: drop_engine_def end_next_fold_drop)
qed

lemma loop_runs_grows:
  assumes E: "env_private E" and "loop_runs (EngineInner_Handler E) x y"
  shows "next_chan (snd x) \<le> next_chan (snd y)"
  using assms(2)
proof (induction rule: loop_runs.induct)
  case (delivers h w ev h' w')
  with pgrowsD [OF handle_grows [OF E] delivers.hyps(2)] show ?case by simp
next
  case (waits h w w')
  then show ?case by (simp add: same_ends_def)
qed simp

lemma run_grows:
  assumes "env_private E" "event_loop_ok el_run" "NetEngine_run E el_run self w = Some (Ret (), w')"
  shows "next_chan w \<le> next_chan w'"
proof -
  from assms(3) obtain self1 w1 where run: "el_run (EngineInner_Handler E) self w = Some (Ret (Inr self1), w1)" and w': "w' = drop_engine E self1 w1"
    by (rule NetEngine_run_Ret)
  with assms(2) have "loop_runs (EngineInner_Handler E) (self, w) (self1, w1)" by (auto simp: event_loop_ok_def)
  from loop_runs_grows [OF assms(1) this] w' show ?thesis by (simp add: drop_engine_def end_next_fold_drop)
qed

section \<open>The sample platform\<close>

lemma length_values_map_of:
  "length (filter P (map (\<lambda>t. the (map_of s t)) (remdups (map fst s)))) = card {t. \<exists>v. map_of s t = Some v \<and> P v}"
proof -
  have "x \<in> fst ` set s \<longleftrightarrow> (\<exists>v. map_of s x = Some v)" for x by (metis map_of_eq_None_iff not_None_eq)
  then have "{t. \<exists>v. map_of s t = Some v \<and> P v} = set (filter (\<lambda>t. P (the (map_of s t))) (remdups (map fst s)))" by auto
  then show ?thesis using distinct_card [of "filter (\<lambda>t. P (the (map_of s t))) (remdups (map fst s))"]
    by (simp add: filter_map comp_def)
qed

lemma sample_slab_counts [simp]: "slab_counts sample_slab"
  unfolding slab_counts_def sample_slab_def slab.simps length_values_map_of by (simp add: finite_dom_map_of)

lemma sample_env_private: "env_private sample_buf_env"
proof -
  have "mio_private sample_mio"
    by (auto simp: mio_private_def sample_mio_def keeps_def sample_write_def sample_read_def same_ends_def Let_def)
  then show ?thesis
    by (auto simp: env_private_def keeps_def BufProtocol_def BufProtocol_append_def unwrap_unit_def abind_def Let_def
        split: sum.split prod.split outcome.split)
qed

definition sample_w0 :: "'m sample_world" where
  "sample_w0 = sample_start\<lparr>next_chan := 0\<rparr>"

lemma sample_connect_w0:
  "NetEngine_connect sample_buf_env (EngineInner_new sample_buf_env sample_config) ''host'' 80 sample_w0 =
     (Ret (Inr (NetStream_new (Token 0) 0 ()), (EngineInner_new sample_buf_env sample_config)
        \<lparr>conns := [(Token 0, Connection_new (BufProtocol sample_iobuf (protocol_size 4)) () 0 (ReadBuf []))]\<rparr>),
      set_chan 0 (sync_queue 4) (sample_w0\<lparr>next_chan := Suc 0\<rparr>))"
  by (simp add: NetEngine_connect_def EngineInner_connect_def EngineInner_new_def sample_mio_def abind_def unwrap_io_def first_address_def
      sync_channel_def sample_slab_def unwrap_option_def new_buf_def sample_ab_def sample_config_def sample_w0_def sample_start_def Let_def
      Connection_new_def BufProtocol_def)

lemmas sample_connected = engine_reach.step [OF engine_reach.start engine_step.connect [OF sample_connect_w0]]

lemma sample_w0_unused: "\<forall>q<next_chan sample_w0. ch_senders (chans sample_w0 q) = 0"
  by (simp add: sample_w0_def)

theorem queue_senders_are_exact_witness:
  "\<exists>self w. engine_reach sample_buf_env sample_config sample_w0 (self, w) \<and> ch_senders (chans w 0) = 1"
  using queue_senders_are_exact [OF sample_env_private sample_w0_unused sample_connected, of 0] sample_connected
  by (fastforce simp: EngineInner_new_def Connection_new_def sample_slab_def)

end
