(* ===== verification/Rx_Registration.thy ===== *)
theory Rx_Registration
  imports Rx_Engine_Tokens Rx_Engine_Queues
begin

text \<open>
  What the event loop has been told (\<^verbatim>\<open>src/reactor.rs\<close>). The engine keeps the interest of a connection in a field of its own,
  but it is called back only for what is registered with the loop of \<^verbatim>\<open>mio\<close>. Here the registrations are
  observed: the interest of a connection that has something to write is the one that is registered for it.
\<close>

section \<open>What is expected of the event loop\<close>

text \<open>
  \<open>reg w t\<close> is the interest registered under a token. A call that registers puts the new interest there if it succeeds, and
  changes nothing if it fails; no other call of the libraries, no protocol, no timer callback and no queue
  changes a registration.
\<close>

definition quiet :: "('w \<Rightarrow> Token \<Rightarrow> Interest set) \<Rightarrow> ('w, 'a) act \<Rightarrow> bool" where
  "quiet reg m \<longleftrightarrow> (\<forall>w a w'. m w = (Ret a, w') \<longrightarrow> reg w' = reg w)"

definition registers :: "('w \<Rightarrow> Token \<Rightarrow> Interest set) \<Rightarrow> (Token \<Rightarrow> Interest set \<Rightarrow> ('w, io_error + unit) act) \<Rightarrow> bool" where
  "registers reg m \<longleftrightarrow> (\<forall>t i w r w'. m t i w = (Ret r, w') \<longrightarrow>
     reg w' = (case r of Inl _ \<Rightarrow> reg w | Inr _ \<Rightarrow> (reg w)(t := i)))"

definition mio_watched ::
  "(('m, 'z) net_world_scheme, 's, 'l, 'c, 'a, 'b, 'ip, 'h, 'q) mio \<Rightarrow> (('m, 'z) net_world_scheme \<Rightarrow> Token \<Rightarrow> Interest set) \<Rightarrow> bool" where
  "mio_watched M reg \<longleftrightarrow>
     (\<forall>s. registers reg (el_register_sock M s)) \<and> (\<forall>s. registers reg (el_reregister_sock M s)) \<and>
     (\<forall>a. registers reg (el_register_acceptor M a)) \<and> (\<forall>a. registers reg (el_reregister_acceptor M a)) \<and>
     (\<forall>h. quiet reg (get_host_addresses M h)) \<and> quiet reg (tcp_v4 M) \<and> (\<forall>s ip p. quiet reg (tcp_connect M s ip p)) \<and>
     (\<forall>s ip p. quiet reg (tcp_bind M s ip p)) \<and> (\<forall>l n. quiet reg (tcp_listen M l n)) \<and> (\<forall>a. quiet reg (tcp_accept M a)) \<and>
     (\<forall>s B b. quiet reg (tcp_write M s B b)) \<and> (\<forall>s B b. quiet reg (tcp_read M s B b)) \<and>
     (\<forall>t d. quiet reg (el_timeout M t d)) \<and> (\<forall>h. quiet reg (el_clear_timeout M h))"

definition env_watched where
  "env_watched E reg \<longleftrightarrow> mio_watched (e_mio E) reg \<and> (\<forall>p b. quiet reg (append_buf (e_proto E) p b)) \<and> (\<forall>cb. quiet reg (e_call E cb)) \<and>
     (\<forall>q c w. reg (set_chan q c w) = reg w) \<and> (\<forall>n w. reg (w\<lparr>next_chan := n\<rparr>) = reg w)"

lemma quietD: "quiet reg m \<Longrightarrow> m w = (Ret a, w') \<Longrightarrow> reg w' = reg w"
  unfolding quiet_def by blast

lemma registersD: "registers reg m \<Longrightarrow> m t i w = (Ret r, w') \<Longrightarrow> reg w' = (case r of Inl _ \<Rightarrow> reg w | Inr _ \<Rightarrow> (reg w)(t := i))"
  unfolding registers_def by blast

section \<open>Actions that change no registration\<close>

lemma unwrap_Ret:
  "unwrap_io r w = (Ret x, w') \<longleftrightarrow> r = Inr x \<and> w' = w" "unwrap_option v w = (Ret y, w') \<longleftrightarrow> v = Some y \<and> w' = w"
  by (auto simp: unwrap_io_def unwrap_option_def split: sum.splits option.splits)

lemma first_address_Ret: "first_address ips w = (Ret ip, w') \<longleftrightarrow> (\<exists>r. ips = ip # r) \<and> w' = w"
  by (auto simp: first_address_def split: list.splits)

lemma watched:
  assumes "env_watched E reg"
  shows "quiet reg (get_host_addresses (e_mio E) h)" "quiet reg (tcp_v4 (e_mio E))" "quiet reg (tcp_connect (e_mio E) s ip p)"
    "quiet reg (tcp_bind (e_mio E) s ip p)" "quiet reg (tcp_listen (e_mio E) l n)" "quiet reg (tcp_accept (e_mio E) a)"
    "quiet reg (tcp_write (e_mio E) s B b)" "quiet reg (tcp_read (e_mio E) s B' b')" "quiet reg (el_timeout (e_mio E) t d)"
    "quiet reg (el_clear_timeout (e_mio E) hh)" "quiet reg (append_buf (e_proto E) pr bu)" "quiet reg (e_call E cb)"
    "registers reg (el_register_sock (e_mio E) s)" "registers reg (el_reregister_sock (e_mio E) s)"
    "registers reg (el_register_acceptor (e_mio E) a)" "registers reg (el_reregister_acceptor (e_mio E) a)"
  using assms by (simp_all add: env_watched_def mio_watched_def)

lemmas quiet_mio = watched(1-12) [THEN quietD]
lemmas registered = watched(13-16) [THEN registersD]

lemma quiet_queue:
  assumes "env_watched E reg"
  shows "sync_channel n w = (Ret x, w') \<Longrightarrow> reg w' = reg w" "SyncSender_send q a w = (Ret y, w') \<Longrightarrow> reg w' = reg w"
    "reg (drop_sender q w) = reg w" "reg (drop_receiver q w) = reg w" "reg (clone_sender q w) = reg w"
  using assms by (auto simp: env_watched_def sync_channel_def SyncSender_send_def mpsc_push_def drop_sender_def
      drop_receiver_def clone_sender_def split: if_splits option.splits)

lemma drain_quiet:
  assumes "env_watched E reg" "loop_act (drain_round I (e_mio E)) s w = Some (Ret s', w')"
  shows "reg w' = reg w"
  using assms(2)
proof (rule loop_act_invariant_world [where I = "\<lambda>_ w1. reg w1 = reg w"])
  fix s w1 b s' w2
  assume "reg w1 = reg w" and step: "drain_round I (e_mio E) s w1 = (Ret (b, s'), w2)"
  have "reg w2 = reg w1"
    using step by (auto simp: drain_round_def Let_def elim!: abind_RetE dest!: quiet_mio [OF assms(1)]
        split: prod.split_asm list.split_asm if_split_asm sum.split_asm NonBlock.split_asm)
  with \<open>reg w1 = reg w\<close> show "reg w2 = reg w" by simp
qed simp

lemma read_frames_quiet:
  assumes "env_watched E reg" "read_frames E cfg t c n w = Some (Ret c', w')"
  shows "reg w' = reg w"
proof -
  from assms(2) obtain abuf s where loop: "loop_act (frame_round (e_proto E) t) (abuf, c) w = Some (Ret s, w')"
    by (auto simp: read_frames_def pbind_eq_Ret unwrap_unit_def split: sum.splits)
  then show ?thesis
  proof (rule loop_act_invariant_world [where I = "\<lambda>_ w1. reg w1 = reg w"])
    fix s w1 b s' w2
    assume "reg w1 = reg w" and step: "frame_round (e_proto E) t s w1 = (Ret (b, s'), w2)"
    have "reg w2 = reg w1"
      using step by (auto simp: frame_round_def elim!: abind_RetE dest!: quiet_mio [OF assms(1)] quiet_queue(2) [OF assms(1)]
          split: prod.split_asm option.split_asm)
    with \<open>reg w1 = reg w\<close> show "reg w2 = reg w" by simp
  qed simp
qed

section \<open>The invariant\<close>

text \<open>The interest of a connection that has something to write is registered under its token.\<close>

definition told where
  "told E reg self w \<longleftrightarrow> (\<forall>t c. conn_at E self t = Some c \<longrightarrow> outbuf c \<noteq> [] \<longrightarrow> reg w t = interest c)"

lemma told_quiet: "told E reg self w \<Longrightarrow> reg w' = reg w \<Longrightarrow> conns self' = conns self \<Longrightarrow> told E reg self' w'"
  by (simp add: told_def)

text \<open>An entry is written or taken away, and only its token is registered anew.\<close>

lemma told_update:
  assumes "told E reg self w" "slab_get (e_conns E) (conns self') = (slab_get (e_conns E) (conns self))(t := c)"
    and "\<And>u. u \<noteq> t \<Longrightarrow> reg w' u = reg w u" "\<And>d. c = Some d \<Longrightarrow> outbuf d \<noteq> [] \<Longrightarrow> reg w' t = interest d"
  shows "told E reg self' w'"
  using assms by (auto simp: told_def)

lemma flush_connection_told:
  assumes ok: "env_watched E reg" "slab_ok (e_conns E)" and c: "conn_at E self t = Some c0" and told: "told E reg self w"
    and step: "flush_connection E self t c w = Some (Ret self', w')"
  shows "told E reg self' w'"
proof -
  from step obtain wb c1 w1 where loop: "loop_act (drain_round (e_iobuf E) (e_mio E)) (True, c) w = Some (Ret (wb, c1), w1)"
    and rest: "outbuf c1 = [] \<and> self' = self\<lparr>conns := slab_set (e_conns E) (conns self) t c1\<rparr> \<and> w' = w1 \<or>
      (\<exists>i. i = insert WRITABLE (interest c1) \<and> self' = self\<lparr>conns := slab_set (e_conns E) (conns self) t (c1\<lparr>interest := i\<rparr>)\<rparr> \<and>
        el_reregister_sock (e_mio E) (conn_sock c1) t i w1 = (Ret (Inr ()), w'))"
    by (auto simp: flush_connection_def drain_write_queue_to_socket_def pbind_eq_Ret abind_eq_Ret unwrap_Ret Let_def split: if_splits)
  note reg = drain_quiet [OF ok(1) loop]
  from rest show ?thesis
  proof (elim disjE exE conjE)
    assume "outbuf c1 = []" "self' = self\<lparr>conns := slab_set (e_conns E) (conns self) t c1\<rparr>" "w' = w1"
    with reg show ?thesis by (intro told_update [OF told, of self' t "Some c1"]) (simp_all add: slab_set_get [OF ok(2) c])
  next
    fix i
    assume "self' = self\<lparr>conns := slab_set (e_conns E) (conns self) t (c1\<lparr>interest := i\<rparr>)\<rparr>"
      and "el_reregister_sock (e_mio E) (conn_sock c1) t i w1 = (Ret (Inr ()), w')"
    with reg registered(2) [OF ok(1)] show ?thesis
      by (intro told_update [OF told, of self' t "Some (c1\<lparr>interest := i\<rparr>)"]) (auto simp: slab_set_get [OF ok(2) c])
  qed
qed

lemma readable_connection_told:
  assumes ok: "env_watched E reg" "slab_ok (e_conns E)" and c: "conn_at E self t = Some c" and told: "told E reg self w"
    and step: "readable_connection E self t hint c w = Some (Ret self', w')"
  shows "told E reg self' w'"
proof -
  from step obtain r c1 w1 c2 w2 where
    rd: "Connection_read (e_ab E) (e_mio E) c w = (Ret (r, c1), w1)"
    and fr: "(case r of Inr (Ready n) \<Rightarrow> read_frames E (config self) t c1 n | _ \<Rightarrow> once (ret c1)) w1 = Some (Ret c2, w2)"
    and rest: "self' = self\<lparr>conns := slab_remove (e_conns E) (conns self) t\<rparr> \<and> w' = drop_sender (conn_tx c2) w2 \<or>
      (\<exists>i. self' = self\<lparr>conns := slab_set (e_conns E) (conns self) t (c2\<lparr>interest := i\<rparr>)\<rparr> \<and>
        el_reregister_sock (e_mio E) (conn_sock c2) t i w2 = (Ret (Inr ()), w'))"
    by (auto simp: readable_connection_def pbind_eq_Ret abind_eq_Ret unwrap_Ret Let_def split: if_splits)
  from rd have "reg w1 = reg w" by (auto simp: Connection_read_def elim!: abind_RetE dest!: quiet_mio [OF ok(1)])
  moreover from fr have "reg w2 = reg w1" by (auto split: sum.splits NonBlock.splits dest: read_frames_quiet [OF ok(1)])
  ultimately have reg: "reg w2 = reg w" by simp
  from rest show ?thesis
  proof (elim disjE exE conjE)
    assume "self' = self\<lparr>conns := slab_remove (e_conns E) (conns self) t\<rparr>" "w' = drop_sender (conn_tx c2) w2"
    with reg show ?thesis
      by (intro told_update [OF told, of self' t None]) (simp_all add: slab_remove_get [OF ok(2)] quiet_queue [OF ok(1)])
  next
    fix i
    assume "self' = self\<lparr>conns := slab_set (e_conns E) (conns self) t (c2\<lparr>interest := i\<rparr>)\<rparr>"
      and "el_reregister_sock (e_mio E) (conn_sock c2) t i w2 = (Ret (Inr ()), w')"
    with reg registered(2) [OF ok(1)] show ?thesis
      by (intro told_update [OF told, of self' t "Some (c2\<lparr>interest := i\<rparr>)"]) (auto simp: slab_set_get [OF ok(2) c])
  qed
qed

text \<open>A new connection has nothing to write yet, and its token is not that of another.\<close>

lemma told_insert:
  assumes ok: "slab_ok (e_conns E)" and told: "told E reg self w"
    and ins: "slab_insert (e_conns E) (conns self) (Connection_new P s tx buf) = (r, conns self')"
    and reg: "\<And>u. r \<noteq> Inr u \<Longrightarrow> reg w' u = reg w u"
  shows "told E reg self' w'"
proof (cases r)
  case (Inl v)
  with told slab_full_get [OF ok] ins reg show ?thesis by (simp add: told_def)
next
  case (Inr t)
  from slab_insert_get [OF ok ins [unfolded Inr]] show ?thesis
    by (intro told_update [OF told, of self' t "Some (Connection_new P s tx buf)"]) (use Inr reg in \<open>auto simp: Connection_new_def\<close>)
qed

lemma accept_connection_told:
  assumes ok: "env_watched E reg" "slab_ok (e_conns E)" and told: "told E reg self w"
    and step: "accept_connection E self tx s w = (Ret self', w')"
  shows "told E reg self' w' \<and> listeners self' = listeners self"
proof -
  obtain r cs where ins: "slab_insert (e_conns E) (conns self) (Connection_new (e_proto E) s tx
      (new_buf (e_ab E) (read_buf_sz (config self)) (config_allocator (config self)))) = (r, cs)" by (metis surj_pair)
  with step have self': "self' = self\<lparr>conns := cs\<rparr>" and reg: "\<And>u. r \<noteq> Inr u \<Longrightarrow> reg w' u = reg w u"
    by (auto simp: accept_connection_def Let_def unwrap_Ret quiet_queue [OF ok(1)] elim!: abind_RetE dest!: registered [OF ok(1)] split: sum.splits)
  with ins have "told E reg self' w'" by (intro told_insert [OF ok(2) told, where w' = w' and self' = self']) auto
  with self' show ?thesis by simp
qed

text \<open>Registering a listener leaves the connections alone: their tokens are in another range.\<close>

lemma told_listener:
  assumes rng: "slab_in_range (e_listeners E)" "slab_in_range (e_conns E)" and made: "slabs_made E self cfg"
    and l: "slab_get (e_listeners E) (listeners self) t = Some v" and told: "told E reg self w"
    and reg: "\<And>u. u \<noteq> t \<Longrightarrow> reg w' u = reg w u"
  shows "told E reg self w'"
proof -
  obtain n where n: "t = Token n" by (cases t)
  from made have "slab_made (e_listeners E) 0 128 (listeners self)" "slab_made (e_conns E) 256 (max_connections cfg + 256) (conns self)"
    by (simp_all add: slabs_made_def)
  with in_range [OF rng(1), of 0 128 "listeners self" n v] in_range [OF rng(2), of 256 "max_connections cfg + 256" "conns self" n] l n
  have "conn_at E self t = None" by (cases "conn_at E self t") auto
  with told reg show ?thesis unfolding told_def by (metis option.distinct(1))
qed

lemma readable_listener_told:
  assumes ok: "env_watched E reg" "slab_ok (e_conns E)" and rng: "slab_in_range (e_listeners E)" "slab_in_range (e_conns E)"
    and made: "slabs_made E self cfg" and told: "told E reg self w" and step: "readable_listener E self t w = (Ret self', w')"
  shows "told E reg self' w'"
proof -
  from step obtain a tx r w1 w2 where l: "slab_get (e_listeners E) (listeners self) t = Some (a, tx)"
    and ac: "tcp_accept (e_mio E) a w = (Ret r, w1)"
    and br: "(case r of Inr (Ready s) \<Rightarrow> accept_connection E self tx s | _ \<Rightarrow> ret self) w1 = (Ret self', w2)"
    and rr: "el_reregister_acceptor (e_mio E) a t {READABLE} w2 = (Ret (Inr ()), w')"
    by (auto simp: readable_listener_def unwrap_Ret elim!: abind_RetE)
  have "told E reg self w1" using told quiet_mio(6) [OF ok(1) ac] by (rule told_quiet) simp
  with br have t2: "told E reg self' w2" and "listeners self' = listeners self"
    by (auto split: sum.splits NonBlock.splits dest: accept_connection_told [OF ok])
  with l have l': "slab_get (e_listeners E) (listeners self') t = Some (a, tx)" by simp
  show ?thesis by (rule told_listener [OF rng readable_listener_made [OF made step] l' t2]) (simp add: registered(4) [OF ok(1) rr])
qed

lemma connect_told:
  assumes ok: "env_watched E reg" "slab_ok (e_conns E)" and told: "told E reg self w"
    and step: "EngineInner_connect E self host port w = (Ret (r, self'), w')"
  shows "told E reg self' w'"
proof (cases "reg w' = reg w \<and> self' = self")
  case True
  with told show ?thesis by (auto intro: told_quiet)
next
  case False
  with step obtain s tx t buf where ins: "slab_insert (e_conns E) (conns self) (Connection_new (e_proto E) s tx buf) = (t, conns self')"
    and reg: "\<forall>u. t \<noteq> Inr u \<longrightarrow> reg w' u = reg w u"
    by (auto simp: EngineInner_connect_def Let_def unwrap_Ret first_address_Ret quiet_queue [OF ok(1)] elim!: abind_RetE
        dest!: registered [OF ok(1)] quiet_mio [OF ok(1)] quiet_queue(1) [OF ok(1)] split: prod.split_asm sum.split_asm)
  from told_insert [OF ok(2) told ins] reg show ?thesis by blast
qed

lemma listen_told:
  assumes ok: "env_watched E reg" "slab_ok (e_listeners E)" and rng: "slab_in_range (e_listeners E)" "slab_in_range (e_conns E)"
    and made: "slabs_made E self cfg" and told: "told E reg self w"
    and step: "EngineInner_listen E self host port w = (Ret (r, self'), w')"
  shows "told E reg self' w'"
proof (cases "reg w' = reg w")
  case True
  from told_quiet [OF told this EngineInner_listen_conns [OF step]] show ?thesis .
next
  case False
  with step obtain v t where ins: "slab_insert (e_listeners E) (listeners self) v = (Inr t, listeners self')"
    and reg: "\<forall>u. u \<noteq> t \<longrightarrow> reg w' u = reg w u"
    by (auto simp: EngineInner_listen_def Let_def unwrap_Ret first_address_Ret quiet_queue [OF ok(1)] elim!: abind_RetE
        dest!: registered [OF ok(1)] quiet_mio [OF ok(1)] quiet_queue(1) [OF ok(1)] split: prod.split_asm sum.split_asm)
  have t: "told E reg self' w" using told refl EngineInner_listen_conns [OF step] by (rule told_quiet)
  have l: "slab_get (e_listeners E) (listeners self') t = Some v" using slab_insert_get [OF ok(2) ins] by simp
  show ?thesis by (rule told_listener [OF rng listen_made [OF made step] l t]) (use reg in simp)
qed

lemma timeouts_told:
  assumes ok: "env_watched E reg" and told: "told E reg self w"
  shows "handle_timeout E self t w = (Ret self', w') \<Longrightarrow> told E reg self' w'"
    and "NetEngine_timeout E self d cb w = (Ret self', w') \<Longrightarrow> told E reg self' w'"
proof -
  assume step: "handle_timeout E self t w = (Ret self', w')"
  then have "reg w' = reg w"
    by (auto simp: handle_timeout_def Let_def unwrap_Ret elim!: abind_RetE dest!: quiet_mio [OF ok] split: prod.split_asm if_split_asm)
  from told_quiet [OF told this handle_timeout_conns [OF step]] show "told E reg self' w'" .
next
  assume step: "NetEngine_timeout E self d cb w = (Ret self', w')"
  then have "reg w' = reg w"
    by (auto simp: NetEngine_timeout_def Let_def unwrap_Ret elim!: abind_RetE dest!: quiet_mio [OF ok] split: prod.split_asm sum.split_asm)
  from told_quiet [OF told this NetEngine_timeout_conns [OF step]] show "told E reg self' w'" .
qed

lemma handle_told:
  assumes ok: "env_watched E reg" "slab_ok (e_conns E)" and rng: "slab_in_range (e_listeners E)" "slab_in_range (e_conns E)"
    and made: "slabs_made E self cfg" and told: "told E reg self w" and step: "handle E ev self w = Some (Ret self', w')"
  shows "told E reg self' w'"
  using step told
  by (cases ev) (auto simp: handle_def readable_def handle_writable_def handle_notify_def split: if_splits option.splits
      intro: flush_connection_told [OF ok] readable_connection_told [OF ok] readable_listener_told [OF ok rng made] timeouts_told [OF ok(1)])

section \<open>The engine over time\<close>

text \<open>
  The steps of \<open>engine_step\<close>, when the rest of the program leaves the registrations to the engine.
\<close>

inductive watched_step for E reg where
  event: "handle E ev self w = Some (Ret self', w') \<Longrightarrow> watched_step E reg (self, w) (self', w')"
| connect: "NetEngine_connect E self host port w = (Ret (r, self'), w') \<Longrightarrow> watched_step E reg (self, w) (self', w')"
| listen: "NetEngine_listen E self host port w = (Ret (r, self'), w') \<Longrightarrow> watched_step E reg (self, w) (self', w')"
| timeout: "NetEngine_timeout E self duration cb w = (Ret self', w') \<Longrightarrow> watched_step E reg (self, w) (self', w')"
| elsewhere: "same_ends w w' \<Longrightarrow> reg w' = reg w \<Longrightarrow> watched_step E reg (self, w) (self, w')"

inductive watched_reach for E reg cfg w0 where
  start: "watched_reach E reg cfg w0 (EngineInner_new E cfg, w0)"
| step: "watched_reach E reg cfg w0 x \<Longrightarrow> watched_step E reg x y \<Longrightarrow> watched_reach E reg cfg w0 y"

lemma watched_step_engine: "watched_step E reg x y \<Longrightarrow> engine_step E x y"
  by (induction rule: watched_step.induct) (auto intro: engine_step.intros)

lemma watched_reach_engine: "watched_reach E reg cfg w0 x \<Longrightarrow> engine_reach E cfg w0 x"
  by (induction rule: watched_reach.induct) (auto intro: engine_reach.intros watched_step_engine)

lemma watched_step_told:
  assumes ok: "env_watched E reg" "slab_ok (e_conns E)" "slab_ok (e_listeners E)"
    and rng: "slab_in_range (e_listeners E)" "slab_in_range (e_conns E)"
    and "watched_step E reg x y" "slabs_made E (fst x) cfg" "told E reg (fst x) (snd x)"
  shows "told E reg (fst y) (snd y)"
  using assms(6-8)
proof (induction rule: watched_step.induct)
  case (event ev self w self' w')
  then show ?case using handle_told [OF ok(1,2) rng] by simp
next
  case (connect self host port w r self' w')
  then show ?case using connect_told [OF ok(1,2)] by (simp add: NetEngine_connect_def)
next
  case (listen self host port w r self' w')
  then show ?case using listen_told [OF ok(1,3) rng] by (simp add: NetEngine_listen_def)
next
  case (timeout self duration cb w self' w')
  then show ?case using timeouts_told(2) [OF ok(1)] by simp
next
  case (elsewhere w w' self)
  then show ?case by (auto intro: told_quiet)
qed

lemma watched_reach_told:
  assumes ok: "env_watched E reg" "slab_ok (e_conns E)" "slab_ok (e_listeners E)"
    and rng: "slab_in_range (e_listeners E)" "slab_in_range (e_conns E)"
  shows "watched_reach E reg cfg w0 x \<Longrightarrow> told E reg (fst x) (snd x)"
proof (induction rule: watched_reach.induct)
  case start
  show ?case using ok(2) by (simp add: told_def EngineInner_new_def slab_new_get)
next
  case (step x y)
  show ?case by (rule watched_step_told [OF ok rng step.hyps(2) engine_reach_slabs_made [OF watched_reach_engine [OF step.hyps(1)]] step.IH])
qed

text \<open>C12. In every state the engine can get to, whatever events arrive and whatever the program asks for, as long as nobody else
  changes its registrations: the interest of a connection that still has bytes to write includes writing, and
  it is this interest that the event loop has registered under the token of the connection, so the loop will call \<^verbatim>\<open>writable\<close>
  when the socket can take more; and the connection holds only messages that were addressed to it.\<close>

theorem engine_never_forgets_output:
  assumes "env_ok E wire" "env_watched E reg" "slab_in_range (e_listeners E)" "slab_in_range (e_conns E)"
    and "watched_reach E reg cfg w0 (self, w)" "conn_at E self t = Some c"
  shows "(outbuf c \<noteq> [] \<longrightarrow> WRITABLE \<in> reg w t \<and> reg w t = interest c) \<and> (\<forall>m\<in>set (outbuf c). sb_tok m = t)"
proof -
  have slabs: "slab_ok (e_conns E)" "slab_ok (e_listeners E)" using assms(1) by (simp_all add: env_ok_def)
  have "told E reg self w" using watched_reach_told [OF assms(2) slabs assms(3,4,5)] by simp
  moreover have "engine_inv E self" using engine_reach_inv [OF assms(1) watched_reach_engine [OF assms(5)]] by simp
  ultimately show ?thesis using assms(6) by (auto simp: told_def engine_inv_def conn_ok_def)
qed

section \<open>A platform that records registrations\<close>

text \<open>Its sockets take nothing and have nothing to read.\<close>

record 'm watched_world = "'m net_world" +
  registry :: "Token \<Rightarrow> Interest set"

definition watched_register :: "Token \<Rightarrow> Interest set \<Rightarrow> ('m watched_world, io_error + unit) act" where
  "watched_register t i = (\<lambda>w. (Ret (Inr ()), w\<lparr>registry := (registry w)(t := i)\<rparr>))"

definition watched_mio :: "('m watched_world, unit, unit, unit, u8 list, u8 list, nat, nat, unit) mio" where
  "watched_mio =
     \<lparr>get_host_addresses = (\<lambda>_. ret (Inr [0])), tcp_v4 = ret (Inr ()), tcp_connect = (\<lambda>_ _ _. ret (Inr ())),
      tcp_bind = (\<lambda>_ _ _. ret (Inr ())), tcp_listen = (\<lambda>_ _. ret (Inr ())), tcp_accept = (\<lambda>_. ret (Inr WouldBlock)),
      tcp_write = (\<lambda>_ _ b. ret (Inr WouldBlock, b)), tcp_read = (\<lambda>_ _ b. ret (Inr WouldBlock, b)),
      el_register_sock = (\<lambda>_. watched_register), el_register_acceptor = (\<lambda>_. watched_register),
      el_reregister_sock = (\<lambda>_. watched_register), el_reregister_acceptor = (\<lambda>_. watched_register),
      el_timeout = (\<lambda>_ _. ret (Inr 7)), el_clear_timeout = (\<lambda>_. ret True), el_channel = ()\<rparr>"

definition watched_env where
  "watched_env = \<lparr>e_iobuf = sample_iobuf, e_ab = sample_ab,
     e_mio = (watched_mio :: (u8 list ProtoMsg watched_world, _, _, _, _, _, _, _, _) mio), e_proto = BufProtocol sample_iobuf (protocol_size 4),
     e_listeners = ranged_slab, e_timeouts = ranged_slab, e_conns = ranged_slab, e_call = (\<lambda>cb. ret (cb, cb))\<rparr>"

definition watched_start :: "u8 list ProtoMsg watched_world" where
  "watched_start = \<lparr>stdout = [], chans = (\<lambda>_. sync_queue 4), next_chan = 0, registry = (\<lambda>_. {})\<rparr>"

lemma watched_env_ok: "env_ok watched_env (\<lambda>_ _. [])"
  by (simp add: env_ok_def watched_env_def watched_mio_def writes_ok_def written_def reregisters_ok_def watched_register_def ranged_slab_ok)

lemma watched_env_watched: "env_watched watched_env registry"
  by (auto simp: env_watched_def mio_watched_def watched_env_def watched_mio_def quiet_def registers_def watched_register_def set_chan_def
      BufProtocol_def BufProtocol_append_def unwrap_unit_def Let_def elim!: abind_RetE split: if_splits sum.splits)

lemma watched_steps:
  "\<exists>r self w self' w' c. NetEngine_connect watched_env (EngineInner_new watched_env sample_config) ''host'' 80 watched_start = (Ret (r, self), w) \<and>
    handle watched_env (Notify (StreamBuf [1, 2, 3] (Token 256))) self w = Some (Ret self', w') \<and>
    conn_at watched_env self' (Token 256) = Some c \<and> outbuf c \<noteq> []"
  by (simp add: NetEngine_connect_def EngineInner_connect_def EngineInner_new_def watched_env_def watched_mio_def abind_def unwrap_io_def
      first_address_def sync_channel_def ranged_slab_def unwrap_option_def sample_config_def Let_def watched_register_def Connection_new_def
      handle_def handle_notify_def flush_connection_def drain_write_queue_to_socket_def pbind_def loop_act.simps drain_round_def)

theorem engine_never_forgets_output_witness:
  "\<exists>self w c. watched_reach watched_env registry sample_config watched_start (self, w) \<and> conn_at watched_env self (Token 256) = Some c \<and>
    outbuf c \<noteq> [] \<and> WRITABLE \<in> registry w (Token 256)"
proof -
  from watched_steps obtain r self w self' w' c where
    s: "NetEngine_connect watched_env (EngineInner_new watched_env sample_config) ''host'' 80 watched_start = (Ret (r, self), w)"
      "handle watched_env (Notify (StreamBuf [1, 2, 3] (Token 256))) self w = Some (Ret self', w')"
    and c: "conn_at watched_env self' (Token 256) = Some c" "outbuf c \<noteq> []" by (elim exE conjE)
  have reach: "watched_reach watched_env registry sample_config watched_start (self', w')"
    by (rule watched_reach.step [OF watched_reach.step [OF watched_reach.start watched_step.connect [OF s(1)]] watched_step.event [OF s(2)]])
  have rng: "slab_in_range (e_listeners watched_env)" "slab_in_range (e_conns watched_env)"
    by (simp_all add: watched_env_def ranged_slab_in_range)
  from engine_never_forgets_output [OF watched_env_ok watched_env_watched rng reach c(1)] c reach show ?thesis by blast
qed

section \<open>What is never given back\<close>

text \<open>C34. When the attempt to connect itself fails, after the socket has been made, put into the slab and registered, \<^verbatim>\<open>connect\<close>
  returns the error and undoes nothing: the connection stays in the slab under a token that is in no result, it stays
  registered for reading, and it holds the only sender of a queue whose receiver has been dropped.\<close>

theorem failed_connect_keeps_the_connection:
  fixes port :: usize
  assumes "env_watched E reg" "mio_private (e_mio E)" "slab_ok (e_conns E)"
    and "get_host_addresses (e_mio E) host w = (Ret (Inr (ip # ips)), w1)" "tcp_v4 (e_mio E) w1 = (Ret (Inr s), w2)"
    and "c = Connection_new (e_proto E) s (next_chan w2) (new_buf (e_ab E) (read_buf_sz (config self)) (config_allocator (config self)))"
    and "slab_insert (e_conns E) (conns self) c = (Inr t, cs)"
    and "el_register_sock (e_mio E) s t {READABLE} (snd (sync_channel (queue_size (config self)) w2)) = (Ret (Inr ()), w3)"
    and "tcp_connect (e_mio E) s ip (ucast port) w3 = (Ret (Inl e), w4)"
  shows "\<exists>w'. EngineInner_connect E self host port w = (Ret (Inl (FailedToConnect host port e), self\<lparr>conns := cs\<rparr>), w') \<and>
    conn_at E self t = None \<and> slab_get (e_conns E) cs = (slab_get (e_conns E) (conns self))(t \<mapsto> c) \<and> reg w' t = {READABLE} \<and>
    ch_senders (chans w' (conn_tx c)) = 1 \<and> \<not> ch_receiver (chans w' (conn_tx c))"
proof -
  let ?q = "next_chan w2" and ?ws = "snd (sync_channel (queue_size (config self)) w2)"
  have get: "conn_at E self t = None" "slab_get (e_conns E) cs = (slab_get (e_conns E) (conns self))(t \<mapsto> c)"
    using slab_insert_get [OF assms(3,7)] by auto
  have c: "conn_sock c = s" "conn_tx c = ?q" by (simp_all add: assms(6) Connection_new_def)
  have ch: "sync_channel (queue_size (config self)) w2 = (Ret (?q, ?q), ?ws)" by (simp add: sync_channel_def)
  have "EngineInner_connect E self host port w = (Ret (Inl (FailedToConnect host port e), self\<lparr>conns := cs\<rparr>), drop_receiver ?q w4)"
    using assms(4,5,7-9) ch c get by (simp add: EngineInner_connect_def abind_Ret unwrap_io_def unwrap_option_def first_address_def Let_def
        flip: assms(6))
  moreover have "reg (drop_receiver ?q w4) t = {READABLE}"
    using registered(1) [OF assms(1,8)] quiet_mio(3) [OF assms(1,9)] by (simp add: quiet_queue(4) [OF assms(1)])
  moreover have "ch_senders (chans w4 ?q) = ch_senders (chans ?ws ?q)"
  proof -
    have "keeps (el_register_sock (e_mio E) s t {READABLE})" "keeps (tcp_connect (e_mio E) s ip (ucast port))"
      using assms(2) by (simp_all add: mio_private_def)
    with assms(8,9) have "same_ends ?ws w3" "same_ends w3 w4" by (blast intro: keepsD)+
    then show ?thesis by (simp add: same_ends_def)
  qed
  then have "ch_senders (chans (drop_receiver ?q w4) ?q) = 1" by (simp add: sync_channel_def drop_receiver_def sync_queue_def)
  ultimately show ?thesis using get by (intro exI [of _ "drop_receiver ?q w4"]) (simp add: c(2) drop_receiver_def)
qed

definition refused_env where
  "refused_env = watched_env\<lparr>e_mio := watched_mio\<lparr>tcp_connect := (\<lambda>_ _ _. ret (Inl ''refused''))\<rparr>\<rparr>"

theorem failed_connect_keeps_the_connection_witness:
  "\<exists>self' w' c. EngineInner_connect refused_env (EngineInner_new refused_env sample_config) ''host'' 80 watched_start =
      (Ret (Inl (FailedToConnect ''host'' 80 ''refused''), self'), w') \<and> conn_at refused_env self' (Token 256) = Some c \<and>
    registry w' (Token 256) = {READABLE} \<and> \<not> ch_receiver (chans w' (conn_tx c))"
  (is "\<exists>self' w' c. EngineInner_connect refused_env ?self _ _ _ = _ \<and> _")
proof -
  have ok: "env_watched refused_env registry" "mio_private (e_mio refused_env)" "slab_ok (e_conns refused_env)"
    using watched_env_watched
    by (simp_all add: refused_env_def env_watched_def mio_watched_def quiet_def watched_env_def ranged_slab_ok)
      (auto simp: mio_private_def watched_mio_def watched_register_def keeps_def same_ends_def)
  have "get_host_addresses (e_mio refused_env) ''host'' watched_start = (Ret (Inr [0]), watched_start)"
    "tcp_v4 (e_mio refused_env) watched_start = (Ret (Inr ()), watched_start)"
    "\<exists>cs. slab_insert (e_conns refused_env) (conns ?self) v = (Inr (Token 256), cs)"
    "\<exists>w3. el_register_sock (e_mio refused_env) () (Token 256) {READABLE} w = (Ret (Inr ()), w3)"
    "tcp_connect (e_mio refused_env) () 0 80 w = (Ret (Inl ''refused''), w)" for v w
    by (simp_all add: refused_env_def watched_mio_def watched_env_def EngineInner_new_def ranged_slab_def watched_register_def sample_config_def)
  then obtain cs w3 where steps: "get_host_addresses (e_mio refused_env) ''host'' watched_start = (Ret (Inr [0]), watched_start)"
    "tcp_v4 (e_mio refused_env) watched_start = (Ret (Inr ()), watched_start)"
    "slab_insert (e_conns refused_env) (conns ?self) (Connection_new (e_proto refused_env) () (next_chan watched_start)
        (new_buf (e_ab refused_env) (read_buf_sz (config ?self)) (config_allocator (config ?self)))) = (Inr (Token 256), cs)"
    "el_register_sock (e_mio refused_env) () (Token 256) {READABLE} (snd (sync_channel (queue_size (config ?self)) watched_start)) = (Ret (Inr ()), w3)"
    "tcp_connect (e_mio refused_env) () 0 (ucast (80 :: usize)) w3 = (Ret (Inl ''refused''), w3)" by (simp, blast)
  from failed_connect_keeps_the_connection [OF ok steps(1,2) refl steps(3-5)] show ?thesis
    by (elim exE conjE, intro exI conjI) (assumption, simp, assumption+)
qed

end
