(* ===== verification/Rx_Timeouts.thy ===== *)
theory Rx_Timeouts
  imports Rx_Engine_Tokens
begin

text \<open>
  The timeouts of the engine (\<^verbatim>\<open>src/reactor.rs\<close>): \<^verbatim>\<open>NetEngine::timeout\<close> puts a callback into a slab of 255 entries, and no
  code takes it out again. A count of the calls, along a run of the engine, shows when the slab is full.
\<close>

section \<open>The slots\<close>

abbreviation timeout_slots where
  "timeout_slots E self \<equiv> dom (slab_get (e_timeouts E) (timeouts self))"

text \<open>When a callback has run, and also when it has answered that it is done, its entry is still there.\<close>

lemma handle_timeout_slots:
  assumes "slab_ok (e_timeouts E)" "handle_timeout E self t w = (Ret self', w')"
  shows "timeout_slots E self' = timeout_slots E self"
proof -
  from assms(2) obtain cb h cb' where g: "slab_get (e_timeouts E) (timeouts self) t = Some (cb, h)"
    and "timeouts self' = slab_set (e_timeouts E) (timeouts self) t (cb', h)"
    by (auto simp: handle_timeout_def unwrap_option_def Let_def elim!: abind_RetE split: option.split_asm if_split_asm)
  with slab_set_get [OF assms(1) g] show ?thesis by auto
qed

lemma NetEngine_timeout_slots:
  assumes "slab_ok (e_timeouts E)" "NetEngine_timeout E self d cb w = (Ret self', w')"
  shows "\<exists>t. t \<notin> timeout_slots E self \<and> timeout_slots E self' = insert t (timeout_slots E self)"
proof -
  from assms(2) obtain t ts cb' h where ins: "slab_insert (e_timeouts E) (timeouts self) (cb, None) = (Inr t, ts)"
    and self': "timeouts self' = slab_set (e_timeouts E) ts t (cb', Some h)"
    by (auto simp: NetEngine_timeout_def elim!: abind_RetE split: prod.split_asm sum.split_asm)
  from slab_insert_get [OF assms(1) ins] have g: "slab_get (e_timeouts E) (timeouts self) t = None"
    "slab_get (e_timeouts E) ts = (slab_get (e_timeouts E) (timeouts self))(t \<mapsto> (cb, None))" by auto
  then have "slab_get (e_timeouts E) ts t = Some (cb, None)" by simp
  from slab_set_get [OF assms(1) this] g show ?thesis by (intro exI [of _ t]) (auto simp: self')
qed

lemma flush_connection_timeouts: "flush_connection E self t c w = Some (Ret self', w') \<Longrightarrow> timeouts self' = timeouts self"
  by (auto simp: flush_connection_def pbind_eq_Ret abind_eq_Ret Let_def split: if_splits)

lemma readable_connection_timeouts: "readable_connection E self t hint c w = Some (Ret self', w') \<Longrightarrow> timeouts self' = timeouts self"
  by (auto simp: readable_connection_def pbind_eq_Ret abind_eq_Ret Let_def split: if_splits)

lemma accept_connection_timeouts: "accept_connection E self tx s w = (Ret self', w') \<Longrightarrow> timeouts self' = timeouts self"
  by (auto simp: accept_connection_def Let_def elim!: abind_RetE split: prod.split_asm sum.split_asm)

lemma readable_listener_timeouts: "readable_listener E self t w = (Ret self', w') \<Longrightarrow> timeouts self' = timeouts self"
  by (auto simp: readable_listener_def elim!: abind_RetE split: sum.split_asm NonBlock.split_asm dest: accept_connection_timeouts)

lemma connect_timeouts: "EngineInner_connect E self host port w = (Ret (r, self'), w') \<Longrightarrow> timeouts self' = timeouts self"
  by (auto simp: EngineInner_connect_def Let_def elim!: abind_RetE split: prod.split_asm sum.split_asm)

lemma listen_timeouts: "EngineInner_listen E self host port w = (Ret (r, self'), w') \<Longrightarrow> timeouts self' = timeouts self"
  by (auto simp: EngineInner_listen_def Let_def elim!: abind_RetE split: prod.split_asm sum.split_asm)

lemmas handlers_timeouts = flush_connection_timeouts readable_connection_timeouts readable_listener_timeouts connect_timeouts listen_timeouts

lemma engine_step_slots:
  assumes "slab_ok (e_timeouts E)" "engine_step E x y"
  shows "timeout_slots E (fst x) \<subseteq> timeout_slots E (fst y)"
  using assms(2)
proof (induction rule: engine_step.induct)
  case (event ev self w self' w')
  show ?case
  proof (cases ev)
    case (TimedOut t)
    with event have "handle_timeout E self t w = (Ret self', w')" by (simp add: handle_def)
    from handle_timeout_slots [OF assms(1) this] show ?thesis by simp
  qed (use event in \<open>auto simp: handle_def readable_def handle_writable_def handle_notify_def split: if_splits option.splits
      dest!: handlers_timeouts\<close>)
next
  case (timeout self d cb w self' w')
  from NetEngine_timeout_slots [OF assms(1) this] show ?case by auto
qed (auto simp: NetEngine_connect_def NetEngine_listen_def dest: connect_timeouts listen_timeouts)

section \<open>A run with timeouts\<close>

text \<open>\<open>timeouts_set E cfg w0 n x\<close>: the engine gets to the state \<open>x\<close>, and \<open>n\<close> calls of \<^verbatim>\<open>NetEngine::timeout\<close> returned on the way.\<close>

inductive timeouts_set for E cfg w0 where
  start: "timeouts_set E cfg w0 0 (EngineInner_new E cfg, w0)"
| timeout: "timeouts_set E cfg w0 n (self, w) \<Longrightarrow> NetEngine_timeout E self d cb w = (Ret self', w') \<Longrightarrow>
    timeouts_set E cfg w0 (Suc n) (self', w')"
| other: "timeouts_set E cfg w0 n x \<Longrightarrow> engine_step E x y \<Longrightarrow> timeouts_set E cfg w0 n y"

lemma timeouts_set_reach: "timeouts_set E cfg w0 n x \<Longrightarrow> engine_reach E cfg w0 x"
  by (induction rule: timeouts_set.induct) (auto intro: engine_reach.intros engine_step.timeout)

lemma slots_finite:
  assumes "slab_in_range S" "slab_made S base cap s"
  shows "finite (dom (slab_get S s))" "card (dom (slab_get S s)) \<le> unat cap"
proof -
  have sub: "dom (slab_get S s) \<subseteq> (\<lambda>n. Token (of_nat n)) ` {unat base..<unat base + unat cap}"
  proof
    fix t assume "t \<in> dom (slab_get S s)"
    then obtain u v where t: "t = Token u" "slab_get S s (Token u) = Some v" by (cases t) auto
    from in_range [OF assms t(2)] show "t \<in> (\<lambda>n. Token (of_nat n)) ` {unat base..<unat base + unat cap}"
      by (intro image_eqI [of _ _ "unat u"]) (simp_all add: t(1))
  qed
  then show "finite (dom (slab_get S s))" by (rule finite_subset) simp
  from card_mono [OF _ sub] card_image_le [of "{unat base..<unat base + unat cap}" "\<lambda>n. Token (of_nat n)"]
  show "card (dom (slab_get S s)) \<le> unat cap" by simp
qed

lemma timeouts_set_slots:
  assumes "slab_ok (e_timeouts E)" "slab_in_range (e_timeouts E)" "timeouts_set E cfg w0 n x"
  shows "n \<le> card (timeout_slots E (fst x))"
  using assms(3)
proof (induction rule: timeouts_set.induct)
  case (timeout n self w d cb self' w')
  from engine_reach_slabs_made [OF timeouts_set_reach [OF timeout.hyps(1)]]
  have "finite (timeout_slots E self)" using slots_finite(1) [OF assms(2)] by (auto simp: slabs_made_def)
  moreover obtain t where "t \<notin> timeout_slots E self" "timeout_slots E self' = insert t (timeout_slots E self)"
    using NetEngine_timeout_slots [OF assms(1) timeout.hyps(2)] by blast
  ultimately have "card (timeout_slots E self') = Suc (card (timeout_slots E self))" by (metis card_insert_disjoint)
  with timeout.IH show ?case by simp
next
  case (other n x y)
  from engine_reach_slabs_made [OF timeouts_set_reach [OF timeouts_set.other [OF other.hyps]]]
  have "finite (timeout_slots E (fst y))" using slots_finite(1) [OF assms(2)] by (auto simp: slabs_made_def)
  from card_mono [OF this engine_step_slots [OF assms(1) other.hyps(2)]] other.IH show ?case by simp
qed simp

lemma slab_insert_cases:
  fixes p :: "('v + Token) \<times> 't"
  obtains (full) u ts where "p = (Inl u, ts)" | (inserted) t ts where "p = (Inr t, ts)"
  by (cases p; cases "fst p") auto

text \<open>C37. The timeouts of an engine run out: the slot of a timeout is never given back, whether its callback has run, has said
  that it is done, or neither. An engine on which \<^verbatim>\<open>timeout\<close> has been called 255 times, over its whole life and with any
  events in between, panics at the next call; more than 255 calls never succeed.\<close>

theorem timeouts_run_out:
  assumes "slab_ok (e_timeouts E)" "slab_in_range (e_timeouts E)" "timeouts_set E cfg w0 n (self, w)"
  shows "n \<le> 255 \<and> (n = 255 \<longrightarrow>
    NetEngine_timeout E self d cb w = (Panic ''called Result::unwrap() on an Err value: ()'', w))"
proof -
  let ?slots = "timeout_slots E self"
  from engine_reach_slabs_made [OF timeouts_set_reach [OF assms(3)]] have made: "slab_made (e_timeouts E) 129 255 (timeouts self)"
    by (simp add: slabs_made_def)
  from slots_finite [OF assms(2) this] have fin: "finite ?slots" "card ?slots \<le> 255" by simp_all
  have n: "n \<le> card ?slots" using timeouts_set_slots [OF assms] by simp
  have "NetEngine_timeout E self d cb w = (Panic ''called Result::unwrap() on an Err value: ()'', w)" if "n = 255"
  proof (cases "slab_insert (e_timeouts E) (timeouts self) (cb, None)" rule: slab_insert_cases)
    case (full u ts)
    then show ?thesis by (simp add: NetEngine_timeout_def panic_def)
  next
    case (inserted t ts)
    note ins = inserted
    from slab_insert_get [OF assms(1) ins] have "t \<notin> ?slots" "dom (slab_get (e_timeouts E) ts) = insert t ?slots" by auto
    with slots_finite(2) [OF assms(2) slab_made.insert [OF made ins]] fin n that have False by simp
    then show ?thesis ..
  qed
  with n fin show ?thesis by simp
qed

text \<open>On a platform whose slabs have ranges the calls return, one after the other, up to the last slot.\<close>

lemma ranged_timeouts:
  "n \<le> 255 \<Longrightarrow> \<exists>self w vs. timeouts_set ranged_env sample_config sample_start n (self, w) \<and> timeouts self = (129, 255, n, vs) \<and>
     (\<forall>(t, v)\<in>set vs. \<exists>m<n. t = Token (129 + of_nat m))"
proof (induction n)
  case 0
  have "timeouts (EngineInner_new ranged_env sample_config) = (129, 255, 0, [])"
    by (simp add: EngineInner_new_def ranged_env_def ranged_slab_def)
  with timeouts_set.start show ?case by fastforce
next
  case (Suc n)
  then obtain self w vs where IH: "timeouts_set ranged_env sample_config sample_start n (self, w)" "timeouts self = (129, 255, n, vs)"
    and vs: "\<forall>(t, v)\<in>set vs. \<exists>m<n. t = Token (129 + of_nat m)" by auto
  let ?t = "Token (129 + of_nat n)" and ?self = "self\<lparr>timeouts := (129, 255, Suc n, (Token (129 + of_nat n), (True, Some 7)) # (Token (129 + of_nat n), (True, None)) # vs)\<rparr>"
  have ne: "(129 + of_nat m :: usize) \<noteq> 129 + of_nat n" if "m < n" for m
    using that Suc.prems by (simp add: word_unat_eq_iff unat_word_ariths unat_of_nat)
  have "map_of vs ?t = None"
    using vs ne by (fastforce simp: map_of_eq_None_iff)
  then have "NetEngine_timeout ranged_env self 0 True w = (Ret ?self, w)"
    using Suc.prems IH(2) by (simp add: NetEngine_timeout_def ranged_env_def ranged_slab_def sample_mio_def abind_def unwrap_io_def unwrap_option_def)
  moreover have "\<forall>(t, v)\<in>set vs. \<exists>m<Suc n. t = Token (129 + of_nat m)" using vs less_Suc_eq by fastforce
  ultimately show ?case using timeouts_set.timeout [OF IH(1)]
    by (intro exI [of _ ?self] exI [of _ w] exI [of _ "(?t, (True, Some 7)) # (?t, (True, None)) # vs"]) auto
qed

theorem timeouts_run_out_witness:
  "\<exists>self w. timeouts_set ranged_env sample_config sample_start 255 (self, w) \<and>
    NetEngine_timeout ranged_env self 500 True w = (Panic ''called Result::unwrap() on an Err value: ()'', w)"
proof -
  obtain self w where s: "timeouts_set ranged_env sample_config sample_start 255 (self, w)" using ranged_timeouts [of 255] by auto
  have "e_timeouts ranged_env = ranged_slab" by (simp add: ranged_env_def)
  with timeouts_run_out [OF _ _ s, of 500 True] s show ?thesis by (auto simp: ranged_slab_ok ranged_slab_in_range)
qed

end
