(* ===== verification/Rx_Reactor_Read.thy ===== *)
theory Rx_Reactor_Read
  imports Rx_Engine
begin

text \<open>
  The read side of the reactor: the loop that cuts the bytes just read into messages, for any protocol
  that meets the contract \<open>framing\<close>, and for the two protocols of the crate.
\<close>

section \<open>The frames of a stretch of bytes\<close>

lemma parse_all_short: "parse xs = None \<Longrightarrow> parse_all parse xs = ([], xs)"
  by (simp add: parse_all.simps [of parse xs])

lemma parse_all_item: "parse xs = Some (i, n) \<Longrightarrow> 0 < n \<Longrightarrow> n \<le> length xs \<Longrightarrow>
    parse_all parse xs = (i # fst (parse_all parse (drop n xs)), snd (parse_all parse (drop n xs)))"
  by (simp add: parse_all.simps [of parse xs] split: prod.split)

lemma parse_all_blocks:
  assumes "0 < k" "\<forall>b\<in>set bs. length b = k" "length rest < k"
  shows "parse_all (fixed_parse k f) (concat bs @ rest) = (map f bs, rest)"
  using assms(2)
proof (induction bs)
  case Nil
  with assms show ?case by (simp add: parse_all_short fixed_parse_def)
next
  case (Cons b bs)
  then have "fixed_parse k f (concat (b # bs) @ rest) = Some (f b, k)" by (simp add: fixed_parse_def)
  with parse_all_item [of "fixed_parse k f" "concat (b # bs) @ rest" "f b" k] assms(1) Cons show ?case by simp
qed

section \<open>The loop of a connection\<close>

locale stream_framing = framing P fits window item parse
  for P :: "(('o ProtoMsg, 'z) world_scheme, 'p, 'b, 'o) protocol" and fits :: "'b \<Rightarrow> bool" and window item parse
begin

lemma frame_loop:
  assumes "fits abuf" "has_room (chans w (conn_tx c)) (length (fst (parse_all parse (window abuf))))"
  shows "\<exists>ms abuf'. loop_act (frame_round P t) (abuf, c) w =
      Some (Ret (abuf', c\<lparr>marker := marker c + of_nat (length (window abuf) - length (window abuf'))\<rparr>), push_all (conn_tx c) ms w) \<and>
    map (\<lambda>m. item (pm_item m)) ms = fst (parse_all parse (window abuf)) \<and> (\<forall>m\<in>set ms. pm_tok m = t) \<and>
    window abuf' = snd (parse_all parse (window abuf)) \<and> length (window abuf') \<le> length (window abuf)"
  using assms
proof (induction "length (window abuf)" arbitrary: abuf c w rule: less_induct)
  case less
  show ?case
  proof (cases "parse (window abuf)")
    case None
    from append_short [OF less.prems(1) None, of "proto c" w]
    have "frame_round P t (abuf, c) w = (Ret (False, (abuf, c)), w)" by (simp add: frame_round_def abind_Ret)
    then show ?thesis using None by (auto simp: loop_act_leave parse_all_short intro!: exI [of _ "[]"])
  next
    case (Some r)
    obtain i n where r: "r = (i, n)" by (cases r)
    with Some have pr: "parse (window abuf) = Some (i, n)" by simp
    from parse_consumes [OF less.prems(1) pr] have n: "0 < n" "n \<le> length (window abuf)" by auto
    from append_item [OF less.prems(1) pr, of "proto c" w] obtain x b' where
      ap: "append_buf P (proto c) abuf w = (Ret (Some (x, b', of_nat n), proto c), w)" "item x = i"
      and b': "window b' = drop n (window abuf)" "fits b'" by blast
    let ?c = "c\<lparr>marker := marker c + of_nat n\<rparr>" and ?m = "ProtoMsg x t"
    have all: "parse_all parse (window abuf) = (i # fst (parse_all parse (window b')), snd (parse_all parse (window b')))"
      using parse_all_item [of parse "window abuf" i n] pr n b'(1) by simp
    have room: "has_room (chans w (conn_tx c)) (Suc (length (fst (parse_all parse (window b')))))"
      using less.prems(2) all by simp
    have step: "frame_round P t (abuf, c) w = (Ret (True, (b', ?c)), push_all (conn_tx c) [?m] w)"
      using ap(1) SyncSender_send_room [OF room, of ?m] by (simp add: frame_round_def abind_Ret)
    have sm: "length (window b') < length (window abuf)" using b'(1) n by simp
    have room': "has_room (chans (push_all (conn_tx c) [?m] w) (conn_tx ?c)) (length (fst (parse_all parse (window b'))))"
      using has_room_push [OF room] by simp
    from less.hyps [OF sm b'(2) room'] obtain ms abuf' where IH: "loop_act (frame_round P t) (b', ?c) (push_all (conn_tx c) [?m] w) =
        Some (Ret (abuf', ?c\<lparr>marker := marker ?c + of_nat (length (window b') - length (window abuf'))\<rparr>),
          push_all (conn_tx ?c) ms (push_all (conn_tx c) [?m] w))"
      "map (\<lambda>m. item (pm_item m)) ms = fst (parse_all parse (window b'))" "\<forall>m\<in>set ms. pm_tok m = t"
      "window abuf' = snd (parse_all parse (window b'))" "length (window abuf') \<le> length (window b')" by blast
    have mk: "of_nat n + (of_nat (length (window b') - length (window abuf')) :: u32) = of_nat (length (window abuf) - length (window abuf'))"
    proof -
      have "n + (length (window b') - length (window abuf')) = length (window abuf) - length (window abuf')"
        using b'(1) n IH(5) by simp
      then show ?thesis by (metis of_nat_add)
    qed
    show ?thesis
      using IH ap(2) all step mk b'(1) by (intro exI [of _ "?m # ms"] exI [of _ abuf']) (simp add: loop_act_again push_all_Cons add.assoc)
  qed
qed

text \<open>When the queue has no room for all the items, the loop stops at the first that does not fit, and waits.\<close>

lemma frame_loop_full:
  assumes "fits abuf" "ch_receiver (chans w (conn_tx c))" "ch_bound (chans w (conn_tx c)) = Some k"
    and "length (ch_buf (chans w (conn_tx c))) \<le> k"
    and "k < length (ch_buf (chans w (conn_tx c))) + length (fst (parse_all parse (window abuf)))"
  shows "\<exists>w'. loop_act (frame_round P t) (abuf, c) w = Some (Blocked, w') \<and> length (ch_buf (chans w' (conn_tx c))) = k"
  using assms
proof (induction "length (window abuf)" arbitrary: abuf c w rule: less_induct)
  case less
  obtain i n where pr: "parse (window abuf) = Some (i, n)"
    using less.prems(4,5) by (cases "parse (window abuf)") (auto simp: parse_all_short)
  from parse_consumes [OF less.prems(1) pr] have n: "0 < n" "n \<le> length (window abuf)" by auto
  from append_item [OF less.prems(1) pr, of "proto c" w] obtain x b' where
    ap: "append_buf P (proto c) abuf w = (Ret (Some (x, b', of_nat n), proto c), w)"
    and b': "window b' = drop n (window abuf)" "fits b'" by blast
  let ?c = "c\<lparr>marker := marker c + of_nat n\<rparr>" and ?w = "push_all (conn_tx c) [ProtoMsg x t] w"
  show ?case
  proof (cases "length (ch_buf (chans w (conn_tx c))) = k")
    case True
    with less.prems ap have "frame_round P t (abuf, c) w = (Blocked, w)"
      by (simp add: frame_round_def abind_def SyncSender_send_def)
    with True show ?thesis by (auto simp: loop_act_Blocked)
  next
    case False
    with less.prems have room: "has_room (chans w (conn_tx c)) (Suc 0)" by (simp add: has_room_def)
    have "frame_round P t (abuf, c) w = (Ret (True, (b', ?c)), ?w)"
      using ap SyncSender_send_room [OF room] by (simp add: frame_round_def abind_Ret)
    moreover have "\<exists>w'. loop_act (frame_round P t) (b', ?c) ?w = Some (Blocked, w') \<and> length (ch_buf (chans w' (conn_tx ?c))) = k"
      by (rule less.hyps) (use b' n less.prems False parse_all_item [of parse "window abuf" i n] pr in \<open>auto simp: push_all_def\<close>)
    ultimately show ?thesis by (simp add: loop_act_again)
  qed
qed

text \<open>
  What \<^verbatim>\<open>readable\<close> does with the bytes of a slice, for any protocol: its items are sent, and the rest stays behind the
  marker or is copied to the new buffer.
\<close>

lemma read_frames_parse:
  assumes "iobuf_ok (e_iobuf E)" "window = iobuf_window (e_iobuf E)" "e_proto E = P" "fits abuf"
    and "ab_atomic_slice_pos_from_begin (e_ab E) (rb_buf (conn_buf c)) (marker c) n = Inr abuf"
    and "parse_all parse (window abuf) = (xs, rest)" "has_room (chans w (conn_tx c)) (length xs)"
  shows "\<exists>ms c'. read_frames E cfg t c n w = Some (Ret c', push_all (conn_tx c) ms w) \<and>
    map (\<lambda>m. item (pm_item m)) ms = xs \<and> (\<forall>m\<in>set ms. pm_tok m = t) \<and>
    (if ab_len (e_ab E) (rb_buf (conn_buf c)) < ucast (min_read_buf_sz cfg)
     then marker c' = 0 \<and> rb_buf (conn_buf c') =
       (let b = rb_buf (new_buf (e_ab E) (read_buf_sz cfg) (config_allocator cfg)) in if rest = [] then b else ab_fill (e_ab E) b rest)
     else marker c' = marker c + of_nat (length (window abuf) - length rest) \<and> conn_buf c' = conn_buf c)"
proof -
  let ?I = "e_iobuf E"
  obtain ms abuf' where loop: "loop_act (frame_round P t) (abuf, c) w =
      Some (Ret (abuf', c\<lparr>marker := marker c + of_nat (length (window abuf) - length (window abuf'))\<rparr>), push_all (conn_tx c) ms w)"
    and ms: "map (\<lambda>m. item (pm_item m)) ms = xs" "\<forall>m\<in>set ms. pm_tok m = t" and abuf': "window abuf' = rest"
    using frame_loop [OF assms(4), of w c t] assms(6,7) by auto
  have "iobuf_len ?I abuf' > 0 \<longleftrightarrow> rest \<noteq> []"
    using iobuf_len_unat [OF assms(1), of abuf'] abuf' assms(2) by (auto simp: word_less_nat_alt)
  with loop ms abuf' assms(2,3,5) show ?thesis
    by (intro exI [of _ ms]) (simp add: read_frames_def pbind_def unwrap_unit_def Let_def)
qed

end

interpretation buf_stream: stream_framing "BufProtocol I S" "\<lambda>b. iobuf_ok I \<and> 0 < hs_size S" "iobuf_window I" "iobuf_window I"
  "fixed_parse (unat (hs_size S)) (\<lambda>xs. xs)" for I S
  by unfold_locales

interpretation u64_stream: stream_framing "U64Protocol I" "\<lambda>b. iobuf_ok I" "iobuf_window I" "\<lambda>x. x" "fixed_parse 8 le_u64" for I
  by unfold_locales

section \<open>What is read off a connection\<close>

lemma read_frames_blocks:
  assumes "iobuf_ok (e_iobuf E)" "e_proto E = BufProtocol (e_iobuf E) S" "0 < hs_size S"
    and "ab_atomic_slice_pos_from_begin (e_ab E) (rb_buf (conn_buf c)) (marker c) n = Inr abuf"
    and "iobuf_window (e_iobuf E) abuf = concat bs @ rest" "\<forall>b\<in>set bs. length b = unat (hs_size S)" "length rest < unat (hs_size S)"
    and "has_room (chans w (conn_tx c)) (length bs)"
  shows "\<exists>ms c'. read_frames E cfg t c n w = Some (Ret c', push_all (conn_tx c) ms w) \<and>
    map (\<lambda>m. iobuf_window (e_iobuf E) (pm_item m)) ms = bs \<and> (\<forall>m\<in>set ms. pm_tok m = t) \<and>
    (if ab_len (e_ab E) (rb_buf (conn_buf c)) < ucast (min_read_buf_sz cfg)
     then marker c' = 0 \<and> rb_buf (conn_buf c') =
       (let b = rb_buf (new_buf (e_ab E) (read_buf_sz cfg) (config_allocator cfg)) in if rest = [] then b else ab_fill (e_ab E) b rest)
     else marker c' = marker c + of_nat (length (concat bs)) \<and> conn_buf c' = conn_buf c)"
proof -
  let ?I = "e_iobuf E"
  have "0 < unat (hs_size S)" using assms(3) by (simp add: word_less_nat_alt)
  from parse_all_blocks [OF this assms(6,7), of "\<lambda>xs. xs"] assms(5)
  have "parse_all (fixed_parse (unat (hs_size S)) (\<lambda>xs. xs)) (iobuf_window ?I abuf) = (bs, rest)" by simp
  from buf_stream.read_frames_parse [OF assms(1) refl assms(2) _ assms(4) this assms(8), of cfg t] assms(1,3)
  show ?thesis by (simp add: assms(5) cong: if_cong)
qed

text \<open>With a \<^verbatim>\<open>BufProtocol\<close> of \<open>k\<close> bytes, the bytes just read are sent on as messages of \<open>k\<close> bytes, each with
  the token of the connection, in order and nothing missing; the marker moves behind them, and the bytes
  that are left over are copied to the front of the new buffer when the old one is nearly full.\<close>

theorem read_frames_sends_the_blocks:
  assumes "iobuf_ok (e_iobuf E)" "e_proto E = BufProtocol (e_iobuf E) S" "0 < hs_size S"
    and "ab_atomic_slice_pos_from_begin (e_ab E) (rb_buf (conn_buf c)) (marker c) n = Inr abuf"
    and "iobuf_window (e_iobuf E) abuf = concat bs @ rest" "\<forall>b\<in>set bs. length b = unat (hs_size S)" "length rest < unat (hs_size S)"
    and "has_room (chans w (conn_tx c)) (length bs)"
  shows "\<exists>ms c'. read_frames E cfg t c n w = Some (Ret c', push_all (conn_tx c) ms w) \<and>
    map (\<lambda>m. iobuf_window (e_iobuf E) (pm_item m)) ms = bs \<and> (\<forall>m\<in>set ms. pm_tok m = t) \<and>
    (if ab_len (e_ab E) (rb_buf (conn_buf c)) < ucast (min_read_buf_sz cfg)
     then marker c' = 0 \<and> rb_buf (conn_buf c') =
       (let b = rb_buf (new_buf (e_ab E) (read_buf_sz cfg) (config_allocator cfg)) in if rest = [] then b else ab_fill (e_ab E) b rest)
     else marker c' = marker c + of_nat (length (concat bs)) \<and> conn_buf c' = conn_buf c)"
  by (rule read_frames_blocks [OF assms])

theorem read_frames_sends_the_blocks_witness:
  "\<exists>ms c'. read_frames sample_buf_env sample_config (Token 0) (sample_conn\<lparr>conn_buf := ReadBuf [1, 2, 3, 4, 5, 6, 7, 8, 9]\<rparr>) 9 sample_start =
      Some (Ret c', push_all 0 ms sample_start) \<and>
    map (\<lambda>m. take 4294967295 (pm_item m)) ms = [[1, 2, 3, 4], [5, 6, 7, 8]] \<and> marker c' = 8"
  using read_frames_sends_the_blocks [of sample_buf_env "protocol_size 4" "sample_conn\<lparr>conn_buf := ReadBuf [1, 2, 3, 4, 5, 6, 7, 8, 9]\<rparr>" 9
      "[1, 2, 3, 4, 5, 6, 7, 8, 9]" "[[1, 2, 3, 4], [5, 6, 7, 8]]" "[9]" sample_start sample_config "Token 0"]
  by (fastforce simp: protocol_size_def sample_conn_def sample_ab_def sample_config_def sample_start_def has_room_def sync_queue_def)

text \<open>C30. The queue between the reactor and the program is bounded and the reactor sends with a blocking \<^verbatim>\<open>send\<close>: when
  the messages just read do not fit, the handler waits in the middle of the batch, and the event loop
  with all its other connections waits with it.\<close>

theorem read_frames_waits_on_a_full_queue:
  assumes "iobuf_ok (e_iobuf E)" "e_proto E = BufProtocol (e_iobuf E) S" "0 < hs_size S"
    and "ab_atomic_slice_pos_from_begin (e_ab E) (rb_buf (conn_buf c)) (marker c) n = Inr abuf"
    and "iobuf_window (e_iobuf E) abuf = concat bs @ rest" "\<forall>b\<in>set bs. length b = unat (hs_size S)" "length rest < unat (hs_size S)"
    and "ch_receiver (chans w (conn_tx c))" "ch_bound (chans w (conn_tx c)) = Some k"
    and "length (ch_buf (chans w (conn_tx c))) \<le> k" "k < length (ch_buf (chans w (conn_tx c))) + length bs"
  shows "\<exists>w'. read_frames E cfg t c n w = Some (Blocked, w') \<and> length (ch_buf (chans w' (conn_tx c))) = k"
proof -
  let ?I = "e_iobuf E"
  have "0 < unat (hs_size S)" using assms(3) by (simp add: word_less_nat_alt)
  from parse_all_blocks [OF this assms(6,7), of "\<lambda>xs. xs"] assms(5)
  have "parse_all (fixed_parse (unat (hs_size S)) (\<lambda>xs. xs)) (iobuf_window ?I abuf) = (bs, rest)" by simp
  with buf_stream.frame_loop_full [of ?I S w c k abuf t] assms show ?thesis
    by (auto simp: read_frames_def pbind_def unwrap_unit_def)
qed

theorem read_frames_waits_on_a_full_queue_witness:
  "\<exists>w'. read_frames sample_buf_env sample_config (Token 0) (sample_conn\<lparr>conn_buf := ReadBuf [1, 2, 3, 4, 5, 6, 7, 8, 9]\<rparr>) 9
      (sample_start\<lparr>chans := (\<lambda>_. sync_queue 1)\<rparr>) = Some (Blocked, w') \<and> length (ch_buf (chans w' 0)) = 1"
  using read_frames_waits_on_a_full_queue [of sample_buf_env "protocol_size 4" "sample_conn\<lparr>conn_buf := ReadBuf [1, 2, 3, 4, 5, 6, 7, 8, 9]\<rparr>" 9
      "[1, 2, 3, 4, 5, 6, 7, 8, 9]" "[[1, 2, 3, 4], [5, 6, 7, 8]]" "[9]" "sample_start\<lparr>chans := (\<lambda>_. sync_queue 1)\<rparr>" 1 sample_config "Token 0"]
  by (simp add: protocol_size_def sample_conn_def sample_ab_def sync_queue_def)

section \<open>Blocks of no bytes\<close>

lemma empty_block_round:
  assumes "iobuf_ok I" "hs_size S = 0"
  shows "\<exists>x b'. frame_round (BufProtocol I S) t (abuf, c) w =
    abind (SyncSender_send (conn_tx c) (ProtoMsg x t)) (\<lambda>_. ret (True, (b', c))) w"
proof -
  have "unat (hs_size S) \<le> length (iobuf_window I abuf)" using assms(2) by simp
  then obtain x y where xy: "iobuf_split_at I abuf (hs_size S) = Inr (x, y)" using iobuf_splitE [OF assms(1)] by blast
  have upd: "c\<lparr>proto := ()\<rparr> = c" by (cases c) simp
  show ?thesis
    by (rule exI [of _ x], rule exI [of _ y]) (use xy assms(2) in
      \<open>simp add: frame_round_def BufProtocol_def BufProtocol_append_def unwrap_unit_def Let_def abind_Ret upd\<close>)
qed

text \<open>C38. With blocks of no bytes the handler never comes back: \<^verbatim>\<open>append\<close> finds one in every buffer and takes nothing off it.
  The loop fills the queue with empty messages and waits, as long as there is a reader; when the reader is
  gone, the results of the sends are ignored and the loop runs for ever.\<close>

theorem empty_blocks_never_end:
  assumes "iobuf_ok I" "hs_size S = 0" "ch_bound (chans w (conn_tx c)) = Some k" "length (ch_buf (chans w (conn_tx c))) \<le> k"
  shows "if ch_receiver (chans w (conn_tx c))
    then \<exists>w'. loop_act (frame_round (BufProtocol I S) t) (abuf, c) w = Some (Blocked, w') \<and> length (ch_buf (chans w' (conn_tx c))) = k
    else loop_act (frame_round (BufProtocol I S) t) (abuf, c) w = None"
proof (cases "ch_receiver (chans w (conn_tx c))")
  case True
  have "\<exists>w'. loop_act (frame_round (BufProtocol I S) t) (abuf, c) w = Some (Blocked, w') \<and> length (ch_buf (chans w' (conn_tx c))) = k"
    using True assms(3,4)
  proof (induction "k - length (ch_buf (chans w (conn_tx c)))" arbitrary: abuf w)
    case 0
    obtain x b' where "frame_round (BufProtocol I S) t (abuf, c) w = abind (SyncSender_send (conn_tx c) (ProtoMsg x t)) (\<lambda>_. ret (True, (b', c))) w"
      using empty_block_round [OF assms(1,2)] by blast
    with 0 have "frame_round (BufProtocol I S) t (abuf, c) w = (Blocked, w)" by (simp add: SyncSender_send_def abind_def)
    with 0 show ?case by (simp add: loop_act_Blocked)
  next
    case (Suc n)
    obtain x b' where round: "frame_round (BufProtocol I S) t (abuf, c) w = abind (SyncSender_send (conn_tx c) (ProtoMsg x t)) (\<lambda>_. ret (True, (b', c))) w"
      using empty_block_round [OF assms(1,2)] by blast
    have "has_room (chans w (conn_tx c)) (Suc 0)" using Suc.hyps(2) Suc.prems by (simp add: has_room_def)
    from SyncSender_send_room [OF this] round
    have "frame_round (BufProtocol I S) t (abuf, c) w = (Ret (True, (b', c)), push_all (conn_tx c) [ProtoMsg x t] w)" by (simp add: abind_Ret)
    moreover have "\<exists>w'. loop_act (frame_round (BufProtocol I S) t) (b', c) (push_all (conn_tx c) [ProtoMsg x t] w) = Some (Blocked, w') \<and>
        length (ch_buf (chans w' (conn_tx c))) = k"
      by (rule Suc.hyps(1)) (use Suc.hyps(2) Suc.prems in \<open>auto simp: push_all_def\<close>)
    ultimately show ?case by (simp add: loop_act_again)
  qed
  with True show ?thesis by simp
next
  case False
  have "loop_act (frame_round (BufProtocol I S) t) (abuf, c) w = None"
  proof (rule loop_act_never [where I = "\<lambda>s w. snd s = c \<and> \<not> ch_receiver (chans w (conn_tx c))"], goal_cases)
    case (1 s w)
    obtain x b' where "frame_round (BufProtocol I S) t (fst s, c) w = abind (SyncSender_send (conn_tx c) (ProtoMsg x t)) (\<lambda>_. ret (True, (b', c))) w"
      using empty_block_round [OF assms(1,2)] by blast
    with 1 show ?case by (cases s) (auto simp: SyncSender_send_def abind_Ret)
  qed (use False in simp)
  with False show ?thesis by simp
qed

theorem empty_blocks_never_end_witness:
  "loop_act (frame_round (BufProtocol sample_iobuf (protocol_size 0)) (Token 0)) ([], sample_conn)
     (drop_receiver 0 (sample_start :: u8 list ProtoMsg sample_world)) = None"
  using empty_blocks_never_end [of sample_iobuf "protocol_size 0" "drop_receiver 0 (sample_start :: u8 list ProtoMsg sample_world)" sample_conn 4 "Token 0" "[]"]
  by (simp add: protocol_size_def sample_conn_def sample_start_def drop_receiver_def sync_queue_def)

section \<open>Numbers on the wire\<close>

text \<open>\<^verbatim>\<open>to_bytes\<close> of the test: the eight bytes of a number as they lie in memory, least significant first.\<close>

definition to_bytes :: "u64 \<Rightarrow> u8 list" where
  "to_bytes v = map (\<lambda>i. of_nat (unat v div 256 ^ i)) [0..<8]"

definition le_nat :: "u8 list \<Rightarrow> nat" where
  "le_nat bs = foldr (\<lambda>b acc. unat b + 256 * acc) bs 0"

lemma le_u64_nat: "le_u64 bs = of_nat (le_nat (take 8 bs))"
proof -
  have "foldr (\<lambda>b acc. ucast b + 256 * acc) xs (0 :: u64) = of_nat (le_nat xs)" for xs :: "u8 list"
  proof (induction xs)
    case (Cons b xs)
    have "(ucast b :: u64) = of_nat (unat b)" by (simp add: unsigned_of_nat)
    with Cons show ?case by (simp add: le_nat_def)
  qed (simp add: le_nat_def)
  then show ?thesis by (simp add: le_u64_def)
qed

lemma le_nat_digits: "le_nat (map (\<lambda>i. of_nat (n div 256 ^ i)) [0..<k]) = n mod 256 ^ k"
proof (induction k arbitrary: n)
  case 0
  then show ?case by (simp add: le_nat_def)
next
  case (Suc k)
  have "map (\<lambda>i. of_nat (n div 256 ^ i) :: u8) [0..<Suc k] = of_nat n # map (\<lambda>i. of_nat (n div 256 div 256 ^ i)) [0..<k]"
  proof -
    have "[0..<Suc k] = 0 # map Suc [0..<k]" by (simp add: upt_conv_Cons map_Suc_upt del: upt_Suc)
    then show ?thesis by (simp add: div_mult2_eq del: upt_Suc)
  qed
  then have "le_nat (map (\<lambda>i. of_nat (n div 256 ^ i)) [0..<Suc k]) = n mod 256 + 256 * (n div 256 mod 256 ^ k)"
    using Suc.IH [of "n div 256"] by (simp add: le_nat_def unat_of_nat take_bit_eq_mod del: upt_Suc)
  also have "\<dots> = n mod 256 ^ Suc k" by (simp add: mod_mult2_eq)
  finally show ?case .
qed

lemma le_u64_to_bytes: "le_u64 (to_bytes v) = v"
proof -
  have "le_u64 (to_bytes v) = of_nat (unat v mod 256 ^ 8)"
    using le_nat_digits [of "unat v" 8] by (simp add: le_u64_nat to_bytes_def)
  also have "unat v mod 256 ^ 8 = unat v" using unat_less64 [of v] by simp
  finally show ?thesis by simp
qed

lemma proto_msgs: "map pm_item ms = vs \<Longrightarrow> \<forall>m\<in>set ms. pm_tok m = t \<Longrightarrow> ms = map (\<lambda>v. ProtoMsg v t) vs"
  by (induction ms arbitrary: vs) (auto intro: ProtoMsg.expand)

lemma u64_parse_all:
  assumes "length rest < 8"
  shows "parse_all (fixed_parse 8 le_u64) (concat (map to_bytes vs) @ rest) = (vs, rest)"
proof -
  have "\<forall>b\<in>set (map to_bytes vs). length b = 8" by (simp add: to_bytes_def)
  from parse_all_blocks [of 8 "map to_bytes vs" rest le_u64, OF _ this assms] show ?thesis by (simp add: comp_def le_u64_to_bytes)
qed

lemma u64_frames:
  assumes "iobuf_ok I" "iobuf_window I abuf = concat (map to_bytes vs) @ rest" "length rest < 8"
    and "has_room (chans w (conn_tx c)) (length vs)"
  shows "\<exists>abuf'. loop_act (frame_round (U64Protocol I) t) (abuf, c) w =
      Some (Ret (abuf', c\<lparr>marker := marker c + of_nat (8 * length vs)\<rparr>), push_all (conn_tx c) (map (\<lambda>v. ProtoMsg v t) vs) w) \<and>
    iobuf_window I abuf' = rest"
proof -
  have all: "parse_all (fixed_parse 8 le_u64) (iobuf_window I abuf) = (vs, rest)" using assms(2,3) by (simp add: u64_parse_all)
  have len: "length (concat (map to_bytes vs)) = 8 * length vs" by (induction vs) (simp_all add: to_bytes_def)
  from u64_stream.frame_loop [of I w c abuf t] assms(1,4) all obtain ms abuf' where
    loop: "loop_act (frame_round (U64Protocol I) t) (abuf, c) w =
      Some (Ret (abuf', c\<lparr>marker := marker c + of_nat (length (iobuf_window I abuf) - length (iobuf_window I abuf'))\<rparr>), push_all (conn_tx c) ms w)"
    and ms: "map pm_item ms = vs" "\<forall>m\<in>set ms. pm_tok m = t" and rest: "iobuf_window I abuf' = rest" by auto
  from proto_msgs [OF ms] loop rest assms(2) len show ?thesis by auto
qed

text \<open>Numbers survive the wire: when the bytes of a list of numbers have arrived, \<^verbatim>\<open>to_bytes\<close> for each and perhaps
  a beginning of the next one, the reactor with the protocol of the test sends on exactly those numbers.\<close>

theorem u64_numbers_survive_the_wire:
  assumes "iobuf_ok I" "iobuf_window I abuf = concat (map to_bytes vs) @ rest" "length rest < 8"
    and "has_room (chans w (conn_tx c)) (length vs)"
  shows "\<exists>abuf' c'. loop_act (frame_round (U64Protocol I) t) (abuf, c) w =
      Some (Ret (abuf', c'), push_all (conn_tx c) (map (\<lambda>v. ProtoMsg v t) vs) w) \<and> iobuf_window I abuf' = rest"
  using u64_frames [OF assms, of t] by blast

theorem u64_numbers_survive_the_wire_witness:
  "\<exists>abuf' c'. loop_act (frame_round (U64Protocol sample_iobuf) (Token 0)) (to_bytes 5 @ to_bytes 600 @ [1], sample_conn) sample_start =
      Some (Ret (abuf', c'), push_all 0 [ProtoMsg 5 (Token 0), ProtoMsg 600 (Token 0)] sample_start)"
  using u64_numbers_survive_the_wire [of sample_iobuf "to_bytes 5 @ to_bytes 600 @ [1]" "[5, 600]" "[1]" sample_start sample_conn "Token 0"]
  by (auto simp: to_bytes_def sample_conn_def sample_start_def has_room_def sync_queue_def)

end
