(* ===== verification/Rx_Backpressure.thy ===== *)
theory Rx_Backpressure
  imports Rx_Reactor_Read Rx_Queue_Threads
begin

text \<open>
  The event loop and a reader of one of its queues as two threads: the loop of \<^verbatim>\<open>readable\<close> that cuts the bytes
  just read into messages (\<^verbatim>\<open>src/reactor.rs\<close>) sends them down a bounded queue and waits when it is full, while
  a chain \<^verbatim>\<open>Coupler\<close>, \<^verbatim>\<open>Map\<close>, \<^verbatim>\<open>Collect\<close> takes them out.
\<close>

section \<open>The two loops\<close>

text \<open>Whatever the protocol, the loop of the handler is a \<open>producer\<close> of the items of the bytes that are left.\<close>

sublocale stream_framing \<subseteq> frames: producer "frame_round P t" q
  "\<lambda>(abuf, c) ks. fits abuf \<and> conn_tx c = q \<and> fst (parse_all parse (window abuf)) = ks" "\<lambda>m. item (pm_item m)" for t q
proof (unfold_locales, goal_cases)
  case (1 s k ks w)
  obtain abuf c where s: "s = (abuf, c)" by (cases s)
  with 1 have f: "fits abuf" "conn_tx c = q" "fst (parse_all parse (window abuf)) = k # ks" by simp_all
  then obtain i n where pr: "parse (window abuf) = Some (i, n)"
    by (cases "parse (window abuf)") (auto simp: parse_all_short)
  from parse_consumes [OF f(1) pr] have n: "0 < n" "n \<le> length (window abuf)" by auto
  from append_item [OF f(1) pr, of "proto c" w] obtain x b' where
    ap: "append_buf P (proto c) abuf w = (Ret (Some (x, b', of_nat n), proto c), w)" "item x = i"
    and b': "window b' = drop n (window abuf)" "fits b'" by blast
  have ks: "k = i" "fst (parse_all parse (window b')) = ks"
    using parse_all_item [of parse "window abuf" i n] pr n b'(1) f(3) by auto
  show ?case
  proof (cases "has_room (chans w q) 1")
    case True
    then have "SyncSender_send q (ProtoMsg x t) w = (Ret (Inr ()), push_all q [ProtoMsg x t] w)"
      by (intro SyncSender_send_room [of _ _ 0]) simp
    with ap f(2) have "frame_round P t s w = (Ret (True, (b', c\<lparr>marker := marker c + of_nat n\<rparr>)), push_all q [ProtoMsg x t] w)"
      by (simp add: s frame_round_def abind_Ret)
    with ap(2) b'(2) f(2) ks show ?thesis by (intro disjI1 exI conjI) auto
  next
    case False
    with 1(2) have "SyncSender_send q (ProtoMsg x t) w = (Blocked, w)"
      by (auto simp: has_room_def SyncSender_send_def split: option.split)
    with ap f(2) have "frame_round P t s w = (Blocked, w)" by (simp add: s frame_round_def abind_def)
    with False show ?thesis by blast
  qed
next
  case (2 s w)
  obtain abuf c where s: "s = (abuf, c)" by (cases s)
  with 2 have f: "fits abuf" "fst (parse_all parse (window abuf)) = []" by simp_all
  then have "parse (window abuf) = None"
    using parse_consumes [OF f(1)] parse_all_item [of parse "window abuf"] by (cases "parse (window abuf)") fastforce+
  from append_short [OF f(1) this, of "proto c" w] show ?case by (auto simp: s frame_round_def abind_Ret)
qed

text \<open>The chain is a \<open>consumer\<close> that puts the images of the messages at the end of its vector.\<close>

interpretation reader: coupled "Map_Subscriber Collect_Subscriber"
  "\<lambda>m w. Map_fun m = (\<lambda>x. ret (f x)) \<and> (\<exists>c. Map_subscriber m = Some c \<and> True)"
  "\<lambda>m w. ((), Collect_val (the (Map_subscriber m)))"
  "lift_next (\<lambda>k x. (f x, k)) (sink_next (\<lambda>x. x))" "lift_keep ignore" "lift_keep ignore" q "\<lambda>a x. ((), snd a @ [f x])" for f q
proof (intro coupled.intro coupled_axioms.intro)
  show "Subscriber_refines (Map_Subscriber Collect_Subscriber)
    (\<lambda>m w. Map_fun m = (\<lambda>x. ret (f x)) \<and> (\<exists>c. Map_subscriber m = Some c \<and> True))
    (\<lambda>m w. ((), Collect_val (the (Map_subscriber m))))
    (lift_next (\<lambda>k x. (f x, k)) (sink_next (\<lambda>x. x))) (lift_keep ignore) (lift_keep ignore)"
    by (rule map_collect_refines)
  show "aloof q (Map_Subscriber Collect_Subscriber)
    (\<lambda>m w. Map_fun m = (\<lambda>x. ret (f x)) \<and> (\<exists>c. Map_subscriber m = Some c \<and> True))
    (\<lambda>m w. ((), Collect_val (the (Map_subscriber m))))"
    by (rule map_collect_aloof)
qed (auto simp: lift_next_def lift_eff_def sink_next_def trait_defs)

interpretation u64_reader: queue_threads "frame_round (U64Protocol I) t" q
  "\<lambda>(abuf, c) ks. iobuf_ok I \<and> conn_tx c = q \<and> fst (parse_all (fixed_parse 8 le_u64) (iobuf_window I abuf)) = ks" pm_item
  "Coupler_next (Map_Subscriber Collect_Subscriber)"
  "\<lambda>p w. Coupler_data_rx p = q \<and> (\<exists>m. Coupler_subscriber p = Some m \<and> (Map_fun m = (\<lambda>x. ret (pm_item x)) \<and> (\<exists>c. Map_subscriber m = Some c \<and> True)))"
  "\<lambda>p w. ((), Collect_val (the (Map_subscriber (the (Coupler_subscriber p)))))" "\<lambda>a x. ((), snd a @ [pm_item x])" "\<lambda>a. lift_keep ignore a False"
  for I t q
  by (rule queue_threads.intro [OF u64_stream.frames.producer_axioms reader.consumer_axioms])

section \<open>A slow reader\<close>

text \<open>The handler at the head of its loop, and the chain before its first item.\<close>

definition reader_start ::
  "'b \<times> ('s, unit, 'a, 'b) Connection \<Rightarrow> (u64 ProtoMsg, 'z) world_scheme
   \<Rightarrow> ('b \<times> ('s, unit, 'a, 'b) Connection, ((u64 ProtoMsg, 'z) world_scheme, u64 ProtoMsg, u64, u64 Collect) Map_Proc Coupler,
        (u64 ProtoMsg, 'z) world_scheme) threads" where
  "reader_start s w = \<lparr>th_gen = Some s, th_out = Some \<lparr>Coupler_data_rx = conn_tx (snd s),
       Coupler_subscriber = Some ((Map_new (\<lambda>x. ret (pm_item x)))\<lparr>Map_subscriber := Some (Collect_new [])\<rparr>)\<rparr>, th_end = None, th_world = w\<rparr>"

abbreviation reader_at where
  "reader_at I q \<equiv> threads_at
     (\<lambda>(abuf, c) ks. iobuf_ok I \<and> conn_tx c = q \<and> fst (parse_all (fixed_parse 8 le_u64) (iobuf_window I abuf)) = ks) pm_item
     (\<lambda>p w. Coupler_data_rx p = q \<and> (\<exists>m. Coupler_subscriber p = Some m \<and> (Map_fun m = (\<lambda>x. ret (pm_item x)) \<and> (\<exists>c. Map_subscriber m = Some c \<and> True))))
     (\<lambda>p w. ((), Collect_val (the (Map_subscriber (the (Coupler_subscriber p)))))) (\<lambda>a x. ((), snd a @ [pm_item x])) (\<lambda>a. lift_keep ignore a False) q"

lemma reader_start_at:
  assumes "iobuf_ok I" "iobuf_window I abuf = concat (map to_bytes vs) @ rest" "length rest < 8"
    and "ch_senders (chans w (conn_tx c)) = 1" "ch_receiver (chans w (conn_tx c))" "ch_bound (chans w (conn_tx c)) \<noteq> Some 0"
  shows "reader_at I (conn_tx c) (map pm_item (ch_buf (chans w (conn_tx c))) @ vs) ((), []) vs [] (reader_start (abuf, c) w) \<and>
    rounds_left (conn_tx c) vs (reader_start (abuf, c) w) = 2 * length vs + length (ch_buf (chans w (conn_tx c))) + 2"
  using assms by (simp add: threads_at_def rounds_left_def reader_start_def Map_new_def Collect_new_def u64_parse_all)

lemma foldl_collect: "foldl (\<lambda>a x. ((), snd a @ [f x])) ((), v) ms = ((), v @ map f ms)"
  by (induction ms arbitrary: v) simp_all

text \<open>C2. A slow reader delays the event loop but loses nothing: however small the queue of a connection is, the loop of
  the handler that fills it and the chain \<^verbatim>\<open>Coupler\<close>, \<^verbatim>\<open>Map\<close>, \<^verbatim>\<open>Collect\<close> that empties it never wait for each other at the
  same time. When the connection goes with these bytes, every schedule of the two threads ends after the
  same number of rounds, and then the vector holds what was in the queue followed by all the numbers, in order.\<close>

theorem slow_reader_gets_everything:
  assumes "iobuf_ok I" "iobuf_window I abuf = concat (map to_bytes vs) @ rest" "length rest < 8"
    and "ch_senders (chans w (conn_tx c)) = 1" "ch_receiver (chans w (conn_tx c))" "ch_bound (chans w (conn_tx c)) \<noteq> Some 0"
    and "thread_steps (frame_round (U64Protocol I) t) (Coupler_next (Map_Subscriber Collect_Subscriber)) (conn_tx c) (reader_start (abuf, c) w) n y"
  shows "if n < 2 * length vs + length (ch_buf (chans w (conn_tx c))) + 2
    then \<exists>z. thread_step (frame_round (U64Protocol I) t) (Coupler_next (Map_Subscriber Collect_Subscriber)) (conn_tx c) y z
    else n = 2 * length vs + length (ch_buf (chans w (conn_tx c))) + 2 \<and> th_gen y = None \<and> th_out y = None \<and>
      (\<exists>p. th_end y = Some p \<and>
        Collect_val (the (Map_subscriber (the (Coupler_subscriber p)))) = map pm_item (ch_buf (chans w (conn_tx c))) @ vs)"
  using u64_reader.schedules_end [OF conjunct1 [OF reader_start_at [OF assms(1-6)]] assms(7)] reader_start_at [OF assms(1-6)]
  by (auto simp: foldl_collect lift_keep_def split: if_splits)

definition narrow_world :: "u64 ProtoMsg sample_world" where
  "narrow_world = sample_start\<lparr>chans := (\<lambda>_. sync_queue 1)\<rparr>"

theorem slow_reader_gets_everything_witness:
  "\<exists>y p. thread_steps (frame_round (U64Protocol sample_iobuf) (Token 0)) (Coupler_next (Map_Subscriber Collect_Subscriber)) 0
      (reader_start (to_bytes 7 @ to_bytes 8 @ to_bytes 9, sample_conn) narrow_world) 8 y \<and>
    th_end y = Some p \<and> Collect_val (the (Map_subscriber (the (Coupler_subscriber p)))) = [7, 8, 9]"
proof -
  have win: "iobuf_window sample_iobuf (to_bytes 7 @ to_bytes 8 @ to_bytes 9) = concat (map to_bytes [7, 8, 9]) @ []"
    by (simp add: to_bytes_def)
  have q: "conn_tx sample_conn = 0" by (simp add: sample_conn_def)
  have ch: "ch_senders (chans narrow_world (conn_tx sample_conn)) = 1" "ch_receiver (chans narrow_world (conn_tx sample_conn))"
    "ch_bound (chans narrow_world (conn_tx sample_conn)) \<noteq> Some 0" "ch_buf (chans narrow_world (conn_tx sample_conn)) = []"
    by (simp_all add: narrow_world_def sync_queue_def)
  note start = reader_start_at [OF sample_iobuf_ok win _ ch(1-3)]
  from u64_reader.schedule_exists [OF conjunct1 [OF start], of 8] start ch(4) obtain y where
    y: "thread_steps (frame_round (U64Protocol sample_iobuf) (Token 0)) (Coupler_next (Map_Subscriber Collect_Subscriber)) (conn_tx sample_conn)
      (reader_start (to_bytes 7 @ to_bytes 8 @ to_bytes 9, sample_conn) narrow_world) 8 y" by auto
  from slow_reader_gets_everything [OF sample_iobuf_ok win _ ch(1-3) y] y ch(4) q show ?thesis by auto
qed

end
