(* ===== verification/Rx_Oneway.thy ===== *)
theory Rx_Oneway
  imports Rx_Reactor_Read Rx_Engine_Queues
begin

text \<open>
  The sending half of \<^verbatim>\<open>oneway_test\<close> in \<^verbatim>\<open>src/net_stream.rs\<close>: the set-up of the engine, the conversion of
  numbers to buffers and back, and the chain \<^verbatim>\<open>Repeat\<close>, \<^verbatim>\<open>Map\<close>, \<^verbatim>\<open>Map\<close>, \<^verbatim>\<open>DoDebug\<close>, \<^verbatim>\<open>Decoupler\<close> that sends to the event loop;
  and the way of what it sends onto the wire.
\<close>

section \<open>Numbers as buffers\<close>

text \<open>
  \<^verbatim>\<open>RWIobuf::from_slice_copy(..).atomic_read_only()\<close> makes a buffer from a copy of some bytes, the parameter
  \<open>copy_of\<close>. Reading a number back takes the first eight bytes of the window.
\<close>

definition isize_to_strbuf :: "(u8 list \<Rightarrow> unit + 'b) \<Rightarrow> u64 \<Rightarrow> ('w, 'b StreamBuf) act" where
  "isize_to_strbuf copy_of t = abind (unwrap_unit (copy_of (to_bytes t))) (\<lambda>b. ret (StreamBuf b (Token 0)))"

definition strbuf_to_isize :: "'b iobuf \<Rightarrow> 'b StreamBuf \<Rightarrow> u64" where
  "strbuf_to_isize I buf = le_u64 (iobuf_window I (sb_buf buf))"

definition copies :: "'b iobuf \<Rightarrow> (u8 list \<Rightarrow> unit + 'b) \<Rightarrow> bool" where
  "copies I copy_of \<longleftrightarrow> (\<forall>bs. length bs < 2 ^ 32 \<longrightarrow> (\<exists>b. copy_of bs = Inr b \<and> iobuf_window I b = bs))"

lemma length_to_bytes [simp]: "length (to_bytes v) = 8"
  by (simp add: to_bytes_def)

lemma copies_to_bytes:
  assumes "copies I copy_of"
  obtains b where "copy_of (to_bytes v) = Inr b" "iobuf_window I b = to_bytes v"
proof -
  have "length (to_bytes v) < 2 ^ 32" by simp
  with assms have "\<exists>b. copy_of (to_bytes v) = Inr b \<and> iobuf_window I b = to_bytes v" unfolding copies_def by blast
  with that show ?thesis by blast
qed

lemma isize_to_strbuf_copy: "copy_of (to_bytes v) = Inr b \<Longrightarrow> isize_to_strbuf copy_of v = ret (StreamBuf b (Token 0))"
  by (simp add: isize_to_strbuf_def unwrap_unit_def)

text \<open>A number comes back from its buffer.\<close>

lemma strbuf_to_isize_inverse:
  assumes "copies I copy_of"
  shows "\<exists>s. isize_to_strbuf copy_of v = ret s \<and> strbuf_to_isize I s = v"
proof -
  obtain b where b: "copy_of (to_bytes v) = Inr b" "iobuf_window I b = to_bytes v" by (rule copies_to_bytes [OF assms])
  show ?thesis by (rule exI [of _ "StreamBuf b (Token 0)"]) (simp add: isize_to_strbuf_copy [of copy_of v b] b(1) strbuf_to_isize_def b(2) le_u64_to_bytes)
qed

section \<open>The test\<close>

definition unwrap_net :: "net_error + 'a \<Rightarrow> ('w, 'a) act" where
  "unwrap_net r = (case r of Inl e \<Rightarrow> panic ''called Result::unwrap() on an Err value'' | Inr a \<Rightarrow> ret a)"

text \<open>An engine with one listener, one connection to it, and a timeout whose callback shuts the loop down.\<close>

definition oneway_setup where
  "oneway_setup E el_configured callback =
     abind (NetEngine_new E el_configured) (\<lambda>ne.
     abind (NetEngine_listen E ne ''127.0.0.1'' 10000) (\<lambda>(r, ne). abind (unwrap_net r) (\<lambda>srv_rx.
     abind (NetEngine_connect E ne ''127.0.0.1'' 10000) (\<lambda>(r, ne). abind (unwrap_net r) (\<lambda>cl.
     abind (NetEngine_timeout E ne 500 callback) (\<lambda>ne. ret (ne, srv_rx, cl)))))))"

text \<open>\<open>dbg\<close> is the \<^verbatim>\<open>Show\<close> implementation of \<^verbatim>\<open>StreamBuf\<close>, \<open>el_send\<close> the send of the event loop's channel.\<close>

definition oneway_chain where
  "oneway_chain copy_of dbg el_send tx t =
     (let SEN = Decoupler_Subscriber (EventLoopSender_Sendable el_send); TRC = DoDebug_Subscriber dbg SEN;
          MAP2 = Map_Subscriber TRC; MAP1 = Map_Subscriber MAP2 in
      abind (DoDebug_subscribe SEN DoDebug_new (Decoupler_new tx)) (\<lambda>trc.
      abind (Map_subscribe TRC (Map_new (\<lambda>s. case s of StreamBuf buf _ \<Rightarrow> ret (StreamBuf buf t))) trc) (\<lambda>map2.
      abind (Map_subscribe MAP2 (Map_new (isize_to_strbuf copy_of)) map2) (\<lambda>map1.
      Repeat_subscribe MAP1 (Repeat_new 5) map1))))"

definition oneway_send where
  "oneway_send copy_of dbg el_send tx t =
     (let MAP1 = Map_Subscriber (Map_Subscriber (DoDebug_Subscriber dbg (Decoupler_Subscriber (EventLoopSender_Sendable el_send)))) in
      pbind (once (oneway_chain copy_of dbg el_send tx t)) (\<lambda>rep.
      for_range 0 5 (\<lambda>i rep. once (abind (Repeat_next MAP1 rep) (\<lambda>(_, rep). ret rep))) rep))"

text \<open>The thread of the test: it sends, and then collects what the server has received.\<close>

definition oneway_thread where
  "oneway_thread copy_of dbg el_send cl srv_rx =
     pbind (oneway_send copy_of dbg el_send (dtx cl) (tok cl)) (\<lambda>_. oneway_collect srv_rx)"

section \<open>What the chain sends\<close>

text \<open>
  The channel of the event loop takes every message; \<open>log\<close> is what it has been given so far, and lines on
  the standard output are no messages.
\<close>

definition channel_ok ::
  "('q \<Rightarrow> 'b StreamBuf \<Rightarrow> (('m, 'z) world_scheme, 'b StreamBuf + unit) act) \<Rightarrow> (('m, 'z) world_scheme \<Rightarrow> ('q \<times> 'b StreamBuf) list) \<Rightarrow> bool" where
  "channel_ok el_send log \<longleftrightarrow>
     (\<forall>q m w. \<exists>w'. el_send q m w = (Ret (Inr ()), w') \<and> log w' = log w @ [(q, m)]) \<and> (\<forall>w x. log (w\<lparr>stdout := x\<rparr>) = log w)"

lemma oneway_send_sends:
  assumes ch: "channel_ok el_send log" and b: "copy_of (to_bytes 5) = Inr b"
  shows "\<exists>rep w'. oneway_send copy_of dbg el_send tx t w = Some (Ret rep, w') \<and> log w' = log w @ replicate 5 (tx, StreamBuf b t)"
proof -
  let ?M1 = "Map_Subscriber (Map_Subscriber (DoDebug_Subscriber dbg (Decoupler_Subscriber (EventLoopSender_Sendable el_send))))"
  let ?body = "\<lambda>i rep. once (abind (Repeat_next ?M1 rep) (\<lambda>(_, rep). ret rep))"
  obtain rep where chain: "oneway_chain copy_of dbg el_send tx t w = (Ret rep, w)"
    and rep: "rep = \<lparr>Repeat_val = 5, Repeat_subscriber = Some ((Map_new (isize_to_strbuf copy_of))
      \<lparr>Map_subscriber := Some ((Map_new (\<lambda>s. case s of StreamBuf buf _ \<Rightarrow> ret (StreamBuf buf t)))
        \<lparr>Map_subscriber := Some \<lparr>DoDebug_subscriber = Some (Decoupler_new tx), DoDebug_index = Some 0\<rparr>, Map_index := Some 0\<rparr>),
       Map_index := Some 0\<rparr>)\<rparr>"
    by (simp add: oneway_chain_def Let_def trait_defs processor_news Repeat_new_def Repeat_subscribe_def)
  let ?I = "\<lambda>i rep' w'. rep' = rep \<and> log w' = log w @ replicate i (tx, StreamBuf b t)"
  have "\<exists>rep' w'. for_range 0 5 ?body rep w = Some (Ret rep', w') \<and> ?I (0 + 5) rep' w'"
  proof (rule for_range_invariant)
    fix j rep' w1 assume I: "?I j rep' w1"
    let ?s = "StreamBuf b t" and ?w = "w1\<lparr>stdout := stdout w1 @ [dbg (StreamBuf b t)]\<rparr>"
    from ch obtain w2 where w2: "el_send tx ?s ?w = (Ret (Inr ()), w2)" "log w2 = log w1 @ [(tx, ?s)]"
      unfolding channel_ok_def by metis
    have "Repeat_next ?M1 rep' w1 = (Ret (True, rep), w2)"
      using I b w2(1) by (simp add: rep Decoupler_new_def Repeat_next_def trait_defs processor_news println_def abind_def isize_to_strbuf_def unwrap_unit_def)
    then show "\<exists>s' w'. ?body j rep' w1 = Some (Ret s', w') \<and> ?I (Suc j) s' w'"
      using I w2(2) by (simp add: abind_Ret replicate_append_same)
  qed simp
  then show ?thesis using chain by (auto simp: oneway_send_def pbind_def Let_def)
qed

section \<open>From the channel to the wire\<close>

text \<open>The event loop hands the messages of its channel to \<^verbatim>\<open>notify\<close>, in order.\<close>

primrec notify_all where
  "notify_all E [] self = once (ret self)"
| "notify_all E (m # ms) self = pbind (handle_notify E self m) (notify_all E ms)"

lemma notify_all_appends:
  assumes ok: "iobuf_ok (e_iobuf E)" "writes_ok (e_iobuf E) (e_mio E) wire" "slab_ok (e_conns E)" "reregisters_ok (e_mio E) wire"
  shows "conn_at E self t = Some c \<Longrightarrow> \<forall>m\<in>set ms. sb_tok m = t \<Longrightarrow>
    \<exists>self' c' w'. notify_all E ms self w = Some (Ret self', w') \<and> conn_at E self' t = Some c' \<and> conn_sock c' = conn_sock c \<and>
      wire (conn_sock c) w' @ pending_bytes (e_iobuf E) c' =
        wire (conn_sock c) w @ pending_bytes (e_iobuf E) c @ concat (map (window_of (e_iobuf E)) ms)"
proof (induction ms arbitrary: self c w)
  case (Cons m ms)
  let ?c = "c\<lparr>outbuf := outbuf c @ [m]\<rparr>"
  have m: "sb_tok m = t" using Cons.prems by simp
  obtain self1 c1 w1 where fl: "flush_connection E self t ?c w = Some (Ret self1, w1)"
    "slab_get (e_conns E) (conns self1) = (slab_get (e_conns E) (conns self))(t \<mapsto> c1)"
    "wire (conn_sock c) w1 @ pending_bytes (e_iobuf E) c1 = wire (conn_sock c) w @ pending_bytes (e_iobuf E) ?c" "conn_sock c1 = conn_sock c"
    by (rule flush_connection_returns [OF ok Cons.prems(1), of ?c w]) auto
  have n: "handle_notify E self m w = Some (Ret self1, w1)" using fl(1) Cons.prems(1) m by (simp add: handle_notify_def)
  from Cons.IH [of self1 c1 w1] fl(2) Cons.prems(2) obtain self' c' w' where
    "notify_all E ms self1 w1 = Some (Ret self', w')" "conn_at E self' t = Some c'" "conn_sock c' = conn_sock c1"
    "wire (conn_sock c1) w' @ pending_bytes (e_iobuf E) c' =
       wire (conn_sock c1) w1 @ pending_bytes (e_iobuf E) c1 @ concat (map (window_of (e_iobuf E)) ms)" by auto
  then show ?case using n fl by (auto simp: pbind_Ret pending_bytes_def simp flip: append_assoc)
qed simp

text \<open>C17. The sending half of \<^verbatim>\<open>oneway_test\<close>, from the chain to the wire: the five calls of \<^verbatim>\<open>next\<close> send five messages to
  the event loop, all addressed to the connection; when the loop hands them to the engine, what has been
  written to the connection's socket followed by what waits to be written has grown by the bytes of
  the number 5, five times, with nothing in between.\<close>

theorem oneway_bytes_leave:
  assumes "channel_ok el_send log" "copies (e_iobuf E) copy_of" "env_ok E wire" "conn_at E self t = Some c"
  shows "\<exists>ms rep w1 self' c' w'. oneway_send copy_of dbg el_send tx t w0 = Some (Ret rep, w1) \<and> log w1 = log w0 @ map (Pair tx) ms \<and>
    notify_all E ms self w = Some (Ret self', w') \<and> conn_at E self' t = Some c' \<and>
    wire (conn_sock c) w' @ pending_bytes (e_iobuf E) c' =
      wire (conn_sock c) w @ pending_bytes (e_iobuf E) c @ concat (map to_bytes [5, 5, 5, 5, 5])"
proof -
  obtain b where b: "copy_of (to_bytes 5) = Inr b" "iobuf_window (e_iobuf E) b = to_bytes 5" by (rule copies_to_bytes [OF assms(2)])
  let ?ms = "replicate 5 (StreamBuf b t)"
  obtain rep w1 where s: "oneway_send copy_of dbg el_send tx t w0 = Some (Ret rep, w1)" "log w1 = log w0 @ map (Pair tx) ?ms"
    using oneway_send_sends [OF assms(1), of copy_of b dbg tx t w0] b(1) by auto
  have "\<forall>m\<in>set ?ms. sb_tok m = t" by simp
  moreover have "concat (map (window_of (e_iobuf E)) ?ms) = concat (map to_bytes [5, 5, 5, 5, 5])"
    by (simp add: b(2) numeral_eq_Suc)
  ultimately obtain self' c' w' where "notify_all E ?ms self w = Some (Ret self', w')" "conn_at E self' t = Some c'"
    "wire (conn_sock c) w' @ pending_bytes (e_iobuf E) c' =
      wire (conn_sock c) w @ pending_bytes (e_iobuf E) c @ concat (map to_bytes [5, 5, 5, 5, 5])"
    using notify_all_appends [of E wire self t c ?ms w] assms(3,4) by (auto simp: env_ok_def)
  with s show ?thesis by blast
qed

record 'm logged_world = "'m world" +
  el_log :: "(unit \<times> u8 list StreamBuf) list"

definition sample_el_send :: "unit \<Rightarrow> u8 list StreamBuf \<Rightarrow> ('m logged_world, u8 list StreamBuf + unit) act" where
  "sample_el_send q m = (\<lambda>w. (Ret (Inr ()), w\<lparr>el_log := el_log w @ [(q, m)]\<rparr>))"

lemma sample_channel_ok: "channel_ok sample_el_send el_log"
  by (simp add: channel_ok_def sample_el_send_def)

definition sample_logged :: "unit logged_world" where
  "sample_logged = \<lparr>stdout = [], chans = (\<lambda>_. sync_queue 1), el_log = []\<rparr>"

theorem oneway_bytes_leave_witness:
  "\<exists>ms rep w1 self' c' w'. oneway_send Inr (\<lambda>_. ''buf'') sample_el_send () (Token 0) sample_logged = Some (Ret rep, w1) \<and>
    el_log w1 = map (Pair ()) ms \<and>
    notify_all (sample_env (U64Protocol sample_iobuf)) ms sample_engine (sample_start :: u64 ProtoMsg sample_world) = Some (Ret self', w') \<and>
    map_of (conns self') (Token 0) = Some c' \<and> sent w' @ pending_bytes sample_iobuf c' = [1, 2, 3, 4, 5, 6] @ concat (map to_bytes [5, 5, 5, 5, 5])"
  (is "\<exists>ms rep w1 self' c' w'. _ \<and> _ \<and> notify_all ?E ms ?self ?w = _ \<and> _")
proof -
  have c: "conn_at ?E ?self (Token 0) = Some sample_conn" by simp
  have cp: "copies (e_iobuf ?E) Inr" by (simp add: copies_def)
  have "el_log sample_logged = []" by (simp add: sample_logged_def)
  with oneway_bytes_leave [OF sample_channel_ok cp sample_env_ok c, of "\<lambda>_. ''buf''" "()" sample_logged ?w]
  show ?thesis by (simp del: concat.simps list.map)
qed

end
