(* ===== verification/Rx_Read_Stream.thy ===== *)
theory Rx_Read_Stream
  imports Rx_Reactor_Read
begin

text \<open>
  What a connection has read (\<^verbatim>\<open>src/reactor.rs\<close>), over all outcomes of a read: the bytes taken off the socket are the
  bytes of the messages sent on, followed by those that lie in the buffer behind the marker.
\<close>

section \<open>Buffers and reads\<close>

text \<open>
  \<open>filled b\<close> is what has been written to an append buffer since its beginning. A slice holds the bytes from the
  position that was asked for, as many as were asked for; a new buffer is empty and takes the bytes it is filled
  with. \<open>inflow s w\<close> is what has been taken off a socket so far, and a read puts exactly the new
  bytes at the end of the buffer, and touches no queue.
\<close>

definition slices_exact :: "('a, 'al, 'b) appendbuf \<Rightarrow> 'b iobuf \<Rightarrow> ('a \<Rightarrow> u8 list) \<Rightarrow> bool" where
  "slices_exact A I filled \<longleftrightarrow> (\<forall>b. length (filled b) < 2 ^ 32) \<and>
     (\<forall>b pos n. unat pos + unat n \<le> length (filled b) \<longrightarrow>
        (\<exists>s. ab_atomic_slice_pos_from_begin A b pos n = Inr s \<and> iobuf_window I s = take (unat n) (drop (unat pos) (filled b))))"

definition fills_ok :: "('a, 'al, 'b) appendbuf \<Rightarrow> ('a \<Rightarrow> u8 list) \<Rightarrow> bool" where
  "fills_ok A filled \<longleftrightarrow> (\<forall>sz al. filled (rb_buf (new_buf A sz al)) = []) \<and>
     (\<forall>b bs. filled b = [] \<longrightarrow> length bs < 2 ^ 32 \<longrightarrow> filled (ab_fill A b bs) = bs)"

definition reads_ok ::
  "('a, 'al, 'b) appendbuf \<Rightarrow> (('m, 'z) net_world_scheme, 's, 'l, 'c, 'a, 'b, 'ip, 'h, 'q) mio \<Rightarrow> ('a \<Rightarrow> u8 list) \<Rightarrow>
   ('s \<Rightarrow> ('m, 'z) net_world_scheme \<Rightarrow> u8 list) \<Rightarrow> bool" where
  "reads_ok A M filled inflow \<longleftrightarrow>
     (\<forall>s b w. \<exists>r b' w' bs. tcp_read M s (ReadBuf_MutBuf A) b w = (Ret (r, b'), w') \<and> chans w' = chans w \<and>
        filled (rb_buf b') = filled (rb_buf b) @ bs \<and> inflow s w' = inflow s w @ bs \<and>
        (case r of Inr (Ready n) \<Rightarrow> length bs = unat n | _ \<Rightarrow> bs = [])) \<and>
     (\<forall>s t i w. \<exists>w'. el_reregister_sock M s t i w = (Ret (Inr ()), w') \<and> chans w' = chans w \<and> (\<forall>s'. inflow s' w' = inflow s' w)) \<and>
     (\<forall>s q ch w. inflow s (set_chan q ch w) = inflow s w)"

definition unread :: "('a \<Rightarrow> u8 list) \<Rightarrow> ('s, 'p, 'a, 'b) Connection \<Rightarrow> u8 list" where
  "unread filled c = drop (unat (marker c)) (filled (rb_buf (conn_buf c)))"

definition marker_ok :: "('a \<Rightarrow> u8 list) \<Rightarrow> ('s, 'p, 'a, 'b) Connection \<Rightarrow> bool" where
  "marker_ok filled c \<longleftrightarrow> unat (marker c) \<le> length (filled (rb_buf (conn_buf c)))"

lemma blocks_exist:
  assumes "0 < k"
  shows "\<exists>bs rest. xs = concat bs @ rest \<and> (\<forall>b\<in>set bs. length b = k) \<and> length rest < k \<and> length bs \<le> length xs"
proof (induction "length xs" arbitrary: xs rule: less_induct)
  case less
  show ?case
  proof (cases "length xs < k")
    case True
    then show ?thesis by (intro exI [of _ "[]"] exI [of _ xs]) simp
  next
    case False
    with assms have "length (drop k xs) < length xs" by simp
    from less.hyps [OF this] obtain bs rest where
      b: "drop k xs = concat bs @ rest" "\<forall>b\<in>set bs. length b = k" "length rest < k" "length bs \<le> length (drop k xs)" by blast
    have "xs = concat (take k xs # bs) @ rest" using append_take_drop_id [of k xs] b(1) by simp
    moreover have "length (take k xs # bs) \<le> length xs" using b(4) False assms by simp
    moreover have "\<forall>b\<in>set (take k xs # bs). length b = k" using b(2) False by simp
    ultimately show ?thesis using b(3) by blast
  qed
qed

section \<open>One pass through the loop\<close>

text \<open>
  The slice is cut into messages and a \<open>rest\<close> shorter than one; behind the slice lie as many bytes as were left
  over before the read. When the buffer is kept, so are both; when it is replaced, only the rest of the slice is
  copied.
\<close>

lemma read_frames_stream:
  assumes io: "iobuf_ok (e_iobuf E)" and P: "e_proto E = BufProtocol (e_iobuf E) S" "0 < hs_size S"
    and sl: "slices_exact (e_ab E) (e_iobuf E) filled" and fl: "fills_ok (e_ab E) filled" and m: "marker_ok filled c"
    and n: "unat n \<le> length (unread filled c)" and room: "has_room (chans w (conn_tx c)) (unat n)"
  shows "\<exists>ms c' rest. read_frames E cfg t c n w = Some (Ret c', push_all (conn_tx c) ms w) \<and> marker_ok filled c' \<and> same_output c c' \<and>
    concat (map (\<lambda>m. iobuf_window (e_iobuf E) (pm_item m)) ms) @ rest = take (unat n) (unread filled c) \<and> length rest < unat (hs_size S) \<and>
    unread filled c' = rest @
      (if ab_len (e_ab E) (rb_buf (conn_buf c)) < ucast (min_read_buf_sz cfg) then [] else drop (unat n) (unread filled c))"
proof -
  let ?k = "unat (hs_size S)" and ?u = "unread filled c" and ?b = "rb_buf (new_buf (e_ab E) (read_buf_sz cfg) (config_allocator cfg))"
  have k: "0 < ?k" using P(2) by (simp add: word_less_nat_alt)
  have "unat (marker c) + unat n \<le> length (filled (rb_buf (conn_buf c)))" using m n by (simp add: marker_ok_def unread_def)
  with sl obtain s where s: "ab_atomic_slice_pos_from_begin (e_ab E) (rb_buf (conn_buf c)) (marker c) n = Inr s"
    "iobuf_window (e_iobuf E) s = take (unat n) ?u" unfolding slices_exact_def unread_def by metis
  obtain bs rest where b: "take (unat n) ?u = concat bs @ rest" "\<forall>b\<in>set bs. length b = ?k" "length rest < ?k"
    "length bs \<le> length (take (unat n) ?u)" using blocks_exist [OF k] by blast
  have "has_room (chans w (conn_tx c)) (length bs)" using room b(4) by (auto simp: has_room_def)
  from read_frames_blocks [OF io P s(1) s(2) [unfolded b(1)] b(2,3) this, of cfg t] obtain ms c' where
    r: "read_frames E cfg t c n w = Some (Ret c', push_all (conn_tx c) ms w)" "map (\<lambda>m. iobuf_window (e_iobuf E) (pm_item m)) ms = bs"
    and c': "if ab_len (e_ab E) (rb_buf (conn_buf c)) < ucast (min_read_buf_sz cfg)
      then marker c' = 0 \<and> rb_buf (conn_buf c') = (if rest = [] then ?b else ab_fill (e_ab E) ?b rest)
      else marker c' = marker c + of_nat (length (concat bs)) \<and> conn_buf c' = conn_buf c" unfolding Let_def by blast
  have "marker_ok filled c' \<and> unread filled c' = rest @
      (if ab_len (e_ab E) (rb_buf (conn_buf c)) < ucast (min_read_buf_sz cfg) then [] else drop (unat n) ?u)"
  proof (cases "ab_len (e_ab E) (rb_buf (conn_buf c)) < ucast (min_read_buf_sz cfg)")
    case True
    have "length rest < 2 ^ 32" using b(3) unsigned_less [of "hs_size S", where ?'a = nat] by simp
    with True c' fl show ?thesis by (simp add: unread_def fills_ok_def marker_ok_def)
  next
    case False
    have u: "?u = concat bs @ (rest @ drop (unat n) ?u)" using append_take_drop_id [of "unat n" ?u] b(1) by simp
    from arg_cong [OF u, of length] m have fit: "unat (marker c) + length (concat bs) \<le> length (filled (rb_buf (conn_buf c)))"
      by (simp add: unread_def marker_ok_def)
    moreover have "length (filled (rb_buf (conn_buf c))) < 2 ^ 32" using sl by (simp add: slices_exact_def)
    ultimately have mk: "unat (marker c') = unat (marker c) + length (concat bs)"
      using False c' by (simp add: unat_word_ariths unat_of_nat)
    have "conn_buf c' = conn_buf c" using False c' by simp
    then have "unread filled c' = drop (length (concat bs)) ?u" by (simp add: unread_def mk add.commute)
    also have "\<dots> = rest @ drop (unat n) ?u" by (subst u) simp
    finally show ?thesis using False c' mk fit by (simp add: marker_ok_def)
  qed
  with r b(1,3) read_frames_same_output [OF r(1)] show ?thesis by (intro exI [of _ ms] exI [of _ c'] exI [of _ rest]) simp
qed

section \<open>A readable event\<close>

lemma reads_okE:
  assumes "reads_ok (e_ab E) (e_mio E) filled inflow" "Connection_read (e_ab E) (e_mio E) c w = (Ret (r, c1), w1)"
  obtains bs where "chans w1 = chans w" "filled (rb_buf (conn_buf c1)) = filled (rb_buf (conn_buf c)) @ bs"
    "inflow (conn_sock c) w1 = inflow (conn_sock c) w @ bs" "case r of Inr (Ready n) \<Rightarrow> length bs = unat n | _ \<Rightarrow> bs = []"
    "c1 = c\<lparr>conn_buf := conn_buf c1\<rparr>"
proof -
  from assms(1) obtain r' b' w' bs where rd: "tcp_read (e_mio E) (conn_sock c) (ReadBuf_MutBuf (e_ab E)) (conn_buf c) w = (Ret (r', b'), w')"
    "chans w' = chans w" "filled (rb_buf b') = filled (rb_buf (conn_buf c)) @ bs" "inflow (conn_sock c) w' = inflow (conn_sock c) w @ bs"
    "case r' of Inr (Ready n) \<Rightarrow> length bs = unat n | _ \<Rightarrow> bs = []" unfolding reads_ok_def by metis
  with assms(2) show ?thesis by (intro that [of bs]) (auto simp: Connection_read_def abind_Ret)
qed

text \<open>The handler on a connection that stays, in terms of its read and its loop.\<close>

lemma readable_stays:
  assumes "slab_ok (e_listeners E)" "slab_get (e_listeners E) (listeners self) t = None" "conn_at E self t = Some c" "HUPHINT \<notin> hint"
    and "Connection_read (e_ab E) (e_mio E) c w = (Ret (r, c1), w1)"
    and "(case r of Inr (Ready n) \<Rightarrow> read_frames E (config self) t c1 n | _ \<Rightarrow> once (ret c1)) w1 = Some (Ret c2, w2)"
    and "el_reregister_sock (e_mio E) (conn_sock c2) t (insert READABLE (interest c2)) w2 = (Ret (Inr ()), w3)"
  shows "readable E self t hint w =
    Some (Ret (self\<lparr>conns := slab_set (e_conns E) (conns self) t (c2\<lparr>interest := insert READABLE (interest c2)\<rparr>)\<rparr>), w3)"
proof -
  have "\<not> slab_contains (e_listeners E) (listeners self) t" using assms(1,2) unfolding slab_ok_def by simp
  then show ?thesis using assms(3-) by (simp add: readable_def readable_connection_def pbind_def abind_def unwrap_io_def Let_def)
qed

text \<open>The handler with a hang-up: the connection goes, and gives up its end of the queue.\<close>

lemma readable_goes:
  assumes "slab_ok (e_listeners E)" "slab_get (e_listeners E) (listeners self) t = None" "conn_at E self t = Some c" "HUPHINT \<in> hint"
    and "Connection_read (e_ab E) (e_mio E) c w = (Ret (r, c1), w1)"
    and "(case r of Inr (Ready n) \<Rightarrow> read_frames E (config self) t c1 n | _ \<Rightarrow> once (ret c1)) w1 = Some (Ret c2, w2)"
  shows "readable E self t hint w =
    Some (Ret (self\<lparr>conns := slab_remove (e_conns E) (conns self) t\<rparr>), drop_sender (conn_tx c2) w2)"
proof -
  have "\<not> slab_contains (e_listeners E) (listeners self) t" using assms(1,2) unfolding slab_ok_def by simp
  then show ?thesis using assms(3-) by (simp add: readable_def readable_connection_def pbind_def)
qed

definition replaced where
  "replaced E cfg r c \<longleftrightarrow> (\<exists>n. r = Inr (Ready n)) \<and> ab_len (e_ab E) (rb_buf (conn_buf c)) < ucast (min_read_buf_sz cfg)"

lemma read_part_stream:
  assumes lib: "iobuf_ok (e_iobuf E)" "e_proto E = BufProtocol (e_iobuf E) S" "0 < hs_size S"
      "slices_exact (e_ab E) (e_iobuf E) filled" "fills_ok (e_ab E) filled" and mk: "marker_ok filled c"
    and un: "unread filled c = left_over @ new" "case r of Inr (Ready n) \<Rightarrow> length new = unat n | _ \<Rightarrow> new = []"
    and room: "has_room (chans w (conn_tx c)) (length new)"
  shows "\<exists>ms c2 lost. (case r of Inr (Ready n) \<Rightarrow> read_frames E cfg t c n | _ \<Rightarrow> once (ret c)) w = Some (Ret c2, push_all (conn_tx c) ms w) \<and>
    marker_ok filled c2 \<and> same_output c c2 \<and>
    concat (map (\<lambda>m. iobuf_window (e_iobuf E) (pm_item m)) ms) @ unread filled c2 @ lost = left_over @ new \<and>
    length lost = (if replaced E cfg r c then length left_over else 0) \<and>
    length (unread filled c2 @ lost) < unat (hs_size S) + length left_over"
proof (cases "\<exists>n. r = Inr (Ready n)")
  case True
  then obtain n where n: "r = Inr (Ready n)" by blast
  with un have len: "length new = unat n" "unat n \<le> length (unread filled c)" by simp_all
  have "has_room (chans w (conn_tx c)) (unat n)" using room len(1) by simp
  from read_frames_stream [OF lib mk len(2) this, of cfg t] obtain ms c2 rest where
    f: "read_frames E cfg t c n w = Some (Ret c2, push_all (conn_tx c) ms w)" "marker_ok filled c2" "same_output c c2"
      "concat (map (\<lambda>m. iobuf_window (e_iobuf E) (pm_item m)) ms) @ rest = take (unat n) (left_over @ new)" "length rest < unat (hs_size S)"
      "unread filled c2 = rest @ (if ab_len (e_ab E) (rb_buf (conn_buf c)) < ucast (min_read_buf_sz cfg) then [] else drop (unat n) (left_over @ new))"
    unfolding un(1) by blast
  have behind: "length (drop (unat n) (left_over @ new)) = length left_over" using len(1) by simp
  have all: "concat (map (\<lambda>m. iobuf_window (e_iobuf E) (pm_item m)) ms) @ rest @ drop (unat n) (left_over @ new) = left_over @ new"
    unfolding append_assoc [symmetric, of _ rest] f(4) by (rule append_take_drop_id)
  show ?thesis
    by (rule exI [of _ ms], rule exI [of _ c2], rule exI [of _ "if replaced E cfg r c then drop (unat n) (left_over @ new) else []"])
      (use f(1-3,5,6) n all behind in \<open>simp add: replaced_def\<close>)
next
  case False
  with un have "new = []" by (auto split: sum.splits NonBlock.splits)
  moreover have "0 < unat (hs_size S)" using lib(3) by (simp add: word_less_nat_alt)
  ultimately show ?thesis using False mk un(1)
    by (intro exI [of _ "[]"] exI [of _ c] exI [of _ "[]"]) (auto simp: replaced_def same_output_def split: sum.split NonBlock.split)
qed

text \<open>C16. With a \<^verbatim>\<open>BufProtocol\<close> whose blocks are not empty, and room in the queue for what is read, an event on a connection
  accounts for every byte, whatever the read of the socket gives, bytes, nothing or an error: what the connection has taken
  off its socket is, in this order, the bytes of the messages already consumed, of the messages in the queue, of the unread part of
  the buffer, and the \<open>lost\<close> ones at the end. Nothing is lost as long as the buffer is not replaced; when it is, as many
  bytes are as were left over from earlier reads, so none if none were. With a hang-up the connection goes, and what is
  not yet in the queue goes with it: less than a block more than what was left over.\<close>

theorem readable_keeps_the_stream:
  assumes "env_ok E wire" "e_proto E = BufProtocol (e_iobuf E) S" "0 < hs_size S"
    and "slices_exact (e_ab E) (e_iobuf E) filled" "fills_ok (e_ab E) filled" "reads_ok (e_ab E) (e_mio E) filled inflow"
    and "slab_get (e_listeners E) (listeners self) t = None" "conn_at E self t = Some c" "marker_ok filled c"
    and "Connection_read (e_ab E) (e_mio E) c w = (Ret (r, c1), w1)"
    and "inflow (conn_sock c) w1 = inflow (conn_sock c) w @ new" "has_room (chans w (conn_tx c)) (length new)"
    and "consumed @ concat (map (\<lambda>m. iobuf_window (e_iobuf E) (pm_item m)) (ch_buf (chans w (conn_tx c)))) @ unread filled c = inflow (conn_sock c) w"
  shows "\<exists>self' w' kept lost. readable E self t hint w = Some (Ret self', w') \<and>
    consumed @ concat (map (\<lambda>m. iobuf_window (e_iobuf E) (pm_item m)) (ch_buf (chans w' (conn_tx c)))) @ kept @ lost = inflow (conn_sock c) w' \<and>
    (if HUPHINT \<in> hint then conn_at E self' t = None \<and> kept = [] \<and> length lost < unat (hs_size S) + length (unread filled c)
     else (\<exists>c'. conn_at E self' t = Some c' \<and> marker_ok filled c' \<and> kept = unread filled c') \<and>
       length lost = (if replaced E (config self) r c1 then length (unread filled c) else 0))"
proof -
  let ?win = "\<lambda>m. iobuf_window (e_iobuf E) (pm_item m)"
  from assms(1) have io: "iobuf_ok (e_iobuf E)" and sl: "slab_ok (e_listeners E)" "slab_ok (e_conns E)" by (simp_all add: env_ok_def)
  obtain bs where rd: "chans w1 = chans w" "filled (rb_buf (conn_buf c1)) = filled (rb_buf (conn_buf c)) @ bs"
    "inflow (conn_sock c) w1 = inflow (conn_sock c) w @ bs" "case r of Inr (Ready n) \<Rightarrow> length bs = unat n | _ \<Rightarrow> bs = []"
    and c1: "c1 = c\<lparr>conn_buf := conn_buf c1\<rparr>" by (rule reads_okE [OF assms(6,10)])
  have bs: "bs = new" using rd(3) assms(11) by simp
  have same: "marker c1 = marker c" "conn_tx c1 = conn_tx c" "conn_sock c1 = conn_sock c" by (subst c1, simp)+
  have un: "unread filled c1 = unread filled c @ new" using assms(9) by (simp add: unread_def same rd(2) bs marker_ok_def)
  have mk: "marker_ok filled c1" using assms(9) by (simp add: marker_ok_def same rd(2))
  have room: "has_room (chans w1 (conn_tx c1)) (length new)" using assms(12) by (simp add: rd(1) same(2))
  from read_part_stream [OF io assms(2-5) mk un rd(4) [unfolded bs] room, of "config self" t] obtain ms c2 lost where
    f: "(case r of Inr (Ready n) \<Rightarrow> read_frames E (config self) t c1 n | _ \<Rightarrow> once (ret c1)) w1 = Some (Ret c2, push_all (conn_tx c) ms w1)"
    "marker_ok filled c2" "same_output c1 c2" "concat (map ?win ms) @ unread filled c2 @ lost = unread filled c @ new"
    "length lost = (if replaced E (config self) r c1 then length (unread filled c) else 0)"
    "length (unread filled c2 @ lost) < unat (hs_size S) + length (unread filled c)"
    unfolding same(2) by blast
  have tx: "conn_tx c2 = conn_tx c" "conn_sock c2 = conn_sock c" using f(3) same by (simp_all add: same_output_def)
  have push: "inflow (conn_sock c) (push_all (conn_tx c) ms w1) = inflow (conn_sock c) w @ new"
    using assms(6) rd(3) bs by (simp add: reads_ok_def push_all_def)
  have all: "consumed @ concat (map ?win (ch_buf (chans (push_all (conn_tx c) ms w1) (conn_tx c)))) @ unread filled c2 @ lost = inflow (conn_sock c) w @ new"
    using f(4) by (simp add: push_all_def rd(1) flip: assms(13))
  show ?thesis
  proof (cases "HUPHINT \<in> hint")
    case True
    let ?self = "self\<lparr>conns := slab_remove (e_conns E) (conns self) t\<rparr>" and ?w = "drop_sender (conn_tx c) (push_all (conn_tx c) ms w1)"
    have "readable E self t hint w = Some (Ret ?self, ?w)" using readable_goes [OF sl(1) assms(7,8) True assms(10) f(1)] tx by simp
    moreover have "conn_at E ?self t = None" by (simp add: slab_remove_get [OF sl(2)])
    moreover have "inflow (conn_sock c) ?w = inflow (conn_sock c) w @ new" using assms(6) push by (simp add: reads_ok_def drop_sender_def)
    moreover have "ch_buf (chans ?w (conn_tx c)) = ch_buf (chans (push_all (conn_tx c) ms w1) (conn_tx c))" by (simp add: drop_sender_def)
    ultimately show ?thesis using True all f(6)
      by (intro exI [of _ ?self] exI [of _ ?w] exI [of _ "[]"] exI [of _ "unread filled c2 @ lost"]) simp
  next
    case False
    obtain w3 where w3: "el_reregister_sock (e_mio E) (conn_sock c2) t (insert READABLE (interest c2)) (push_all (conn_tx c) ms w1) = (Ret (Inr ()), w3)"
      "chans w3 = chans (push_all (conn_tx c) ms w1)" "inflow (conn_sock c) w3 = inflow (conn_sock c) (push_all (conn_tx c) ms w1)"
      using assms(6) unfolding reads_ok_def by metis
    let ?c = "c2\<lparr>interest := insert READABLE (interest c2)\<rparr>" and ?self = "self\<lparr>conns := slab_set (e_conns E) (conns self) t (c2\<lparr>interest := insert READABLE (interest c2)\<rparr>)\<rparr>"
    have "unread filled ?c = unread filled c2" "marker_ok filled ?c = marker_ok filled c2" by (simp_all add: unread_def marker_ok_def)
    moreover have "conn_at E ?self t = Some ?c" using slab_set_get [OF sl(2) assms(8)] by simp
    moreover have "readable E self t hint w = Some (Ret ?self, w3)" by (rule readable_stays [OF sl(1) assms(7,8) False assms(10) f(1) w3(1)])
    ultimately show ?thesis using False all f(2,5) w3(2,3) push
      by (intro exI [of _ ?self] exI [of _ w3] exI [of _ "unread filled c2"] exI [of _ lost]) simp
  qed
qed

section \<open>A buffer that is replaced\<close>


section \<open>A platform that reads\<close>

record 'm reading_world = "'m net_world" +
  taken :: "u8 list"
  incoming :: "u8 list"

definition reading_filled :: "u8 list \<Rightarrow> u8 list" where
  "reading_filled b = take 4294967295 b"

definition reading_read :: "u8 list ReadBuf \<Rightarrow> ('m reading_world, (io_error + usize NonBlock) \<times> u8 list ReadBuf) act" where
  "reading_read b = (\<lambda>w. let bs = take (4294967295 - length (rb_buf b)) (incoming w) in
     (Ret (Inr (Ready (of_nat (length bs))), ReadBuf (rb_buf b @ bs)), w\<lparr>taken := taken w @ bs, incoming := drop (length bs) (incoming w)\<rparr>))"

definition reading_mio :: "('m reading_world, unit, unit, unit, u8 list, u8 list, nat, nat, unit) mio" where
  "reading_mio =
     \<lparr>get_host_addresses = (\<lambda>_. ret (Inr [0])), tcp_v4 = ret (Inr ()), tcp_connect = (\<lambda>_ _ _. ret (Inr ())),
      tcp_bind = (\<lambda>_ _ _. ret (Inr ())), tcp_listen = (\<lambda>_ _. ret (Inr ())), tcp_accept = (\<lambda>_. ret (Inr WouldBlock)),
      tcp_write = (\<lambda>_ _ b. ret (Inr WouldBlock, b)), tcp_read = (\<lambda>_ _. reading_read),
      el_register_sock = (\<lambda>_ _ _. ret (Inr ())), el_register_acceptor = (\<lambda>_ _ _. ret (Inr ())),
      el_reregister_sock = (\<lambda>_ _ _. ret (Inr ())), el_reregister_acceptor = (\<lambda>_ _ _. ret (Inr ())),
      el_timeout = (\<lambda>_ _. ret (Inr 7)), el_clear_timeout = (\<lambda>_. ret True), el_channel = ()\<rparr>"

definition reading_env where
  "reading_env = \<lparr>e_iobuf = sample_iobuf, e_ab = sample_ab,
     e_mio = (reading_mio :: (u8 list ProtoMsg reading_world, _, _, _, _, _, _, _, _) mio), e_proto = BufProtocol sample_iobuf (protocol_size 4),
     e_listeners = sample_slab, e_timeouts = sample_slab, e_conns = sample_slab, e_call = (\<lambda>cb. ret (cb, cb))\<rparr>"

lemma reading_fields [simp]:
  "e_iobuf reading_env = sample_iobuf" "e_ab reading_env = sample_ab" "e_mio reading_env = reading_mio"
  "e_proto reading_env = BufProtocol sample_iobuf (protocol_size 4)" "e_listeners reading_env = sample_slab" "e_conns reading_env = sample_slab"
  by (simp_all add: reading_env_def)

lemma reading_slices: "slices_exact sample_ab sample_iobuf reading_filled"
  by (auto simp: slices_exact_def sample_ab_def reading_filled_def drop_take)

lemma reading_fills: "fills_ok sample_ab reading_filled"
  by (auto simp: fills_ok_def sample_ab_def reading_filled_def new_buf_def split: option.split)

lemma reading_reads: "reads_ok sample_ab reading_mio reading_filled (\<lambda>_. taken)"
  by (auto simp: reads_ok_def reading_mio_def reading_read_def reading_filled_def set_chan_def Let_def unat_of_nat)

lemma reading_env_ok: "env_ok reading_env (\<lambda>_ _. [])"
  by (simp add: env_ok_def writes_ok_def reregisters_ok_def reading_mio_def written_def) (simp add: reading_env_def)

text \<open>A connection that has three bytes left over from an earlier read.\<close>

definition reading_conn where
  "reading_conn = sample_conn\<lparr>conn_buf := ReadBuf [1, 2, 3]\<rparr>"

definition reading_engine where
  "reading_engine = \<lparr>listeners = [], timeouts = [], conns = [(Token 0, reading_conn)], config = sample_config\<rparr>"

definition reading_start :: "u8 list ProtoMsg reading_world" where
  "reading_start = \<lparr>stdout = [], chans = (\<lambda>_. sync_queue 100), next_chan = 1, taken = [1, 2, 3], incoming = [4, 5, 6, 7, 8, 9]\<rparr>"

lemma reading_conn_read:
  "Connection_read sample_ab reading_mio reading_conn reading_start =
     (Ret (Inr (Ready 6), reading_conn\<lparr>conn_buf := ReadBuf [1, 2, 3, 4, 5, 6, 7, 8, 9]\<rparr>),
      reading_start\<lparr>taken := [1, 2, 3, 4, 5, 6, 7, 8, 9], incoming := []\<rparr>)"
  by (simp add: Connection_read_def reading_mio_def reading_read_def reading_conn_def reading_start_def sample_conn_def abind_def Let_def)

lemma reading_facts:
  "marker_ok reading_filled reading_conn" "conn_tx reading_conn = 0" "unread reading_filled reading_conn = [1, 2, 3]"
  "marker_ok reading_filled (reading_conn\<lparr>conn_buf := ReadBuf [1, 2, 3, 4, 5, 6, 7, 8, 9]\<rparr>)"
  "unread reading_filled (reading_conn\<lparr>conn_buf := ReadBuf [1, 2, 3, 4, 5, 6, 7, 8, 9]\<rparr>) = [1, 2, 3] @ [4, 5, 6, 7, 8, 9]"
  "chans reading_start q = sync_queue 100" "0 < hs_size (protocol_size 4)"
  by (simp_all add: marker_ok_def reading_conn_def sample_conn_def reading_filled_def unread_def reading_start_def protocol_size_def)

theorem readable_keeps_the_stream_witness:
  "\<exists>self' w' c' lost. readable reading_env (reading_engine\<lparr>config := sample_config\<lparr>min_read_buf_sz := 1536\<rparr>\<rparr>) (Token 0) {} reading_start =
      Some (Ret self', w') \<and> map_of (conns self') (Token 0) = Some c' \<and>
    concat (map (\<lambda>m. take 4294967295 (pm_item m)) (ch_buf (chans w' 0))) @ unread reading_filled c' @ lost = taken w' \<and> length lost = 3"
proof -
  let ?c1 = "reading_conn\<lparr>conn_buf := ReadBuf [1, 2, 3, 4, 5, 6, 7, 8, 9]\<rparr>" and ?cfg = "sample_config\<lparr>min_read_buf_sz := 1536\<rparr>"
  let ?e = "reading_engine\<lparr>config := ?cfg\<rparr>"
  have c: "slab_get (e_listeners reading_env) (listeners ?e) (Token 0) = None" "conn_at reading_env ?e (Token 0) = Some reading_conn"
    by (simp_all add: reading_engine_def)
  have lib: "e_proto reading_env = BufProtocol (e_iobuf reading_env) (protocol_size 4)" "slices_exact (e_ab reading_env) (e_iobuf reading_env) reading_filled"
    "fills_ok (e_ab reading_env) reading_filled" "reads_ok (e_ab reading_env) (e_mio reading_env) reading_filled (\<lambda>_. taken)"
    by (simp_all add: reading_slices reading_fills reading_reads)
  have rd: "Connection_read (e_ab reading_env) (e_mio reading_env) reading_conn reading_start =
      (Ret (Inr (Ready 6), ?c1), reading_start\<lparr>taken := [1, 2, 3, 4, 5, 6, 7, 8, 9], incoming := []\<rparr>)"
    by (simp add: reading_conn_read)
  have st: "taken (reading_start\<lparr>taken := [1, 2, 3, 4, 5, 6, 7, 8, 9], incoming := []\<rparr>) = taken reading_start @ [4, 5, 6, 7, 8, 9]"
    "has_room (chans reading_start (conn_tx reading_conn)) (length [4, 5, 6, 7, 8, 9 :: u8])"
    "[] @ concat (map (\<lambda>m. iobuf_window (e_iobuf reading_env) (pm_item m)) (ch_buf (chans reading_start (conn_tx reading_conn)))) @ unread reading_filled reading_conn = taken reading_start"
    by (simp_all add: reading_facts has_room_def sync_queue_def) (simp_all add: reading_start_def)
  have rp: "replaced reading_env (config ?e) (Inr (Ready 6)) ?c1"
    by (simp add: replaced_def sample_ab_def sample_config_def word_less_nat_alt)
  show ?thesis
    using readable_keeps_the_stream [OF reading_env_ok lib(1) reading_facts(7) lib(2-4) c reading_facts(1) rd st, of "{}"] rp
    by (fastforce simp: reading_facts)
qed


end
