(* ===== verification/Rx_Read_Events.thy ===== *)
theory Rx_Read_Events
  imports Rx_Read_Stream Rx_Engine_Tokens
begin

text \<open>
  A connection over many readable events (\<^verbatim>\<open>src/reactor.rs\<close>). The bytes of a stream arrive in pieces, and how they are cut
  decides what becomes of them: numbers that arrive whole are all delivered, and a stream that arrives in pieces
  smaller than a message is never delivered at all.
\<close>

section \<open>Streams in pieces\<close>

text \<open>
  \<open>pieces s w\<close> are the pieces in which the bytes that wait on a socket will be handed over. A read into a buffer with
  room takes the next one, and leaves the other sockets alone; \<^verbatim>\<open>ab_len\<close>, the room in a buffer, shrinks by what is put in, and a new buffer has the
  room that was asked for.
\<close>

definition pieces_ok ::
  "('a, 'al, 'b) appendbuf \<Rightarrow> (('m, 'z) world_scheme, 's, 'l, 'c, 'a, 'b, 'ip, 'h, 'q) mio \<Rightarrow> ('a \<Rightarrow> u8 list) \<Rightarrow>
   ('s \<Rightarrow> ('m, 'z) world_scheme \<Rightarrow> u8 list list) \<Rightarrow> bool" where
  "pieces_ok A M filled pieces \<longleftrightarrow>
     (\<forall>s b w bs bss. pieces s w = bs # bss \<longrightarrow> length bs \<le> unat (ab_len A (rb_buf b)) \<longrightarrow>
        (\<exists>b' w'. tcp_read M s (ReadBuf_MutBuf A) b w = (Ret (Inr (Ready (of_nat (length bs))), b'), w') \<and> chans w' = chans w \<and>
           filled (rb_buf b') = filled (rb_buf b) @ bs \<and> pieces s w' = bss \<and> (\<forall>s'. s' \<noteq> s \<longrightarrow> pieces s' w' = pieces s' w) \<and>
           unat (ab_len A (rb_buf b')) = unat (ab_len A (rb_buf b)) - length bs)) \<and>
     (\<forall>s t i w. \<exists>w'. el_reregister_sock M s t i w = (Ret (Inr ()), w') \<and> chans w' = chans w \<and> (\<forall>s'. pieces s' w' = pieces s' w)) \<and>
     (\<forall>s q ch w. pieces s (set_chan q ch w) = pieces s w)"

definition buffers_ok :: "('a, 'al, 'b) appendbuf \<Rightarrow> ('a \<Rightarrow> u8 list) \<Rightarrow> bool" where
  "buffers_ok A filled \<longleftrightarrow>
     (\<forall>sz al. filled (rb_buf (new_buf A sz al)) = [] \<and> ab_len A (rb_buf (new_buf A sz al)) = ucast sz) \<and>
     (\<forall>b bs. filled b = [] \<longrightarrow> length bs \<le> unat (ab_len A b) \<longrightarrow>
        filled (ab_fill A b bs) = bs \<and> unat (ab_len A (ab_fill A b bs)) = unat (ab_len A b) - length bs)"

definition reading_ok where
  "reading_ok E filled pieces \<longleftrightarrow> iobuf_ok (e_iobuf E) \<and> slab_ok (e_listeners E) \<and> slab_ok (e_conns E) \<and>
     slices_exact (e_ab E) (e_iobuf E) filled \<and> buffers_ok (e_ab E) filled \<and> pieces_ok (e_ab E) (e_mio E) filled pieces"

text \<open>The room a connection has left, and its state between two events.\<close>

definition room :: "('a, 'al, 'b) appendbuf \<Rightarrow> ('s, 'p, 'a, 'b) Connection \<Rightarrow> nat" where
  "room A c = unat (ab_len A (rb_buf (conn_buf c)))"

lemma pieces_okE:
  assumes "pieces_ok (e_ab E) (e_mio E) filled pieces" "pieces (conn_sock c) w = bs # bss" "length bs \<le> room (e_ab E) c"
  obtains b w' where "Connection_read (e_ab E) (e_mio E) c w = (Ret (Inr (Ready (of_nat (length bs))), c\<lparr>conn_buf := b\<rparr>), w')"
    "chans w' = chans w" "filled (rb_buf b) = filled (rb_buf (conn_buf c)) @ bs" "pieces (conn_sock c) w' = bss"
    "unat (ab_len (e_ab E) (rb_buf b)) = room (e_ab E) c - length bs" "\<forall>s. s \<noteq> conn_sock c \<longrightarrow> pieces s w' = pieces s w"
proof -
  have "length bs \<le> unat (ab_len (e_ab E) (rb_buf (conn_buf c)))" using assms(3) by (simp add: room_def)
  from assms(1) [unfolded pieces_ok_def, THEN conjunct1, rule_format, OF assms(2) this] obtain b w' where "tcp_read (e_mio E) (conn_sock c) (ReadBuf_MutBuf (e_ab E)) (conn_buf c) w =
      (Ret (Inr (Ready (of_nat (length bs))), b), w')" "chans w' = chans w" "filled (rb_buf b) = filled (rb_buf (conn_buf c)) @ bs"
    "pieces (conn_sock c) w' = bss" "unat (ab_len (e_ab E) (rb_buf b)) = unat (ab_len (e_ab E) (rb_buf (conn_buf c))) - length bs"
    "\<forall>s. s \<noteq> conn_sock c \<longrightarrow> pieces s w' = pieces s w"
    by (elim exE conjE) (rule that)
  then show ?thesis by (intro that) (auto simp: Connection_read_def abind_Ret room_def)
qed

section \<open>One event\<close>

text \<open>The buffer after the loop, as \<open>read_frames_parse\<close> describes it, in terms of what is unread and of the room.\<close>

lemma buffer_after_loop:
  assumes "buffers_ok A filled" "length (filled b) < 2 ^ 32" "unat m + k \<le> length (filled b)" "length rest \<le> unat (ucast sz :: u32)"
    and "if ab_len A b < ucast mn
      then marker c1 = 0 \<and> rb_buf (conn_buf c1) = (let b = rb_buf (new_buf A sz al) in if rest = [] then b else ab_fill A b rest)
      else marker c1 = m + of_nat k \<and> rb_buf (conn_buf c1) = b"
  shows "(if unat (ab_len A b) < unat (ucast mn :: u32)
     then unread filled c1 = rest \<and> room A c1 = unat (ucast sz :: u32) - length rest
     else unread filled c1 = drop k (drop (unat m) (filled b)) \<and> room A c1 = unat (ab_len A b)) \<and> marker_ok filled c1"
proof (cases "ab_len A b < ucast mn")
  case True
  let ?new = "rb_buf (new_buf A sz al)"
  have new: "filled ?new = []" "ab_len A ?new = ucast sz" using assms(1) by (simp_all add: buffers_ok_def)
  have "filled (ab_fill A ?new rest) = rest" "unat (ab_len A (ab_fill A ?new rest)) = unat (ucast sz :: u32) - length rest"
    using assms(1,4) new by (simp_all add: buffers_ok_def)
  with True assms(5) new show ?thesis by (auto simp: unread_def room_def marker_ok_def Let_def word_less_nat_alt)
next
  case False
  with assms(5) have c1: "marker c1 = m + of_nat k" "rb_buf (conn_buf c1) = b" by simp_all
  have "unat (m + of_nat k) = unat m + k" using assms(2,3) by (simp add: unat_word_ariths unat_of_nat)
  with False assms(3) c1 show ?thesis by (simp add: unread_def room_def marker_ok_def word_less_nat_alt add.commute)
qed

lemma events_loop_readable:
  assumes "readable E self t {} w = Some (Ret self1, w1)"
  shows "events_loop (map (\<lambda>t. Readable t {}) (t # ts)) (EngineInner_Handler E) self w =
    events_loop (map (\<lambda>t. Readable t {}) ts) (EngineInner_Handler E) self1 w1"
  using assms by (simp add: handle_def pbind_Ret)

text \<open>
  A connection that waits for events: nothing is unread, there is room for a piece, its messages go to the queue
  \<open>q\<close>, and the pieces \<open>bss\<close> wait on its socket.
\<close>

definition ready_conn where
  "ready_conn E filled pieces R q self w t s bss \<longleftrightarrow> slab_get (e_listeners E) (listeners self) t = None \<and>
     (\<exists>c. conn_at E self t = Some c \<and> conn_tx c = q \<and> conn_sock c = s \<and> marker_ok filled c \<and> unread filled c = [] \<and>
        R \<le> room (e_ab E) c \<and> pieces s w = bss)"

text \<open>
  Events on several connections, in the order \<open>ts\<close>: each takes the next piece of its connection. The items come out
  with their connection, and those of one connection are the items of its pieces, in order.
\<close>

primrec serve :: "('p \<Rightarrow> 'i list) \<Rightarrow> Token list \<Rightarrow> (Token \<Rightarrow> 'p list) \<Rightarrow> (Token \<times> 'i) list" where
  "serve f [] str = []"
| "serve f (t # ts) str = map (Pair t) (f (hd (str t))) @ serve f ts (str(t := tl (str t)))"

lemma count_list_tl:
  assumes "\<forall>u\<in>T. count_list (t # ts) u \<le> length (str u)"
  shows "\<forall>u\<in>T. count_list ts u \<le> length ((str(t := tl (str t))) u)"
proof
  fix u assume "u \<in> T"
  with assms have "count_list (t # ts) u \<le> length (str u)" by blast
  then show "count_list ts u \<le> length ((str(t := tl (str t))) u)" by (auto split: if_splits)
qed

lemma serve_of:
  "\<forall>u\<in>{t}. count_list ts u \<le> length (str u) \<Longrightarrow>
    map snd (filter (\<lambda>x. fst x = t) (serve f ts str)) = concat (map f (take (count_list ts t) (str t)))"
proof (induction ts arbitrary: str)
  case (Cons u ts)
  let ?str = "str(u := tl (str u))"
  have IH: "map snd (filter (\<lambda>x. fst x = t) (serve f ts ?str)) = concat (map f (take (count_list ts t) (?str t)))"
    by (rule Cons.IH [OF count_list_tl [OF Cons.prems]])
  show ?case
  proof (cases "u = t")
    case True
    with Cons.prems obtain bs bss where "str t = bs # bss" by (cases "str t") auto
    with True IH show ?thesis by (simp add: filter_map comp_def)
  next
    case False
    with IH show ?thesis by (simp add: filter_map comp_def)
  qed
qed simp

lemma serve_length:
  "finite T \<Longrightarrow> set ts \<subseteq> T \<Longrightarrow> \<forall>u\<in>T. count_list ts u \<le> length (str u) \<Longrightarrow>
    length (serve f ts str) \<le> (\<Sum>u\<in>T. length (concat (map f (str u))))"
proof (induction ts arbitrary: str)
  case (Cons t ts)
  let ?str = "str(t := tl (str t))"
  from Cons.prems obtain bs bss where b: "str t = bs # bss" by (cases "str t") fastforce+
  have "length (serve f ts ?str) \<le> (\<Sum>u\<in>T. length (concat (map f (?str u))))"
    by (rule Cons.IH [OF Cons.prems(1) _ count_list_tl [OF Cons.prems(3)]]) (use Cons.prems in simp)
  moreover have "(\<Sum>u\<in>T. length (concat (map f (str u)))) = length (f bs) + (\<Sum>u\<in>T. length (concat (map f (?str u))))"
    using Cons.prems(1,2) b by (simp add: sum.remove [of T t])
  ultimately show ?case using b by simp
qed simp

lemma serve_map:
  "set ts \<subseteq> T \<Longrightarrow> \<forall>u\<in>T. count_list ts u \<le> length (str u) \<Longrightarrow> serve f ts (\<lambda>u. map g (str u)) = serve (\<lambda>x. f (g x)) ts str"
proof (induction ts arbitrary: str)
  case (Cons t ts)
  let ?str = "str(t := tl (str t))"
  from Cons.prems have "str t \<noteq> []" by fastforce
  moreover have "(\<lambda>u. map g (str u))(t := tl (map g (str t))) = (\<lambda>u. map g (?str u))" by (auto simp: map_tl)
  moreover have "serve f ts (\<lambda>u. map g (?str u)) = serve (\<lambda>x. f (g x)) ts ?str"
    by (rule Cons.IH [OF _ count_list_tl [OF Cons.prems(2)]]) (use Cons.prems in simp)
  ultimately show ?case by (simp add: hd_map)
qed simp

lemma serve_tokens: "(t, x) \<in> set (serve f ts str) \<Longrightarrow> t \<in> set ts"
  by (induction ts arbitrary: str) auto

lemma serve_one: "length (str t) = n \<Longrightarrow> serve f (replicate n t) str = map (Pair t) (concat (map f (str t)))"
proof (induction n arbitrary: str)
  case (Suc n)
  then obtain bs bss where "str t = bs # bss" by (cases "str t") auto
  with Suc show ?case by simp
qed simp

context stream_framing
begin

text \<open>
  The handler takes the next piece, cuts a stretch of that length off what is unread, and sends its items. What is
  left of the stretch is unread, and so is what lies behind it, unless the buffer is replaced.
\<close>

lemma piece_event:
  assumes ok: "reading_ok E filled pieces"
    and P: "window = iobuf_window (e_iobuf E)" "e_proto E = P" "\<And>b. fits b"
    and c: "slab_get (e_listeners E) (listeners self) t = None" "conn_at E self t = Some c" "marker_ok filled c"
    and bs: "pieces (conn_sock c) w = bs # bss" "length bs \<le> room (e_ab E) c"
    and xs: "parse_all parse (take (length bs) (unread filled c @ bs)) = (xs, rest)"
    and room: "has_room (chans w (conn_tx c)) (length xs)" "length rest \<le> unat (ucast (read_buf_sz (config self)) :: u32)"
  shows "\<exists>self' c' w' ms. readable E self t {} w = Some (Ret self', w') \<and> slab_get (e_conns E) (conns self') = (slab_get (e_conns E) (conns self))(t \<mapsto> c') \<and>
    self' = self\<lparr>conns := conns self'\<rparr> \<and> conn_tx c' = conn_tx c \<and> conn_sock c' = conn_sock c \<and> marker_ok filled c' \<and>
    map (\<lambda>m. item (pm_item m)) ms = xs \<and> (\<forall>m\<in>set ms. pm_tok m = t) \<and> chans w' = chans (push_all (conn_tx c) ms w) \<and>
    pieces (conn_sock c) w' = bss \<and> (\<forall>s. s \<noteq> conn_sock c \<longrightarrow> pieces s w' = pieces s w) \<and>
    (if room (e_ab E) c - length bs < unat (ucast (min_read_buf_sz (config self)) :: u32)
     then unread filled c' = rest \<and> room (e_ab E) c' = unat (ucast (read_buf_sz (config self)) :: u32) - length rest
     else unread filled c' = drop (length bs - length rest) (unread filled c @ bs) \<and> room (e_ab E) c' = room (e_ab E) c - length bs)"
proof -
  from ok have lib: "iobuf_ok (e_iobuf E)" "slab_ok (e_listeners E)" "slab_ok (e_conns E)" "slices_exact (e_ab E) (e_iobuf E) filled"
    "buffers_ok (e_ab E) filled" "pieces_ok (e_ab E) (e_mio E) filled pieces" by (simp_all add: reading_ok_def)
  obtain b w1 where rd: "Connection_read (e_ab E) (e_mio E) c w = (Ret (Inr (Ready (of_nat (length bs))), c\<lparr>conn_buf := b\<rparr>), w1)"
    "chans w1 = chans w" "filled (rb_buf b) = filled (rb_buf (conn_buf c)) @ bs" "pieces (conn_sock c) w1 = bss"
    "unat (ab_len (e_ab E) (rb_buf b)) = room (e_ab E) c - length bs" "\<forall>s. s \<noteq> conn_sock c \<longrightarrow> pieces s w1 = pieces s w" by (rule pieces_okE [OF lib(6) bs])
  let ?c = "c\<lparr>conn_buf := b\<rparr>" and ?n = "of_nat (length bs) :: usize"
  have "length (filled (rb_buf b)) < 2 ^ 32" using lib(4) by (simp add: slices_exact_def)
  then have n: "unat ?n = length bs" and len: "length (filled (rb_buf b)) < 2 ^ 32" by (simp_all add: unat_of_nat rd(3))
  have un: "drop (unat (marker c)) (filled (rb_buf b)) = unread filled c @ bs" using c(3) by (simp add: unread_def marker_ok_def rd(3))
  have fit: "unat (marker c) + length bs \<le> length (filled (rb_buf b))" using c(3) by (simp add: marker_ok_def rd(3))
  with lib(4) n obtain s where s: "ab_atomic_slice_pos_from_begin (e_ab E) (rb_buf b) (marker c) ?n = Inr s"
    "iobuf_window (e_iobuf E) s = take (length bs) (unread filled c @ bs)" unfolding slices_exact_def by (metis un)
  have parsed: "parse_all parse (window s) = (xs, rest)" "length (window s) = length bs" using xs P(1) s(2) by simp_all
  have "has_room (chans w1 (conn_tx ?c)) (length xs)" using room(1) by (simp add: rd(2))
  from read_frames_parse [of E s ?c ?n, OF lib(1) P(1,2,3) _ parsed(1) this, of "config self" t] s(1) obtain ms c1 where
    fr: "read_frames E (config self) t ?c ?n w1 = Some (Ret c1, push_all (conn_tx c) ms w1)"
    and ms: "map (\<lambda>m. item (pm_item m)) ms = xs" "\<forall>m\<in>set ms. pm_tok m = t"
    and c1: "if ab_len (e_ab E) (rb_buf b) < ucast (min_read_buf_sz (config self))
     then marker c1 = 0 \<and> rb_buf (conn_buf c1) = (let b = rb_buf (new_buf (e_ab E) (read_buf_sz (config self)) (config_allocator (config self)))
       in if rest = [] then b else ab_fill (e_ab E) b rest)
     else marker c1 = marker c + of_nat (length bs - length rest) \<and> conn_buf c1 = b" by (auto simp: parsed(2))
  have same: "conn_tx c1 = conn_tx c" "conn_sock c1 = conn_sock c" using read_frames_same_output [OF fr] by (simp_all add: same_output_def)
  obtain w3 where w3: "el_reregister_sock (e_mio E) (conn_sock c1) t (insert READABLE (interest c1)) (push_all (conn_tx c) ms w1) = (Ret (Inr ()), w3)"
    "chans w3 = chans (push_all (conn_tx c) ms w1)" "\<forall>s. pieces s w3 = pieces s (push_all (conn_tx c) ms w1)"
    using lib(6) unfolding pieces_ok_def by metis
  let ?c' = "c1\<lparr>interest := insert READABLE (interest c1)\<rparr>"
  have chans: "chans w3 = chans (push_all (conn_tx c) ms w)" by (rule ext) (simp add: w3(2) push_all_def rd(2))
  have "\<forall>s. pieces s w3 = pieces s w1" using lib(6) w3(3) by (simp add: push_all_def pieces_ok_def)
  with rd(4,6) have left: "pieces (conn_sock c) w3 = bss" "\<forall>s. s \<noteq> conn_sock c \<longrightarrow> pieces s w3 = pieces s w" by simp_all
  have mk: "unat (marker c) + (length bs - length rest) \<le> length (filled (rb_buf b))" using fit by simp
  have "(if room (e_ab E) c - length bs < unat (ucast (min_read_buf_sz (config self)) :: u32)
     then unread filled c1 = rest \<and> room (e_ab E) c1 = unat (ucast (read_buf_sz (config self)) :: u32) - length rest
     else unread filled c1 = drop (length bs - length rest) (unread filled c @ bs) \<and> room (e_ab E) c1 = room (e_ab E) c - length bs) \<and> marker_ok filled c1"
    using buffer_after_loop [of "e_ab E" filled "rb_buf b" "marker c" "length bs - length rest" rest "read_buf_sz (config self)"
        "min_read_buf_sz (config self)" c1 "config_allocator (config self)"] lib(5) len mk room(2) c1 by (simp add: rd(5) un split: if_split_asm)
  moreover have "unread filled ?c' = unread filled c1" "marker_ok filled ?c' = marker_ok filled c1" "room (e_ab E) ?c' = room (e_ab E) c1"
    by (simp_all add: unread_def marker_ok_def room_def)
  ultimately show ?thesis
    using readable_stays [OF lib(2) c(1,2) _ rd(1) _ w3(1), of "{}"] fr slab_set_get [OF lib(3) c(2), of ?c'] same ms chans left
    by (intro exI [of _ "self\<lparr>conns := slab_set (e_conns E) (conns self) t ?c'\<rparr>"] exI [of _ ?c'] exI [of _ w3] exI [of _ ms])
      (simp del: drop_append)
qed

section \<open>Many events\<close>

text \<open>
  Pieces that hold whole messages: whatever the order of the events, everything is delivered, in order for every
  connection, and nothing is left over.
\<close>

lemma ready_event:
  assumes ok: "reading_ok E filled pieces" and P: "window = iobuf_window (e_iobuf E)" "e_proto E = P" "\<And>b. fits b"
    and c: "ready_conn E filled pieces R q self w t s (bs # bss)" and bs: "snd (parse_all parse bs) = []" "length bs \<le> R"
    and R: "R \<le> unat (ucast (min_read_buf_sz (config self)) :: u32)" "R \<le> unat (ucast (read_buf_sz (config self)) :: u32)"
    and room: "has_room (chans w q) (length (fst (parse_all parse bs)))"
  shows "\<exists>self' w' ms. readable E self t {} w = Some (Ret self', w') \<and> config self' = config self \<and>
    map (\<lambda>m. (pm_tok m, item (pm_item m))) ms = map (Pair t) (fst (parse_all parse bs)) \<and> chans w' = chans (push_all q ms w) \<and>
    ready_conn E filled pieces R q self' w' t s bss \<and>
    (\<forall>u s' bss'. u \<noteq> t \<longrightarrow> s' \<noteq> s \<longrightarrow> ready_conn E filled pieces R q self w u s' bss' \<longrightarrow> ready_conn E filled pieces R q self' w' u s' bss')"
proof -
  let ?xs = "fst (parse_all parse bs)"
  from c obtain c where cc: "slab_get (e_listeners E) (listeners self) t = None" "conn_at E self t = Some c" "marker_ok filled c"
    "pieces (conn_sock c) w = bs # bss" and c: "conn_tx c = q" "conn_sock c = s" "unread filled c = []" "R \<le> room (e_ab E) c"
    by (auto simp: ready_conn_def)
  have xs: "parse_all parse (take (length bs) (unread filled c @ bs)) = (?xs, [])" using bs(1) c(3) by (simp add: prod_eq_iff)
  have "length bs \<le> room (e_ab E) c" "has_room (chans w (conn_tx c)) (length ?xs)" "length ([] :: u8 list) \<le> unat (ucast (read_buf_sz (config self)) :: u32)"
    using room bs(2) c by simp_all
  from piece_event [OF ok P cc this(1) xs this(2,3)] obtain self1 c1 w1 ms where
    ev: "readable E self t {} w = Some (Ret self1, w1)" "slab_get (e_conns E) (conns self1) = (slab_get (e_conns E) (conns self))(t \<mapsto> c1)" "self1 = self\<lparr>conns := conns self1\<rparr>"
    "conn_tx c1 = q" "conn_sock c1 = s" "marker_ok filled c1" "pieces s w1 = bss" "\<forall>s'. s' \<noteq> s \<longrightarrow> pieces s' w1 = pieces s' w"
    and ms: "map (\<lambda>m. item (pm_item m)) ms = ?xs" "\<forall>m\<in>set ms. pm_tok m = t" "chans w1 = chans (push_all q ms w)"
    and after: "if room (e_ab E) c - length bs < unat (ucast (min_read_buf_sz (config self)) :: u32)
     then unread filled c1 = [] \<and> room (e_ab E) c1 = unat (ucast (read_buf_sz (config self)) :: u32) - length ([] :: u8 list)
     else unread filled c1 = drop (length bs - length ([] :: u8 list)) (unread filled c @ bs) \<and> room (e_ab E) c1 = room (e_ab E) c - length bs"
    unfolding c(1,2) by (elim exE conjE) (rule that)
  have st: "unread filled c1 = []" "R \<le> room (e_ab E) c1" using after R c(3) by (auto split: if_split_asm)
  have self1: "listeners self1 = listeners self" "config self1 = config self"
    using arg_cong [OF ev(3), of listeners] arg_cong [OF ev(3), of config] by simp_all
  have "map (\<lambda>m. (pm_tok m, item (pm_item m))) ms = map (Pair t) ?xs" using ms(1,2) by (auto simp flip: ms(1))
  moreover have "ready_conn E filled pieces R q self1 w1 t s bss" using cc(1) ev st by (simp add: ready_conn_def self1)
  ultimately show ?thesis using ev ms(3) self1
    by (intro exI [of _ self1] exI [of _ w1] exI [of _ ms]) (auto simp: ready_conn_def)
qed

lemma whole_pieces:
  assumes ok: "reading_ok E filled pieces" and P: "window = iobuf_window (e_iobuf E)" "e_proto E = P" "\<And>b. fits b"
    and sk: "inj_on sk T"
  shows "\<forall>t\<in>T. ready_conn E filled pieces R q self w t (sk t) (str t) \<Longrightarrow>
    \<forall>t\<in>T. \<forall>bs\<in>set (str t). snd (parse_all parse bs) = [] \<and> length bs \<le> R \<Longrightarrow>
    set ts \<subseteq> T \<Longrightarrow> \<forall>t\<in>T. count_list ts t \<le> length (str t) \<Longrightarrow>
    R \<le> unat (ucast (min_read_buf_sz (config self)) :: u32) \<Longrightarrow> R \<le> unat (ucast (read_buf_sz (config self)) :: u32) \<Longrightarrow>
    has_room (chans w q) (length (serve (\<lambda>bs. fst (parse_all parse bs)) ts str)) \<Longrightarrow>
    \<exists>self' w' ms. events_loop (map (\<lambda>t. Readable t {}) ts) (EngineInner_Handler E) self w = Some (Ret (Inr self'), w') \<and>
      map (\<lambda>m. (pm_tok m, item (pm_item m))) ms = serve (\<lambda>bs. fst (parse_all parse bs)) ts str \<and> chans w' = chans (push_all q ms w) \<and>
      (\<forall>t\<in>T. pieces (sk t) w' = drop (count_list ts t) (str t))"
proof (induction ts arbitrary: self w str)
  case Nil
  then show ?case by (intro exI [of _ self] exI [of _ w] exI [of _ "[]"]) (auto simp: ready_conn_def)
next
  case (Cons t ts)
  let ?f = "\<lambda>bs. fst (parse_all parse bs)" and ?str = "str(t := tl (str t))"
  have tT: "t \<in> T" using Cons.prems(3) by simp
  with Cons.prems(4) obtain bs bss where b: "str t = bs # bss" by (cases "str t") fastforce+
  have c: "ready_conn E filled pieces R q self w t (sk t) (bs # bss)" using Cons.prems(1) tT b by fastforce
  have bs: "snd (parse_all parse bs) = []" "length bs \<le> R" using Cons.prems(2) tT b by auto
  have "has_room (chans w q) (length (?f bs))" using Cons.prems(7) b by (auto simp: has_room_def)
  from ready_event [OF ok P c bs Cons.prems(5,6) this] obtain self1 w1 ms where
    ev: "readable E self t {} w = Some (Ret self1, w1)" "config self1 = config self"
    and ms: "map (\<lambda>m. (pm_tok m, item (pm_item m))) ms = map (Pair t) (?f bs)" "chans w1 = chans (push_all q ms w)"
    and st: "ready_conn E filled pieces R q self1 w1 t (sk t) bss"
      "\<And>u s' bss'. u \<noteq> t \<Longrightarrow> s' \<noteq> sk t \<Longrightarrow> ready_conn E filled pieces R q self w u s' bss' \<Longrightarrow> ready_conn E filled pieces R q self1 w1 u s' bss'"
    by blast
  have ready: "\<forall>u\<in>T. ready_conn E filled pieces R q self1 w1 u (sk u) (?str u)"
  proof
    fix u assume u: "u \<in> T"
    show "ready_conn E filled pieces R q self1 w1 u (sk u) (?str u)"
    proof (cases "u = t")
      case False
      with u tT sk have "sk u \<noteq> sk t" by (auto dest: inj_onD)
      from st(2) [OF False this] Cons.prems(1) u False show ?thesis by simp
    qed (use st(1) b in simp)
  qed
  have len: "length ms = length (?f bs)" using arg_cong [OF ms(1), of length] by simp
  have room: "has_room (chans w1 q) (length (serve ?f ts ?str))"
    using has_room_push_all [of w q ms] Cons.prems(7) len b by (simp add: ms(2))
  have "set ts \<subseteq> T" "\<forall>u\<in>T. \<forall>bs\<in>set (?str u). snd (parse_all parse bs) = [] \<and> length bs \<le> R"
    using Cons.prems(2,3) tT b by auto
  note IH = Cons.IH [OF ready this(2,1) count_list_tl [OF Cons.prems(4)] Cons.prems(5,6) [folded ev(2)] room]
  obtain self' w' ms' where
    IH: "events_loop (map (\<lambda>t. Readable t {}) ts) (EngineInner_Handler E) self1 w1 = Some (Ret (Inr self'), w')"
    "map (\<lambda>m. (pm_tok m, item (pm_item m))) ms' = serve ?f ts ?str" "chans w' = chans (push_all q ms' w1)"
    "\<forall>u\<in>T. pieces (sk u) w' = drop (count_list ts u) (?str u)" using IH by blast
  have "\<forall>u\<in>T. pieces (sk u) w' = drop (count_list (t # ts) u) (str u)" using IH(4) b by auto
  then show ?case using events_loop_readable [OF ev(1), of ts] IH ms chans_push_all [OF ms(2), of ms'] b
    by (intro exI [of _ self'] exI [of _ w'] exI [of _ "ms @ ms'"]) simp
qed

text \<open>Pieces too small to hold a message: nothing is delivered, however many there are.\<close>

lemma small_pieces:
  assumes ok: "reading_ok E filled pieces" and P: "window = iobuf_window (e_iobuf E)" "e_proto E = P" "\<And>b. fits b"
    and short: "\<And>ys. length ys \<le> R \<Longrightarrow> parse ys = None"
  shows "slab_get (e_listeners E) (listeners self) t = None \<Longrightarrow> conn_at E self t = Some c \<Longrightarrow> marker_ok filled c \<Longrightarrow>
    pieces (conn_sock c) w = bss \<Longrightarrow> \<forall>bs\<in>set bss. length bs \<le> R \<Longrightarrow> R \<le> room (e_ab E) c \<Longrightarrow>
    R \<le> unat (ucast (min_read_buf_sz (config self)) :: u32) \<Longrightarrow> 2 * R \<le> unat (ucast (read_buf_sz (config self)) :: u32) \<Longrightarrow>
    has_room (chans w (conn_tx c)) 0 \<Longrightarrow>
    \<exists>self' w'. events_loop (replicate (length bss) (Readable t {})) (EngineInner_Handler E) self w = Some (Ret (Inr self'), w') \<and>
      chans w' = chans w \<and> pieces (conn_sock c) w' = []"
proof (induction bss arbitrary: self c w)
  case (Cons bs bss)
  let ?s = "take (length bs) (unread filled c @ bs)"
  have len: "length ?s = length bs" "length bs \<le> R" using Cons.prems(5) by simp_all
  then have xs: "parse_all parse ?s = ([], ?s)" using short [of ?s] by (simp add: parse_all_short)
  have "length bs \<le> room (e_ab E) c" "length ?s \<le> unat (ucast (read_buf_sz (config self)) :: u32)" using len Cons.prems(6,8) by simp_all
  with piece_event [OF ok P Cons.prems(1-4) _ xs, unfolded list.size, OF _ Cons.prems(9)] obtain self1 c1 w1 where
    ev: "readable E self t {} w = Some (Ret self1, w1)" "conn_at E self1 t = Some c1" "self1 = self\<lparr>conns := conns self1\<rparr>"
    "conn_tx c1 = conn_tx c" "conn_sock c1 = conn_sock c" "marker_ok filled c1" "pieces (conn_sock c) w1 = bss" "chans w1 = chans w"
    and st: "R \<le> room (e_ab E) c1"
    using len Cons.prems(7,8) by (force split: if_splits)
  have self1: "listeners self1 = listeners self" "config self1 = config self"
    using arg_cong [OF ev(3), of listeners] arg_cong [OF ev(3), of config] by simp_all
  from Cons.IH [of self1 c1 w1, OF _ ev(2,6) _ _ st] Cons.prems ev self1 obtain self' w' where
    "events_loop (replicate (length bss) (Readable t {})) (EngineInner_Handler E) self1 w1 = Some (Ret (Inr self'), w')"
    "chans w' = chans w1" "pieces (conn_sock c) w' = []" by auto
  with events_loop_readable [OF ev(1), of "replicate (length bss) t"] ev(8) show ?case by (intro exI [of _ self'] exI [of _ w']) simp
qed simp

end

section \<open>What the pieces decide\<close>

text \<open>With the protocol of the test, a piece is a list of numbers.\<close>

lemma u64_pieces:
  assumes ok: "reading_ok E filled pieces" "e_proto E = U64Protocol (e_iobuf E)" and sk: "inj_on sk T"
    and ready: "\<forall>t\<in>T. ready_conn E filled pieces R q self w t (sk t) (map (\<lambda>vs. concat (map to_bytes vs)) (str t))"
    and vs: "\<forall>t\<in>T. \<forall>vs\<in>set (str t). 8 * length vs \<le> R" and ts: "set ts \<subseteq> T" "\<forall>t\<in>T. count_list ts t \<le> length (str t)"
    and R: "R \<le> unat (ucast (min_read_buf_sz (config self)) :: u32)" "R \<le> unat (ucast (read_buf_sz (config self)) :: u32)"
    and room: "has_room (chans w q) (length (serve (\<lambda>vs. vs) ts str))"
  shows "\<exists>self' w' ms. events_loop (map (\<lambda>t. Readable t {}) ts) (EngineInner_Handler E) self w = Some (Ret (Inr self'), w') \<and>
    map (\<lambda>m. (pm_tok m, pm_item m)) ms = serve (\<lambda>vs. vs) ts str \<and> chans w' = chans (push_all q ms w) \<and>
    (\<forall>t\<in>T. pieces (sk t) w' = map (\<lambda>vs. concat (map to_bytes vs)) (drop (count_list ts t) (str t)))"
proof -
  let ?enc = "\<lambda>vs. concat (map to_bytes vs)" and ?f = "\<lambda>bs. fst (parse_all (fixed_parse 8 le_u64) bs)"
  have io: "iobuf_ok (e_iobuf E)" using ok(1) by (simp add: reading_ok_def)
  have parse: "parse_all (fixed_parse 8 le_u64) (?enc vs) = (vs, [])" for vs using u64_parse_all [of "[]" vs] by simp
  have len: "length (?enc vs) = 8 * length vs" for vs by (induction vs) (simp_all add: to_bytes_def)
  have all: "serve ?f ts (\<lambda>t. map ?enc (str t)) = serve (\<lambda>vs. vs) ts str" using serve_map [OF ts, of ?f ?enc] by (simp add: parse)
  have small: "\<forall>t\<in>T. \<forall>bs\<in>set (map ?enc (str t)). snd (parse_all (fixed_parse 8 le_u64) bs) = [] \<and> length bs \<le> R" using vs parse len by auto
  have count: "\<forall>t\<in>T. count_list ts t \<le> length (map ?enc (str t))" using ts(2) by simp
  from u64_stream.whole_pieces [where str = "\<lambda>t. map ?enc (str t)", OF ok(1) refl ok(2) io sk ready small ts(1) count R, unfolded all, OF room]
  show ?thesis by (simp add: drop_map)
qed

lemma u64_whole_pieces:
  assumes "reading_ok E filled pieces" "e_proto E = U64Protocol (e_iobuf E)"
    and "slab_get (e_listeners E) (listeners self) t = None" "conn_at E self t = Some c" "marker_ok filled c" "unread filled c = []"
    and "pieces (conn_sock c) w = map (\<lambda>vs. concat (map to_bytes vs)) vss" "\<forall>vs\<in>set vss. 8 * length vs \<le> R" "R \<le> room (e_ab E) c"
    and "R \<le> unat (ucast (min_read_buf_sz (config self)) :: u32)" "R \<le> unat (ucast (read_buf_sz (config self)) :: u32)"
    and "has_room (chans w (conn_tx c)) (length (concat vss))"
  shows "\<exists>self' w'. events_loop (replicate (length vss) (Readable t {})) (EngineInner_Handler E) self w = Some (Ret (Inr self'), w') \<and>
    chans w' = chans (push_all (conn_tx c) (map (\<lambda>v. ProtoMsg v t) (concat vss)) w) \<and> pieces (conn_sock c) w' = []"
proof -
  let ?T = "{t}" and ?sk = "\<lambda>_ :: Token. conn_sock c" and ?str = "\<lambda>_ :: Token. vss" and ?ts = "replicate (length vss) t"
  have ready: "\<forall>u\<in>?T. ready_conn E filled pieces R (conn_tx c) self w u (?sk u) (map (\<lambda>vs. concat (map to_bytes vs)) (?str u))"
    using assms(3-7,9) by (simp add: ready_conn_def)
  have one: "serve (\<lambda>vs. vs) ?ts ?str = map (Pair t) (concat vss)" by (simp add: serve_one)
  have count: "count_list ?ts t = length vss" by (induction vss) simp_all
  have "set ?ts \<subseteq> ?T" "\<forall>u\<in>?T. count_list ?ts u \<le> length (?str u)" "\<forall>u\<in>?T. \<forall>vs\<in>set (?str u). 8 * length vs \<le> R"
    "has_room (chans w (conn_tx c)) (length (serve (\<lambda>vs. vs) ?ts ?str))" "inj_on ?sk ?T"
    using assms(8,12) count by (auto simp: one)
  from u64_pieces [OF assms(1,2) this(5) ready this(3,1,2) assms(10,11) this(4)] one count obtain self' w' ms where
    r: "events_loop (map (\<lambda>t. Readable t {}) ?ts) (EngineInner_Handler E) self w = Some (Ret (Inr self'), w')"
    and ms: "map (\<lambda>m. (pm_tok m, pm_item m)) ms = map (Pair t) (concat vss)" "chans w' = chans (push_all (conn_tx c) ms w)" "pieces (conn_sock c) w' = []" by auto
  have "map snd (map (\<lambda>m. (pm_tok m, pm_item m)) ms) = concat vss" "map fst (map (\<lambda>m. (pm_tok m, pm_item m)) ms) = map (\<lambda>_. t) (concat vss)"
    unfolding ms(1) by (simp_all add: comp_def)
  then have "map pm_item ms = concat vss" "\<forall>m\<in>set ms. pm_tok m = t" by (auto simp: comp_def dest!: arg_cong [of _ _ set])
  from r ms(2,3) proto_msgs [OF this] show ?thesis by (intro exI [of _ self'] exI [of _ w']) simp
qed

text \<open>C4. Connections that share a queue keep their order: with events on the connections in any order, each read taking the next
  piece of its connection, the queue grows by messages such that those marked with a connection are exactly the numbers
  of the pieces it has read so far, in order. Nothing else is sent, and the pieces not read yet still wait.\<close>

theorem connections_keep_their_order:
  assumes "reading_ok E filled pieces" "e_proto E = U64Protocol (e_iobuf E)" "finite T" "inj_on sk T"
    and "\<forall>t\<in>T. ready_conn E filled pieces R q self w t (sk t) (map (\<lambda>vs. concat (map to_bytes vs)) (str t))"
    and "\<forall>t\<in>T. \<forall>vs\<in>set (str t). 8 * length vs \<le> R" "set ts \<subseteq> T" "\<forall>t\<in>T. count_list ts t \<le> length (str t)"
    and "R \<le> unat (ucast (min_read_buf_sz (config self)) :: u32)" "R \<le> unat (ucast (read_buf_sz (config self)) :: u32)"
    and "has_room (chans w q) (\<Sum>t\<in>T. length (concat (str t)))"
  shows "\<exists>self' w' ms. events_loop (map (\<lambda>t. Readable t {}) ts) (EngineInner_Handler E) self w = Some (Ret (Inr self'), w') \<and>
    chans w' = chans (push_all q ms w) \<and> (\<forall>m\<in>set ms. pm_tok m \<in> set ts) \<and>
    (\<forall>t\<in>T. map pm_item (filter (\<lambda>m. pm_tok m = t) ms) = concat (take (count_list ts t) (str t)) \<and>
      pieces (sk t) w' = map (\<lambda>vs. concat (map to_bytes vs)) (drop (count_list ts t) (str t)))"
proof -
  have "has_room (chans w q) (length (serve (\<lambda>vs. vs) ts str))"
    using assms(11) serve_length [OF assms(3,7,8), of "\<lambda>vs. vs"] by (auto simp: has_room_def)
  from u64_pieces [OF assms(1,2,4-10) this] obtain self' w' ms where
    r: "events_loop (map (\<lambda>t. Readable t {}) ts) (EngineInner_Handler E) self w = Some (Ret (Inr self'), w')" "chans w' = chans (push_all q ms w)"
    "\<forall>t\<in>T. pieces (sk t) w' = map (\<lambda>vs. concat (map to_bytes vs)) (drop (count_list ts t) (str t))"
    and ms: "map (\<lambda>m. (pm_tok m, pm_item m)) ms = serve (\<lambda>vs. vs) ts str" by blast
  have "map pm_item (filter (\<lambda>m. pm_tok m = t) ms) = concat (take (count_list ts t) (str t))" if "t \<in> T" for t
    using serve_of [of t ts str "\<lambda>vs. vs"] that assms(8) by (simp add: filter_map comp_def flip: ms)
  moreover have "pm_tok m \<in> set ts" if "m \<in> set ms" for m
  proof -
    have "(pm_tok m, pm_item m) \<in> set (serve (\<lambda>vs. vs) ts str)" using that by (simp flip: ms)
    then show ?thesis by (rule serve_tokens)
  qed
  ultimately show ?thesis using r by (intro exI [of _ self'] exI [of _ w'] exI [of _ ms]) simp
qed

text \<open>C36. A stream that arrives in small pieces is never delivered: when no piece holds as many bytes as a message, the handler
  looks each time at a stretch of the buffer that is only as long as the piece, finds no message in it, and keeps it (a buffer is
  replaced before it has less room than a message, and a new one has room for two).
  The events return, all bytes are taken off the socket, and however many there are, no message is ever sent.\<close>

theorem small_pieces_never_arrive:
  assumes "reading_ok E filled pieces" "e_proto E = BufProtocol (e_iobuf E) S" "0 < hs_size S"
    and "slab_get (e_listeners E) (listeners self) t = None" "conn_at E self t = Some c" "marker_ok filled c"
    and "pieces (conn_sock c) w = bss" "\<forall>bs\<in>set bss. length bs < unat (hs_size S)" "unat (hs_size S) \<le> room (e_ab E) c"
    and "unat (hs_size S) \<le> unat (ucast (min_read_buf_sz (config self)) :: u32)"
    and "2 * unat (hs_size S) \<le> unat (ucast (read_buf_sz (config self)) :: u32)" "has_room (chans w (conn_tx c)) 0"
  shows "\<exists>self' w'. events_loop (replicate (length bss) (Readable t {})) (EngineInner_Handler E) self w = Some (Ret (Inr self'), w') \<and>
    chans w' = chans w \<and> pieces (conn_sock c) w' = []"
proof -
  let ?R = "unat (hs_size S) - 1"
  have io: "iobuf_ok (e_iobuf E) \<and> 0 < hs_size S" using assms(1,3) by (simp add: reading_ok_def)
  have pos: "0 < unat (hs_size S)" using assms(3) by (simp add: word_less_nat_alt)
  then have short: "fixed_parse (unat (hs_size S)) (\<lambda>xs. xs) ys = None" if "length ys \<le> ?R" for ys using that by (simp add: fixed_parse_def)
  have small: "\<forall>bs\<in>set bss. length bs \<le> ?R" using assms(8) by auto
  from assms(9-11) have "?R \<le> room (e_ab E) c" "?R \<le> unat (ucast (min_read_buf_sz (config self)) :: u32)"
    "2 * ?R \<le> unat (ucast (read_buf_sz (config self)) :: u32)" by simp_all
  with buf_stream.small_pieces [OF assms(1) refl assms(2) io short assms(4-7) small _ _ _ assms(12)] show ?thesis by blast
qed

section \<open>A platform with pieces\<close>

text \<open>A buffer is a capacity and the bytes in it; a socket hands over its pieces one by one, as far as they fit.\<close>

record 'm pieces_world = "'m net_world" +
  waiting :: "nat \<Rightarrow> u8 list list"

definition piece_filled :: "nat \<times> u8 list \<Rightarrow> u8 list" where
  "piece_filled b = take 4294967295 (snd b)"

definition piece_room :: "nat \<times> u8 list \<Rightarrow> nat" where
  "piece_room b = min (fst b) 4294967295 - length (snd b)"

definition piece_ab :: "(nat \<times> u8 list, unit, u8 list) appendbuf" where
  "piece_ab =
     \<lparr>ab_new = (\<lambda>sz. (unat (ucast sz :: u32), [])), ab_new_with_allocator = (\<lambda>sz _. (unat (ucast sz :: u32), [])),
      ab_len = (\<lambda>b. of_nat (piece_room b)), ab_window = (\<lambda>_. []), ab_mut_window = (\<lambda>b. ([], \<lambda>_. b)), ab_advance = (\<lambda>b _. Inr b),
      ab_atomic_slice_pos_from_begin = (\<lambda>b pos n. Inr (take (unat n) (drop (unat pos) (piece_filled b)))),
      ab_fill = (\<lambda>(cap, bs) xs. (cap, bs @ xs))\<rparr>"

definition piece_read ::
  "nat \<Rightarrow> (nat \<times> u8 list) ReadBuf \<Rightarrow> ('m pieces_world, (io_error + usize NonBlock) \<times> (nat \<times> u8 list) ReadBuf) act" where
  "piece_read s b = (\<lambda>w. case waiting w s of
      [] \<Rightarrow> (Ret (Inr WouldBlock, b), w)
    | p # ps \<Rightarrow> let k = piece_room (rb_buf b); b' = ReadBuf (fst (rb_buf b), snd (rb_buf b) @ take k p) in
        (Ret (Inr (Ready (of_nat (length (take k p)))), b'), w\<lparr>waiting := (waiting w)(s := if length p \<le> k then ps else drop k p # ps)\<rparr>))"

definition piece_mio :: "('m pieces_world, nat, unit, unit, nat \<times> u8 list, u8 list, nat, nat, unit) mio" where
  "piece_mio =
     \<lparr>get_host_addresses = (\<lambda>_. ret (Inr [0])), tcp_v4 = ret (Inr 0), tcp_connect = (\<lambda>_ _ _. ret (Inr ())),
      tcp_bind = (\<lambda>_ _ _. ret (Inr ())), tcp_listen = (\<lambda>_ _. ret (Inr ())), tcp_accept = (\<lambda>_. ret (Inr (Ready 1))),
      tcp_write = (\<lambda>_ _ b. ret (Inr WouldBlock, b)), tcp_read = (\<lambda>s _. piece_read s),
      el_register_sock = (\<lambda>_ _ _. ret (Inr ())), el_register_acceptor = (\<lambda>_ _ _. ret (Inr ())),
      el_reregister_sock = (\<lambda>_ _ _. ret (Inr ())), el_reregister_acceptor = (\<lambda>_ _ _. ret (Inr ())),
      el_timeout = (\<lambda>_ _. ret (Inr 7)), el_clear_timeout = (\<lambda>_. ret True), el_channel = ()\<rparr>"

definition piece_env where
  "piece_env P = \<lparr>e_iobuf = sample_iobuf, e_ab = piece_ab, e_mio = piece_mio, e_proto = P,
     e_listeners = ranged_slab, e_timeouts = ranged_slab, e_conns = ranged_slab, e_call = (\<lambda>cb :: bool. ret (cb, cb))\<rparr>"

lemma piece_fields [simp]:
  "e_iobuf (piece_env P) = sample_iobuf" "e_ab (piece_env P) = piece_ab" "e_mio (piece_env P) = piece_mio" "e_proto (piece_env P) = P"
  "e_listeners (piece_env P) = ranged_slab" "e_conns (piece_env P) = ranged_slab"
  by (simp_all add: piece_env_def)

lemma piece_len: "unat (ab_len piece_ab b) = piece_room b"
  by (simp add: piece_ab_def piece_room_def unat_of_nat)

lemma piece_slices: "slices_exact piece_ab sample_iobuf piece_filled"
  by (auto simp: slices_exact_def piece_ab_def piece_filled_def)

lemma piece_buffers: "buffers_ok piece_ab piece_filled"
proof -
  have new: "rb_buf (new_buf piece_ab sz al) = (unat (ucast sz :: u32), [])" for sz al
    by (simp add: new_buf_def piece_ab_def split: option.split)
  have "ab_len piece_ab (unat (ucast sz :: u32), []) = ucast sz" for sz :: usize
    using unsigned_less [of "ucast sz :: u32", where ?'a = nat] by (simp add: word_unat_eq_iff piece_len) (simp add: piece_room_def)
  moreover have "piece_filled (ab_fill piece_ab b bs) = bs \<and> piece_room (ab_fill piece_ab b bs) = piece_room b - length bs"
    if "piece_filled b = []" "length bs \<le> piece_room b" for b bs
    using that by (cases b) (auto simp: piece_filled_def piece_room_def piece_ab_def)
  ultimately show ?thesis by (simp add: buffers_ok_def piece_len new) (simp add: piece_filled_def)
qed

lemma piece_read_next:
  assumes "waiting w s = bs # bss" "length bs \<le> piece_room (rb_buf b)"
  shows "\<exists>b' w'. piece_read s b w = (Ret (Inr (Ready (of_nat (length bs))), b'), w') \<and> chans w' = chans w \<and>
    piece_filled (rb_buf b') = piece_filled (rb_buf b) @ bs \<and> waiting w' s = bss \<and> (\<forall>s'. s' \<noteq> s \<longrightarrow> waiting w' s' = waiting w s') \<and> piece_room (rb_buf b') = piece_room (rb_buf b) - length bs"
  using assms by (auto simp: piece_read_def piece_filled_def piece_room_def Let_def)

lemma piece_pieces: "pieces_ok piece_ab piece_mio piece_filled (\<lambda>s w. waiting w s)"
  by (simp add: pieces_ok_def piece_len) (simp add: piece_mio_def set_chan_def piece_read_next)

lemma piece_reading: "reading_ok (piece_env P) piece_filled (\<lambda>s w. waiting w s)"
  by (simp add: reading_ok_def piece_slices piece_buffers piece_pieces ranged_slab_ok)

definition piece_conn :: "(nat, unit, nat \<times> u8 list, u8 list) Connection" where
  "piece_conn = \<lparr>conn_sock = 0, outbuf = [], interest = {HUP}, conn_tx = 0, marker = 0, proto = (), conn_buf = ReadBuf (1536, [])\<rparr>"

definition piece_engine where
  "piece_engine = \<lparr>listeners = (0, 128, 0, []), timeouts = (129, 255, 0, []), conns = (256, 8, 1, [(Token 256, piece_conn)]), config = sample_config\<rparr>"

definition piece_world :: "(nat \<Rightarrow> u8 list list) \<Rightarrow> 'm pieces_world" where
  "piece_world bss = \<lparr>stdout = [], chans = (\<lambda>_. sync_queue 4), next_chan = 1, waiting = bss\<rparr>"

lemma piece_facts:
  "slab_get (e_listeners (piece_env P)) (listeners piece_engine) (Token 256) = None" "conn_at (piece_env P) piece_engine (Token 256) = Some piece_conn"
  "marker_ok piece_filled piece_conn" "unread piece_filled piece_conn = []" "room piece_ab piece_conn = 1536"
  "conn_tx piece_conn = 0" "chans (piece_world bss) q = sync_queue 4" "waiting (piece_world bss) (conn_sock piece_conn) = bss 0"
  "config piece_engine = sample_config"
  by (simp_all add: piece_engine_def ranged_slab_def piece_conn_def marker_ok_def unread_def piece_filled_def room_def piece_len piece_world_def)
    (simp add: piece_room_def)

theorem small_pieces_never_arrive_witness:
  "\<exists>self' w'. events_loop [Readable (Token 256) {}, Readable (Token 256) {}, Readable (Token 256) {}]
      (EngineInner_Handler (piece_env (BufProtocol sample_iobuf (protocol_size 4)))) piece_engine (piece_world (\<lambda>_. [[1, 2, 3], [4, 5], [6, 7, 8]])) =
      Some (Ret (Inr self'), w') \<and> waiting w' 0 = [] \<and> ch_buf (chans w' 0) = []"
  (is "\<exists>self' w'. events_loop _ (EngineInner_Handler ?E) _ (piece_world (\<lambda>_. ?bss)) = _ \<and> _")
proof -
  let ?w = "piece_world (\<lambda>_. ?bss) :: u8 list ProtoMsg pieces_world" and ?S = "protocol_size 4"
  have P: "e_proto ?E = BufProtocol (e_iobuf ?E) ?S" "0 < hs_size ?S" by (simp_all add: protocol_size_def)
  have room: "has_room (chans ?w (conn_tx piece_conn)) 0" unfolding piece_facts by (simp add: has_room_def sync_queue_def)
  have small: "\<forall>bs\<in>set ?bss. length bs < unat (hs_size ?S)" by (simp add: protocol_size_def)
  have sizes: "unat (hs_size ?S) \<le> room (e_ab ?E) piece_conn" "unat (hs_size ?S) \<le> unat (ucast (min_read_buf_sz (config piece_engine)) :: u32)"
    "2 * unat (hs_size ?S) \<le> unat (ucast (read_buf_sz (config piece_engine)) :: u32)"
    by (simp_all add: piece_facts(5,9) sample_config_def protocol_size_def)
  from small_pieces_never_arrive [OF piece_reading P piece_facts(1-3) piece_facts(8) small sizes room] obtain self' w' where
    "events_loop (replicate (length ?bss) (Readable (Token 256) {})) (EngineInner_Handler ?E) piece_engine ?w = Some (Ret (Inr self'), w')"
    "chans w' = chans ?w" "waiting w' (conn_sock piece_conn) = []" by blast
  then show ?thesis by (intro exI [of _ self'] exI [of _ w']) (simp add: piece_facts sync_queue_def piece_conn_def)
qed

text \<open>Two connections on one queue, with events in turn; one piece is not read.\<close>

definition pair_engine where
  "pair_engine = piece_engine\<lparr>conns := (256, 8, 2, [(Token 257, piece_conn\<lparr>conn_sock := 1\<rparr>), (Token 256, piece_conn)])\<rparr>"

definition pair_str :: "Token \<Rightarrow> u64 list list" where
  "pair_str t = (if t = Token 256 then [[1], [2]] else if t = Token 257 then [[7], [8]] else [])"

abbreviation pair_world :: "u64 ProtoMsg pieces_world" where
  "pair_world \<equiv> piece_world (\<lambda>s. map (\<lambda>vs. concat (map to_bytes vs)) (if s = 0 then [[1], [2]] else [[7], [8]]))"

lemma pair_facts:
  "slab_get ranged_slab (conns pair_engine) (Token 256) = Some piece_conn"
  "slab_get ranged_slab (conns pair_engine) (Token 257) = Some (piece_conn\<lparr>conn_sock := Suc 0\<rparr>)"
  "slab_get ranged_slab (listeners pair_engine) t = None" "conn_tx piece_conn = 0" "conn_sock piece_conn = 0"
  "marker_ok piece_filled piece_conn" "marker_ok piece_filled (piece_conn\<lparr>conn_sock := s\<rparr>)"
  "unread piece_filled piece_conn = []" "unread piece_filled (piece_conn\<lparr>conn_sock := s\<rparr>) = []"
  "room piece_ab piece_conn = 1536" "room piece_ab (piece_conn\<lparr>conn_sock := s\<rparr>) = 1536"
  by (simp_all add: pair_engine_def piece_engine_def ranged_slab_def piece_conn_def marker_ok_def unread_def piece_filled_def room_def piece_len)
    (simp_all add: piece_room_def)

theorem connections_keep_their_order_witness:
  "\<exists>self' w' ms. events_loop (map (\<lambda>t. Readable t {}) [Token 256, Token 257, Token 256]) (EngineInner_Handler (piece_env (U64Protocol sample_iobuf)))
      pair_engine pair_world = Some (Ret (Inr self'), w') \<and> chans w' = chans (push_all 0 ms pair_world) \<and>
    map pm_item (filter (\<lambda>m. pm_tok m = Token 256) ms) = [1, 2] \<and> map pm_item (filter (\<lambda>m. pm_tok m = Token 257) ms) = [7]"
  (is "\<exists>self' w' ms. events_loop _ (EngineInner_Handler ?E) _ _ = _ \<and> _")
proof -
  let ?T = "{Token 256, Token 257}" and ?ts = "[Token 256, Token 257, Token 256]" and ?sk = "\<lambda>t. if t = Token 256 then 0 else 1 :: nat"
  have P: "e_proto ?E = U64Protocol (e_iobuf ?E)" by simp
  have ready: "\<forall>t\<in>?T. ready_conn ?E piece_filled (\<lambda>s w. waiting w s) 16 0 pair_engine pair_world t (?sk t)
      (map (\<lambda>vs. concat (map to_bytes vs)) (pair_str t))"
    by (simp add: ready_conn_def pair_facts pair_str_def piece_world_def)
  have side: "finite ?T" "inj_on ?sk ?T" "\<forall>t\<in>?T. \<forall>vs\<in>set (pair_str t). 8 * length vs \<le> 16" "set ?ts \<subseteq> ?T"
    "\<forall>t\<in>?T. count_list ?ts t \<le> length (pair_str t)" by (auto simp: pair_str_def)
  have cfg: "16 \<le> unat (ucast (min_read_buf_sz (config pair_engine)) :: u32)" "16 \<le> unat (ucast (read_buf_sz (config pair_engine)) :: u32)"
    by (simp_all add: pair_engine_def piece_facts(9) sample_config_def)
  have room: "has_room (chans pair_world 0) (\<Sum>t\<in>?T. length (concat (pair_str t)))"
    unfolding piece_facts by (simp add: has_room_def sync_queue_def pair_str_def)
  from connections_keep_their_order [OF piece_reading P side(1,2) ready side(3-5) cfg room] obtain self' w' ms where
    r: "events_loop (map (\<lambda>t. Readable t {}) ?ts) (EngineInner_Handler ?E) pair_engine pair_world = Some (Ret (Inr self'), w')"
    "chans w' = chans (push_all 0 ms pair_world)"
    and ms: "\<forall>t\<in>?T. map pm_item (filter (\<lambda>m. pm_tok m = t) ms) = concat (take (count_list ?ts t) (pair_str t))" by blast
  have "map pm_item (filter (\<lambda>m. pm_tok m = Token 256) ms) = [1, 2]" "map pm_item (filter (\<lambda>m. pm_tok m = Token 257) ms) = [7]"
    using ms by (simp_all add: pair_str_def)
  with r show ?thesis by (intro exI conjI)
qed

end
