(* ===== verification/Rx_Accept.thy ===== *)
theory Rx_Accept
  imports Rx_Oneway Rx_Read_Events
begin

text \<open>
  A listener and the connections it accepts (\<^verbatim>\<open>src/reactor.rs\<close>): a new connection gets a copy of the listener's sender, so
  that everything it reads goes to the queue \<^verbatim>\<open>listen\<close> has returned. With the set-up of \<^verbatim>\<open>oneway_test\<close> (\<^verbatim>\<open>src/net_stream.rs\<close>)
  this is the way of its numbers from the socket to the end of the engine.
\<close>

section \<open>Accepting\<close>

text \<open>An acceptor hands over a socket on which the pieces \<open>bss\<close> will arrive; the calls that register it touch no queue.\<close>

definition accepts_ok ::
  "(('m, 'z) world_scheme, 's, 'l, 'c, 'a, 'b, 'ip, 'h, 'q) mio \<Rightarrow> ('s \<Rightarrow> ('m, 'z) world_scheme \<Rightarrow> u8 list list) \<Rightarrow> u8 list list \<Rightarrow> bool" where
  "accepts_ok M pieces bss \<longleftrightarrow>
     (\<forall>a w. \<exists>s w'. tcp_accept M a w = (Ret (Inr (Ready s)), w') \<and> chans w' = chans w \<and> pieces s w' = bss) \<and>
     (\<forall>s t i w. \<exists>w'. el_register_sock M s t i w = (Ret (Inr ()), w') \<and> chans w' = chans w \<and> (\<forall>s'. pieces s' w' = pieces s' w)) \<and>
     (\<forall>a t i w. \<exists>w'. el_reregister_acceptor M a t i w = (Ret (Inr ()), w') \<and> chans w' = chans w \<and> (\<forall>s'. pieces s' w' = pieces s' w)) \<and>
     (\<forall>s q ch w. pieces s (set_chan q ch w) = pieces s w)"

lemma accept_event:
  assumes slabs: "slab_ok (e_listeners E)" "slab_ok (e_conns E)" and acc: "accepts_ok (e_mio E) pieces bss"
    and lt: "slab_get (e_listeners E) (listeners self) lt = Some (a, tx)"
    and free: "\<And>v. \<exists>t cs. slab_insert (e_conns E) (conns self) v = (Inr t, cs)"
  shows "\<exists>self' w' t s. readable E self lt {} w = Some (Ret self', w') \<and> self' = self\<lparr>conns := conns self'\<rparr> \<and>
    conn_at E self' t = Some (Connection_new (e_proto E) s tx (new_buf (e_ab E) (read_buf_sz (config self)) (config_allocator (config self)))) \<and>
    chans w' = chans (clone_sender tx w) \<and> pieces s w' = bss"
proof -
  from acc obtain s w1 where s: "tcp_accept (e_mio E) a w = (Ret (Inr (Ready s)), w1)" "chans w1 = chans w" "pieces s w1 = bss"
    unfolding accepts_ok_def by metis
  let ?c = "Connection_new (e_proto E) s tx (new_buf (e_ab E) (read_buf_sz (config self)) (config_allocator (config self)))"
  from free obtain t cs where ins: "slab_insert (e_conns E) (conns self) ?c = (Inr t, cs)" by blast
  from slab_insert_get [OF slabs(2) ins] have get: "slab_get (e_conns E) cs t = Some ?c" by auto
  from acc obtain w2 where w2: "el_register_sock (e_mio E) s t {READABLE, HUP} (clone_sender tx w1) = (Ret (Inr ()), w2)"
    "chans w2 = chans (clone_sender tx w1)" "pieces s w2 = pieces s (clone_sender tx w1)" unfolding accepts_ok_def by metis
  from acc obtain w3 where w3: "el_reregister_acceptor (e_mio E) a lt {READABLE} w2 = (Ret (Inr ()), w3)"
    "chans w3 = chans w2" "pieces s w3 = pieces s w2" unfolding accepts_ok_def by metis
  have sock: "conn_sock ?c = s" by (simp add: Connection_new_def)
  have "accept_connection E self tx s w1 = (Ret (self\<lparr>conns := cs\<rparr>), w2)"
    using ins get w2(1) by (simp add: accept_connection_def abind_def unwrap_option_def unwrap_io_def sock Let_def)
  then have "readable_listener E self lt w = (Ret (self\<lparr>conns := cs\<rparr>), w3)"
    using lt s(1) w3(1) by (simp add: readable_listener_def abind_def unwrap_option_def unwrap_io_def)
  moreover have "slab_contains (e_listeners E) (listeners self) lt" using slabs(1) lt by (simp add: slab_ok_def)
  ultimately have "readable E self lt {} w = Some (Ret (self\<lparr>conns := cs\<rparr>), w3)" by (simp add: readable_def)
  moreover have "chans w3 = chans (clone_sender tx w)" by (rule ext) (simp add: w3(2) w2(2) clone_sender_def s(2))
  moreover have "pieces s w3 = bss" using acc s(3) by (simp add: w3(3) w2(3) clone_sender_def accepts_ok_def)
  ultimately show ?thesis using get by (intro exI [of _ "self\<lparr>conns := cs\<rparr>"] exI [of _ w3] exI [of _ t] exI [of _ s]) simp
qed

text \<open>After \<^verbatim>\<open>listen\<close> the listener is in the slab with the sender of the queue that was returned, and stays there.\<close>

lemma listen_entry:
  assumes "slab_ok (e_listeners E)" "EngineInner_listen E self addr port w = (Ret (Inr rx, self'), w')"
  shows "\<exists>lt a. slab_get (e_listeners E) (listeners self') lt = Some (a, rx)"
  using assms(2) by (auto simp: EngineInner_listen_def Let_def sync_channel_def elim!: abind_RetE split: prod.split_asm sum.split_asm)
    (drule slab_insert_get [OF assms(1)], auto)

lemma listen_config: "EngineInner_listen E self addr port w = (Ret (r, self'), w') \<Longrightarrow> config self' = config self"
  by (auto simp: EngineInner_listen_def Let_def elim!: abind_RetE split: prod.split_asm sum.split_asm)

lemma connect_listeners:
  "EngineInner_connect E self host port w = (Ret (r, self'), w') \<Longrightarrow> listeners self' = listeners self \<and> config self' = config self"
  by (auto simp: EngineInner_connect_def Let_def elim!: abind_RetE split: prod.split_asm sum.split_asm)

lemma timeout_listeners:
  "NetEngine_timeout E self d cb w = (Ret self', w') \<Longrightarrow> listeners self' = listeners self \<and> config self' = config self"
  by (auto simp: NetEngine_timeout_def elim!: abind_RetE split: prod.split_asm sum.split_asm)

section \<open>The engine of the test\<close>

lemma oneway_setup_steps:
  assumes "oneway_setup E el_configured cb w0 = (Ret (ne, srv_rx, cl), w)"
  obtains ne0 w1 ne1 w2 r2 ne2 w3 where "NetEngine_new E el_configured w0 = (Ret ne0, w1)"
    "NetEngine_listen E ne0 ''127.0.0.1'' 10000 w1 = (Ret (Inr srv_rx, ne1), w2)"
    "NetEngine_connect E ne1 ''127.0.0.1'' 10000 w2 = (Ret (r2, ne2), w3)"
    "NetEngine_timeout E ne2 500 cb w3 = (Ret ne, w)"
  using assms by (auto simp: oneway_setup_def unwrap_net_def elim!: abind_RetE split: sum.split_asm)

lemma oneway_setup_listener:
  assumes "slab_ok (e_listeners E)" "oneway_setup E el_configured cb w0 = (Ret (ne, srv_rx, cl), w)"
  shows "\<exists>lt a. slab_get (e_listeners E) (listeners ne) lt = Some (a, srv_rx)"
    "read_buf_sz (config ne) = 1536" "min_read_buf_sz (config ne) = 64"
proof -
  obtain ne0 w1 ne1 w2 r2 ne2 w3 where new: "NetEngine_new E el_configured w0 = (Ret ne0, w1)"
    and listen: "NetEngine_listen E ne0 ''127.0.0.1'' 10000 w1 = (Ret (Inr srv_rx, ne1), w2)"
    and connect: "NetEngine_connect E ne1 ''127.0.0.1'' 10000 w2 = (Ret (r2, ne2), w3)"
    and timeout: "NetEngine_timeout E ne2 500 cb w3 = (Ret ne, w)"
    by (rule oneway_setup_steps [OF assms(2)])
  from new have ne0: "read_buf_sz (config ne0) = 1536 \<and> min_read_buf_sz (config ne0) = 64"
    by (auto simp: NetEngine_new_def NetEngine_configured_def EngineInner_new_def elim!: abind_RetE)
  have same: "listeners ne = listeners ne1" "config ne = config ne1"
    using connect_listeners [OF connect [unfolded NetEngine_connect_def]] timeout_listeners [OF timeout] by simp_all
  show "\<exists>lt a. slab_get (e_listeners E) (listeners ne) lt = Some (a, srv_rx)"
    using listen_entry [OF assms(1) listen [unfolded NetEngine_listen_def]] same(1) by simp
  show "read_buf_sz (config ne) = 1536" "min_read_buf_sz (config ne) = 64"
    using listen_config [OF listen [unfolded NetEngine_listen_def]] ne0 same(2) by simp_all
qed

text \<open>\<^verbatim>\<open>oneway_test\<close> is a run of the engine, and its server's queue one of those the engine has made.\<close>

lemma oneway_setup_reach:
  assumes "keeps (el_configured (event_loop_config 524288 100))" "\<forall>q<next_chan w0. ch_senders (chans w0 q) = 0"
    and "oneway_setup E el_configured cb w0 = (Ret (ne, srv_rx, cl), w)" "env_private E"
  shows "\<exists>cfg w1. (\<forall>q<next_chan w1. ch_senders (chans w1 q) = 0) \<and> engine_reach E cfg w1 (ne, w) \<and> srv_rx < next_chan w"
proof -
  obtain ne0 w1 ne1 w2 r2 ne2 w3 where
    new: "NetEngine_new E el_configured w0 = (Ret ne0, w1)"
    and listen: "NetEngine_listen E ne0 ''127.0.0.1'' 10000 w1 = (Ret (Inr srv_rx, ne1), w2)"
    and connect: "NetEngine_connect E ne1 ''127.0.0.1'' 10000 w2 = (Ret (r2, ne2), w3)"
    and timeout: "NetEngine_timeout E ne2 500 cb w3 = (Ret ne, w)"
    by (rule oneway_setup_steps [OF assms(3)])
  obtain cfg where ne0: "ne0 = EngineInner_new E cfg" and "end_state w1 = end_state w0"
    using new assms(1) by (auto simp: NetEngine_new_def NetEngine_configured_def unwrap_io_def elim!: abind_RetE split: sum.split_asm dest: keeps_state)
  then have w1: "\<forall>q<next_chan w1. ch_senders (chans w1 q) = 0" using assms(2) by (auto simp: end_state_def fun_eq_iff)
  have steps: "engine_step E (ne1, w2) (ne2, w3)" "engine_step E (ne2, w3) (ne, w)"
    by (rule engine_step.connect [OF connect], rule engine_step.timeout [OF timeout])
  have "engine_reach E cfg w1 (ne, w)"
    by (rule engine_reach.step [OF engine_reach.step [OF engine_reach.step [OF engine_reach.start
        engine_step.listen [OF listen [unfolded ne0]]] steps(1)] steps(2)])
  moreover have "srv_rx < next_chan w2" using listened_queue [OF assms(4)] listen by (auto simp: NetEngine_listen_def)
  ultimately show ?thesis using w1 engine_step_grows [OF assms(4) steps(1)] engine_step_grows [OF assms(4) steps(2)] by auto
qed

text \<open>One accepted connection and the events on it: the numbers of all pieces are in the queue that \<^verbatim>\<open>listen\<close> returned.\<close>

lemma accepted_numbers:
  assumes ok: "reading_ok E filled pieces" "e_proto E = U64Protocol (e_iobuf E)" "slab_in_range (e_listeners E)" "slab_in_range (e_conns E)"
    and acc: "accepts_ok (e_mio E) pieces (map (\<lambda>vs. concat (map to_bytes vs)) vss)"
    and reach: "engine_reach E cfg w0 (self, w)" and lt: "slab_get (e_listeners E) (listeners self) lt = Some (a, tx)"
    and free: "\<And>v. \<exists>t cs. slab_insert (e_conns E) (conns self) v = (Inr t, cs)"
    and R: "\<forall>vs\<in>set vss. 8 * length vs \<le> R" "R \<le> unat (ucast (min_read_buf_sz (config self)) :: u32)" "R \<le> unat (ucast (read_buf_sz (config self)) :: u32)"
    and room: "has_room (chans w tx) (length (concat vss))"
  shows "\<exists>t self' w'. events_loop (Readable lt {} # replicate (length vss) (Readable t {})) (EngineInner_Handler E) self w = Some (Ret (Inr self'), w') \<and>
    ch_buf (chans w' tx) = ch_buf (chans w tx) @ map (\<lambda>v. ProtoMsg v t) (concat vss)"
proof -
  from ok(1) have slabs: "slab_ok (e_listeners E)" "slab_ok (e_conns E)" and bufs: "buffers_ok (e_ab E) filled" by (simp_all add: reading_ok_def)
  obtain self1 w1 t s where ev: "readable E self lt {} w = Some (Ret self1, w1)" "self1 = self\<lparr>conns := conns self1\<rparr>"
    and c: "conn_at E self1 t = Some (Connection_new (e_proto E) s tx (new_buf (e_ab E) (read_buf_sz (config self)) (config_allocator (config self))))"
      (is "_ = Some ?c") and w1: "chans w1 = chans (clone_sender tx w)" "pieces s w1 = map (\<lambda>vs. concat (map to_bytes vs)) vss"
    using accept_event [OF slabs acc lt free, of w] by blast
  have cfg: "config self1 = config self" using arg_cong [OF ev(2), of config] by simp
  have step: "handle E (Readable lt {}) self w = Some (Ret self1, w1)" using ev(1) by (simp add: handle_def)
  have "engine_reach E cfg w0 (self1, w1)" by (rule engine_reach.step [OF reach engine_step.event [OF step]])
  from connection_no_listener(2) [OF ok(3,4) this] c have nl: "slab_get (e_listeners E) (listeners self1) t = None" by (cases t) auto
  have conn: "conn_sock ?c = s" "conn_tx ?c = tx" "marker_ok filled ?c" "unread filled ?c = []"
    "room (e_ab E) ?c = unat (ucast (read_buf_sz (config self)) :: u32)"
    using bufs by (simp_all add: Connection_new_def marker_ok_def unread_def room_def buffers_ok_def)
  have "has_room (chans w1 (conn_tx ?c)) (length (concat vss))" using room by (simp add: conn w1(1) clone_sender_def has_room_def)
  with u64_whole_pieces [OF ok(1,2) nl c conn(3,4), of w1 vss R] w1(2) R conn(1,5) cfg obtain self' w' where
    r: "events_loop (replicate (length vss) (Readable t {})) (EngineInner_Handler E) self1 w1 = Some (Ret (Inr self'), w')"
    "chans w' = chans (push_all tx (map (\<lambda>v. ProtoMsg v t) (concat vss)) w1)" by (auto simp: conn(2))
  have "ch_buf (chans w' tx) = ch_buf (chans w tx) @ map (\<lambda>v. ProtoMsg v t) (concat vss)"
    by (simp add: r(2) push_all_def w1(1) clone_sender_def)
  with r(1) step show ?thesis by (intro exI [of _ t] exI [of _ self'] exI [of _ w']) (simp add: pbind_Ret)
qed

lemma drop_engine_buf: "ch_buf (chans (drop_engine E self w) q) = ch_buf (chans w q)"
proof -
  have "ch_buf (chans (fold drop_sender qs w) q) = ch_buf (chans w q)" for qs
    by (induction qs arbitrary: w) (simp_all add: drop_sender_def)
  then show ?thesis by (simp only: drop_engine_def)
qed

lemma NetEngine_run_returns:
  assumes "el_run (EngineInner_Handler E) self w = Some (Ret (Inr self1), w1)"
  shows "NetEngine_run E el_run self w = Some (Ret (), drop_engine E self1 w1)"
  using assms by (simp add: NetEngine_run_def run_handler_def pbind_def)

end
