(* ===== verification/Spec2Isabelle.thy ===== *)
theory Spec2Isabelle
  imports Rx_Threads Rx_Mmap_File Rx_Memberfn Rx_Scheduler Rx_Registration Rx_Timeouts Rx_Backpressure Rx_Accept
begin

text \<open>
  A verification development for the RxRust crate (\<^verbatim>\<open>src/src/\<close>; file names below are relative to it).

  \<^bold>\<open>The program.\<close> RxRust is a library of push-based streams. A \<^verbatim>\<open>Publisher\<close> pulls items from a source and hands
  them to its \<^verbatim>\<open>Subscriber\<close>; a processor is both, so that chains are built with \<^verbatim>\<open>subscribe\<close> and driven by \<^verbatim>\<open>run\<close> on the
  publisher at the head (\<^verbatim>\<open>reactive.rs\<close>). The parts are the publishers (\<^verbatim>\<open>publisherimpl.rs\<close>), the ten processors
  (\<^verbatim>\<open>processorimpl.rs\<close>, with the method macros of \<^verbatim>\<open>default_macros.rs\<close>), the ends of chains (\<^verbatim>\<open>subscriber.rs\<close>), the queues
  that join chains across threads (\<^verbatim>\<open>sendable.rs\<close>), a network engine on the event loop of \<^verbatim>\<open>mio\<close> that cuts what it
  reads into messages and writes what it is sent (\<^verbatim>\<open>reactor.rs\<close>, \<^verbatim>\<open>protocol.rs\<close>, \<^verbatim>\<open>net_stream.rs\<close>), a lock-free
  allocator in a memory-mapped file (\<^verbatim>\<open>mmap_allocator.rs\<close>), a loop with a fixed rate (\<^verbatim>\<open>scheduler.rs\<close>), bound methods
  (\<^verbatim>\<open>memberfn.rs\<close>) and the test in the crate root (\<^verbatim>\<open>lib.rs\<close>).

  \<^bold>\<open>How code is modelled.\<close> A function that touches the world is an action, from a world to an outcome and a new
  world; the outcome is \<open>Ret\<close> a value, \<open>Panic\<close> a message, or \<open>Blocked\<close> for a thread that waits. \<open>abind\<close> puts actions
  in sequence. Code with a loop has the type \<open>pact\<close>, with an option around: \<open>None\<close> is a loop that never ends.
  \<open>loop_act\<close>, a \<^verbatim>\<open>partial_function\<close>, is the loop of the language and \<open>for_range\<close> the bounded one; there is no fuel,
  and that a loop returns is proved as such. Structs are records, enums datatypes, errors sums, machine integers
  words (the compiler of the crate wraps around). A trait object is a record of its methods and a state. The
  world holds the standard output and the queues, and is open at the end, so that a part can add what it needs:
  memory for the allocator, sockets for the engine.

  \<^bold>\<open>The theories.\<close>

  \<^item> \<^verbatim>\<open>Rx_Prelude\<close>: outcomes, actions, loops with their induction rules, assertions. \<^verbatim>\<open>Rx_Channel\<close>: the queues of
    \<^verbatim>\<open>std::sync::mpsc\<close>, bounded and not, with the numbers of their senders, and \<^verbatim>\<open>sendable.rs\<close>.

  \<^item> \<^verbatim>\<open>Rx_Reactive\<close>: the two traits, their default methods, \<open>run\<close>. The locale \<open>Subscriber_refines\<close> is what a publisher
    relies on: the methods of a subscriber return and act on an abstract state as three functions say.

  \<^item> \<^verbatim>\<open>Rx_Subscribers\<close>: \<^verbatim>\<open>StdoutSubscriber\<close>, \<^verbatim>\<open>Decoupler\<close>, \<^verbatim>\<open>Collect\<close>, each an interpretation of \<open>Subscriber_refines\<close>.
    \<^verbatim>\<open>Rx_Processors\<close>: the ten processors. \<^verbatim>\<open>Rx_Stages\<close>: the locale \<open>stage\<close>, the shape eight of them share; one proof
    carries a contract through any stage, and gives what a batch of items becomes behind it. \<^verbatim>\<open>Rx_Publishers\<close>: the
    publishers, and \<open>run\<close> on them over any subscriber that meets its contract.

  \<^item> \<^verbatim>\<open>Rx_Pipelines\<close>: whole chains. \<^verbatim>\<open>Rx_Memberfn\<close>: bound methods, as arguments of \<^verbatim>\<open>Map\<close>.

  \<^item> \<^verbatim>\<open>Rx_Queue_Threads\<close>: two threads joined by a queue, as a step relation over all schedules. The locales \<open>producer\<close> and
    \<open>consumer\<close> say what the loops of the threads do to the queue; \<open>queue_threads\<close> proves from them that there is no
    deadlock, an end after a number of rounds, and everything in order, whether the queue is bounded or not. Any
    chain behind a \<^verbatim>\<open>Coupler\<close> that never declines is a consumer (\<open>coupled\<close>). \<^verbatim>\<open>Rx_Threads\<close>: the test of \<^verbatim>\<open>lib.rs\<close>,
    its chains as such threads, and the test as it is written.

  \<^item> \<^verbatim>\<open>Rx_Mmap\<close>: \<^verbatim>\<open>MappedRegion\<close>, with \<^verbatim>\<open>allocate\<close> as the loop of the source and as single accesses to memory that
    interleave with other calls (\<open>alloc_step\<close>): blocks are disjoint, the calls can be put in an order that gives the
    same results, and they all return after \<open>n\<^sup>2 + 4 n\<close> accesses. \<^verbatim>\<open>Rx_Mmap_File\<close>: the file behind the region; what is
    in it survives \<^verbatim>\<open>drop\<close> and \<^verbatim>\<open>load\<close>, and the two tests of the source pass.

  \<^item> \<^verbatim>\<open>Rx_Scheduler\<close>: \<open>fixed_loop\<close>, its end and its rate, with the sleeps that signals cut short.

  \<^item> \<^verbatim>\<open>Rx_Net_Stream\<close>: messages, \<^verbatim>\<open>NetStream\<close>, \<^verbatim>\<open>NetStreamer\<close>, the receiving half of \<^verbatim>\<open>oneway_test\<close>. \<^verbatim>\<open>Rx_Protocol\<close>: the
    protocols, and the locale \<open>framing\<close> with its two interpretations.

  \<^item> \<^verbatim>\<open>Rx_Reactor\<close>: all of \<^verbatim>\<open>reactor.rs\<close>: buffers, connections, \<^verbatim>\<open>EngineInner\<close> with its four handlers, \<^verbatim>\<open>NetEngine\<close>.
    \<^verbatim>\<open>Rx_Reactor_Write\<close>: nothing that is to be written is lost, repeated or reordered. \<^verbatim>\<open>Rx_Reactor_Read\<close>: what is read
    is cut as the protocol says, for any protocol that meets \<open>framing\<close> (locale \<open>stream_framing\<close>). \<^verbatim>\<open>Rx_Read_Stream\<close>: the
    bytes taken off a socket over a whole event, all accounted for, with those left over from earlier reads and those lost. \<^verbatim>\<open>Rx_Read_Events\<close>: many
    events on many connections. One event is described for any protocol (\<open>piece_event\<close>); pieces of whole messages are
    all delivered, in order for every connection, and pieces smaller than a message are never delivered.
    \<^verbatim>\<open>Rx_Backpressure\<close>: the loop of the handler as a producer, and a reader that is slower than the event loop.

  \<^item> \<^verbatim>\<open>Rx_Engine\<close>: the engine over time, a step relation over events and calls in any order, with an invariant on what
    waits to be written. \<^verbatim>\<open>Rx_Engine_Queues\<close>: the number of senders of every queue is exact in every state, and none
    is left when \<^verbatim>\<open>NetEngine::run\<close> has returned. \<^verbatim>\<open>Rx_Engine_Tokens\<close>: the tokens of listeners and connections never meet.
    \<^verbatim>\<open>Rx_Registration\<close>: what the event loop has been told; a connection with bytes to write is registered for writing, and
    one that could not connect stays registered.
    \<^verbatim>\<open>Rx_Timeouts\<close>: the slots of the timeouts along a run, which are never given back. \<^verbatim>\<open>Rx_Oneway\<close>: the sending half of
    \<^verbatim>\<open>oneway_test\<close>, from its chain to the wire. \<^verbatim>\<open>Rx_Accept\<close>: a listener, the connection it accepts, and the way of
    its numbers into the queue of the listener.

  \<^item> This theory joins the engine and the streams: what arrives with a hang-up reaches the chain on its queue; every
    stream ends when the engine does; \<^verbatim>\<open>oneway_test\<close> comes to its end, and passes.

  \<^bold>\<open>What is a parameter.\<close> Code that the crate only calls is an argument, and what is relied on a named hypothesis, met
  by a concrete platform in the witnesses. For \<^verbatim>\<open>iobuf\<close> and its buffers: \<open>iobuf_ok\<close>, \<open>copies\<close>, \<open>slices_exact\<close> (a
  slice begins where it is asked to and is as long), \<open>fills_ok\<close>, \<open>buffers_ok\<close> (the room in a
  buffer). For \<^verbatim>\<open>mio\<close>: \<open>writes_ok\<close> (a write
  takes bytes off the front of a buffer), \<open>reads_ok\<close> (a read puts them at the end), \<open>pieces_ok\<close> (a read with room takes the
  next piece of its socket), \<open>accepts_ok\<close> (an acceptor hands over a socket), \<open>reregisters_ok\<close>, \<open>slab_ok\<close>, \<open>slab_counts\<close> and \<open>slab_in_range\<close> (slabs are maps on a range
  of tokens), \<open>mio_private\<close> (no call touches the ends of the crate's queues), \<open>mio_watched\<close> (only the four registering calls change
  what is registered, and only for their token), \<open>channel_ok\<close>, \<open>event_loop_ok\<close> (the loop calls the
  handler, one event after the other); \<open>env_ok\<close>, \<open>reading_ok\<close>, \<open>env_private\<close> and \<open>env_watched\<close> put them together. For \<^verbatim>\<open>nix\<close>: \<open>posix\<close> (files,
  descriptors, mappings, and that \<^verbatim>\<open>msync\<close> writes back). For the clock and \<^verbatim>\<open>nanosleep\<close>: \<open>keeps_time\<close> (a sleep
  with a legal argument lasts as long as asked, or a signal has interrupted it). Formatting,
  iterators and \<^verbatim>\<open>quickcheck\<close> are functions.

  \<^bold>\<open>What was found.\<close> Some theorems state what the code does where it means something else: \<^verbatim>\<open>allocate\<close> hands out a
  block that reaches past the end of the file; \<^verbatim>\<open>load\<close> accepts a file with a wrong magic number or a wrong size, and
  crashes on one it rejects; \<^verbatim>\<open>new\<close> goes on after a failed \<^verbatim>\<open>madvise\<close>; \<^verbatim>\<open>Take\<close> declines one item too late, and never for the
  largest count; \<^verbatim>\<open>Unzip\<close> in front of \<^verbatim>\<open>Take\<close> completes twice; \<^verbatim>\<open>fixed_loop\<close> sleeps a negative time; the engine
  keeps a connection that failed, never frees the slot of a timeout and panics when they have run out, waits in its
  handler for a slow reader, never finds a message that arrives in reads shorter than itself, loses bytes when it
  replaces a buffer with some left over, and never leaves its handler with blocks of no bytes.

  \<^bold>\<open>What is not modelled.\<close> \<^verbatim>\<open>processorext.rs\<close> and \<^verbatim>\<open>publisherext.rs\<close> hold no code (an empty trait, and a comment), as do
  \<^verbatim>\<open>alt_new\<close> and \<^verbatim>\<open>roundtrip_test\<close>, which are commented out. The log macros have no effect. \<^verbatim>\<open>Clone\<close> of
  \<^verbatim>\<open>NetStream\<close> copies references. A panic ends its thread; what its stack drops on the way is not modelled. The
  memory model of the atomic accesses is sequential consistency. A queue of capacity 0, on which the two ends
  meet, is not modelled: the theorems on threads ask for another capacity. In the step relation of the engine a
  handler is one step, and between two events the rest of the program may change anything but the ends of the
  queues (the rule \<open>elsewhere\<close>; in \<^verbatim>\<open>Rx_Registration\<close> it leaves the registrations alone as well); the loop of a handler that waits for its reader is \<^verbatim>\<open>Rx_Backpressure\<close>.
\<close>

section \<open>From the socket to the end of a chain\<close>

text \<open>The slice that is cut when the last \<open>n\<close> bytes arrive: the whole numbers in the first \<open>n\<close> unread bytes.\<close>

lemma take_numbers:
  assumes "length rest < 8"
  shows "\<exists>rest'. take n (concat (map to_bytes vs) @ rest) = concat (map to_bytes (take (n div 8) vs)) @ rest' \<and> length rest' < 8"
proof (induction vs arbitrary: n)
  case Nil
  then show ?case using assms by simp
next
  case (Cons v vs)
  show ?case
  proof (cases "n < 8")
    case True
    then show ?thesis by (simp add: min_def)
  next
    case False
    then obtain m where n: "n = 8 + m" using le_Suc_ex not_less by blast
    have "length (to_bytes v) = 8" "(8 + m) div 8 = Suc (m div 8)" by (simp_all add: to_bytes_def)
    with Cons.IH [of m] n show ?thesis by auto
  qed
qed

text \<open>C1. From the socket to the end of a chain: the protocol is \<^verbatim>\<open>U64Protocol\<close>, the queue has room for the numbers, and with the
  hang-up come \<open>new\<close> bytes, behind those that were left unread; together they are the bytes of the numbers \<open>vs\<close> and perhaps
  the beginning of another. The handler puts into the queue as many of these numbers as have room in the length of
  \<open>new\<close> (the slice begins at the marker but is only as long as the last read), so all of them if nothing was left unread, and
  takes the connection away. The chain on the queue, \<^verbatim>\<open>Coupler\<close>, \<^verbatim>\<open>Map\<close>, \<^verbatim>\<open>Collect\<close>, takes them all: if
  the connection was the last sender, as it is after \<^verbatim>\<open>connect\<close>, the chain runs to its end, and its vector holds what was queued before
  followed by these numbers; if others share the queue, as the listener and its connections do, it empties the queue and waits
  for more.\<close>

theorem hangup_delivers_the_last_read:
  assumes "env_ok E wire" "e_proto E = U64Protocol (e_iobuf E)"
    and "slices_exact (e_ab E) (e_iobuf E) filled" "reads_ok (e_ab E) (e_mio E) filled inflow"
    and "slab_get (e_listeners E) (listeners self) t = None" "conn_at E self t = Some c" "HUPHINT \<in> hint" "marker_ok filled c"
    and "Connection_read (e_ab E) (e_mio E) c w = (Ret (Inr (Ready n), c1), w1)" "inflow (conn_sock c) w1 = inflow (conn_sock c) w @ new"
    and "unread filled c @ new = concat (map to_bytes vs) @ rest" "length rest < 8" "has_room (chans w (conn_tx c)) (length vs)"
  shows "\<exists>self' w2. let q = conn_tx c; got = take (length new div 8) vs;
      chain = \<lparr>Coupler_data_rx = q, Coupler_subscriber = Some ((Map_new (\<lambda>x. ret (pm_item x)))\<lparr>Map_subscriber := Some (Collect_new [])\<rparr>)\<rparr> in
    readable E self t hint w = Some (Ret self', w2) \<and> conn_at E self' t = None \<and>
    ch_buf (chans w2 q) = ch_buf (chans w q) @ map (\<lambda>v. ProtoMsg v t) got \<and> (unread filled c = [] \<longrightarrow> got = vs) \<and>
    (if ch_senders (chans w q) \<le> 1
     then \<exists>m w3. run (Coupler_Publisher (Map_Subscriber Collect_Subscriber)) chain w2 =
         Some (Ret \<lparr>Coupler_data_rx = q, Coupler_subscriber = Some m\<rparr>, w3) \<and>
       Collect_val (the (Map_subscriber m)) = map pm_item (ch_buf (chans w q)) @ got
     else \<exists>w3. run (Coupler_Publisher (Map_Subscriber Collect_Subscriber)) chain w2 = Some (Blocked, w3) \<and> ch_buf (chans w3 q) = [])"
proof -
  let ?q = "conn_tx c" and ?got = "take (length new div 8) vs"
  from assms(1) have io: "iobuf_ok (e_iobuf E)" and sl: "slab_ok (e_listeners E)" "slab_ok (e_conns E)" by (simp_all add: env_ok_def)
  obtain bs where rd: "chans w1 = chans w" "filled (rb_buf (conn_buf c1)) = filled (rb_buf (conn_buf c)) @ bs"
    "inflow (conn_sock c) w1 = inflow (conn_sock c) w @ bs" "length bs = unat n"
    and c1: "c1 = c\<lparr>conn_buf := conn_buf c1\<rparr>" by (rule reads_okE [OF assms(4,9)]) simp
  have bs: "bs = new" using rd(3) assms(10) by simp
  have same: "marker c1 = marker c" "conn_tx c1 = ?q" by (subst c1, simp)+
  have un: "unread filled c1 = concat (map to_bytes vs) @ rest"
    using assms(8) by (simp add: unread_def same rd(2) bs marker_ok_def flip: assms(11))
  have "unat (marker c1) + unat n \<le> length (filled (rb_buf (conn_buf c1)))" using assms(8) rd(4) by (simp add: same rd(2) marker_ok_def)
  with assms(3) obtain s where s: "ab_atomic_slice_pos_from_begin (e_ab E) (rb_buf (conn_buf c1)) (marker c1) n = Inr s"
    "iobuf_window (e_iobuf E) s = take (length new) (unread filled c1)" unfolding slices_exact_def unread_def using rd(4) bs by metis
  obtain rest' where win: "iobuf_window (e_iobuf E) s = concat (map to_bytes ?got) @ rest'" "length rest' < 8"
    using take_numbers [OF assms(12), of "length new" vs] s(2) un by auto
  have room: "has_room (chans w1 (conn_tx c1)) (length ?got)" using assms(13) by (auto simp: has_room_def rd(1) same)
  let ?w = "push_all ?q (map (\<lambda>v. ProtoMsg v t) ?got) w1"
  from u64_frames [OF io win room, of t] obtain abuf' where
    "loop_act (frame_round (e_proto E) t) (s, c1) w1 = Some (Ret (abuf', c1\<lparr>marker := marker c1 + of_nat (8 * length ?got)\<rparr>), ?w)"
    using assms(2) same by auto
  then obtain c2 where fr: "read_frames E (config self) t c1 n w1 = Some (Ret c2, ?w)"
    using s(1) by (simp add: read_frames_def pbind_def unwrap_unit_def)
  have "conn_tx c2 = ?q" using read_frames_same_output [OF fr] same by (simp add: same_output_def)
  then have hd: "readable E self t hint w = Some (Ret (self\<lparr>conns := slab_remove (e_conns E) (conns self) t\<rparr>), drop_sender ?q ?w)"
    using readable_goes [OF sl(1) assms(5-7,9), of c2 ?w] fr by simp
  have q: "ch_buf (chans (drop_sender ?q ?w) ?q) = ch_buf (chans w ?q) @ map (\<lambda>v. ProtoMsg v t) ?got"
    "ch_senders (chans (drop_sender ?q ?w) ?q) = ch_senders (chans w ?q) - 1" by (simp_all add: drop_sender_def push_all_def rd(1))
  have all: "?got = vs" if "unread filled c = []"
  proof -
    have "length (concat (map to_bytes vs)) = 8 * length vs" by (induction vs) (simp_all add: to_bytes_def)
    with that assms(11,12) have "length new div 8 = length vs" by simp
    then show ?thesis by simp
  qed
  have gone: "conn_at E (self\<lparr>conns := slab_remove (e_conns E) (conns self) t\<rparr>) t = None" by (simp add: slab_remove_get [OF sl(2)])
  have ends: "ch_senders (chans w ?q) \<le> 1 \<Longrightarrow> ch_senders (chans (drop_sender ?q ?w) ?q) = 0"
    "\<not> ch_senders (chans w ?q) \<le> 1 \<Longrightarrow> ch_senders (chans (drop_sender ?q ?w) ?q) \<noteq> 0" using q(2) by simp_all
  show ?thesis unfolding Let_def
    using hd gone q(1) all Coupler_map_collect [OF ends(1) refl, of pm_item, unfolded q(1)] Coupler_map_collect_waits [OF ends(2), of pm_item]
    by (intro exI conjI) (auto simp: comp_def)
qed

text \<open>Two numbers and a byte arrive with the hang-up, on a queue that holds another and that the listener sends on too.\<close>

definition hangup_env where
  "hangup_env = \<lparr>e_iobuf = sample_iobuf, e_ab = sample_ab, e_mio = (reading_mio :: (u64 ProtoMsg reading_world, _, _, _, _, _, _, _, _) mio),
     e_proto = U64Protocol sample_iobuf, e_listeners = (sample_slab :: ((Token \<times> unit \<times> nat) list, unit \<times> nat) slab),
     e_timeouts = (sample_slab :: ((Token \<times> bool \<times> nat option) list, bool \<times> nat option) slab), e_conns = sample_slab, e_call = (\<lambda>cb. ret (cb, cb))\<rparr>"

definition hangup_world :: "nat \<Rightarrow> u64 ProtoMsg reading_world" where
  "hangup_world n = \<lparr>stdout = [], chans = (\<lambda>_. (sync_queue 4)\<lparr>ch_buf := [ProtoMsg 3 (Token 0)], ch_senders := n\<rparr>), next_chan = 1,
     taken = [], incoming = to_bytes 7 @ to_bytes 9 @ [1]\<rparr>"

lemma hangup_env_ok: "env_ok hangup_env (\<lambda>_ _. [])"
  by (simp add: env_ok_def writes_ok_def reregisters_ok_def hangup_env_def reading_mio_def written_def)

lemma hangup_read:
  "Connection_read (e_ab hangup_env) (e_mio hangup_env) sample_conn (hangup_world n) =
     (Ret (Inr (Ready 17), sample_conn\<lparr>conn_buf := ReadBuf (to_bytes 7 @ to_bytes 9 @ [1])\<rparr>),
      (hangup_world n)\<lparr>taken := to_bytes 7 @ to_bytes 9 @ [1], incoming := []\<rparr>)"
  by (simp add: Connection_read_def hangup_env_def reading_mio_def reading_read_def hangup_world_def sample_conn_def abind_def to_bytes_def Let_def)

abbreviation number_chain where
  "number_chain \<equiv> \<lparr>Coupler_data_rx = 0,
     Coupler_subscriber = Some ((Map_new (\<lambda>x. ret (pm_item x)))\<lparr>Map_subscriber := Some (Collect_new [])\<rparr>)\<rparr>"

theorem hangup_delivers_the_last_read_witness:
  "(\<exists>self' w2 m w3. readable hangup_env sample_engine (Token 0) {HUPHINT} (hangup_world 1) = Some (Ret self', w2) \<and>
      map_of (conns self') (Token 0) = None \<and>
      run (Coupler_Publisher (Map_Subscriber Collect_Subscriber)) number_chain w2 =
        Some (Ret \<lparr>Coupler_data_rx = 0, Coupler_subscriber = Some m\<rparr>, w3) \<and> Collect_val (the (Map_subscriber m)) = [3, 7, 9]) \<and>
   (\<exists>self' w2 w3. readable hangup_env sample_engine (Token 0) {HUPHINT} (hangup_world 2) = Some (Ret self', w2) \<and>
      ch_buf (chans w2 0) = [ProtoMsg 3 (Token 0), ProtoMsg 7 (Token 0), ProtoMsg 9 (Token 0)] \<and>
      run (Coupler_Publisher (Map_Subscriber Collect_Subscriber)) number_chain w2 = Some (Blocked, w3) \<and> ch_buf (chans w3 0) = [])"
  (is "?last \<and> ?shared")
proof -
  have lib: "e_proto hangup_env = U64Protocol (e_iobuf hangup_env)" "slices_exact (e_ab hangup_env) (e_iobuf hangup_env) reading_filled"
    "reads_ok (e_ab hangup_env) (e_mio hangup_env) reading_filled (\<lambda>_. taken)"
    by (simp_all add: hangup_env_def reading_slices reading_reads)
  have c: "slab_get (e_listeners hangup_env) (listeners sample_engine) (Token 0) = None"
    "conn_at hangup_env sample_engine (Token 0) = Some sample_conn" "HUPHINT \<in> {HUPHINT}" "marker_ok reading_filled sample_conn"
    by (simp_all add: hangup_env_def sample_engine_def marker_ok_def sample_conn_def sample_slab_def)
  have bs: "taken ((hangup_world n)\<lparr>taken := to_bytes 7 @ to_bytes 9 @ [1], incoming := []\<rparr>) = taken (hangup_world n) @ (to_bytes 7 @ to_bytes 9 @ [1])"
    "unread reading_filled sample_conn @ (to_bytes 7 @ to_bytes 9 @ [1]) = concat (map to_bytes [7, 9]) @ [1]" "length [1 :: u8] < 8"
    "has_room (chans (hangup_world n) (conn_tx sample_conn)) (length [7, 9 :: u64])" for n
    by (simp_all add: hangup_world_def unread_def reading_filled_def sample_conn_def has_room_def sync_queue_def)
  note all = hangup_delivers_the_last_read [OF hangup_env_ok lib c hangup_read bs]
  have f: "conn_tx sample_conn = 0" "length (to_bytes 7 @ to_bytes 9 @ [1]) div 8 = 2" "e_conns hangup_env = sample_slab"
    "chans (hangup_world n) q = (sync_queue 4)\<lparr>ch_buf := [ProtoMsg 3 (Token 0)], ch_senders := n\<rparr>" for n q
    by (simp_all add: sample_conn_def to_bytes_def hangup_env_def hangup_world_def)
  have ?last using all [of 1] unfolding Let_def f by (elim exE conjE) (simp add: sample_slab_def, blast)
  moreover have ?shared using all [of 2] unfolding Let_def f by (elim exE conjE) (simp, blast)
  ultimately show ?thesis ..
qed

section \<open>The end of the engine and the end of the streams\<close>

text \<open>C6. When \<^verbatim>\<open>NetEngine::run\<close> has returned, no stream is left waiting: on every queue the engine has handed out, by
  \<^verbatim>\<open>connect\<close> or by \<^verbatim>\<open>listen\<close>, a chain \<^verbatim>\<open>Coupler\<close>, \<^verbatim>\<open>Map\<close>, \<^verbatim>\<open>Collect\<close> runs to its end, and its vector holds the images of
  all messages that were still in the queue.\<close>

theorem streams_end_with_the_engine:
  assumes "env_private E" "\<forall>q<next_chan w0. ch_senders (chans w0 q) = 0" "engine_reach E cfg w0 (self, w)"
    and "event_loop_ok el_run" "NetEngine_run E el_run self w = Some (Ret (), w')" "q < next_chan w"
  shows "\<exists>m w2. run (Coupler_Publisher (Map_Subscriber Collect_Subscriber)) \<lparr>Coupler_data_rx = q,
      Coupler_subscriber = Some ((Map_new (\<lambda>x. ret (f x)))\<lparr>Map_subscriber := Some (Collect_new [])\<rparr>)\<rparr> w' =
    Some (Ret \<lparr>Coupler_data_rx = q, Coupler_subscriber = Some m\<rparr>, w2) \<and>
    Collect_val (the (Map_subscriber m)) = map f (ch_buf (chans w' q))"
proof -
  have "q < next_chan w'" using assms(6) run_grows [OF assms(1,4,5)] by simp
  from run_drops_all_ends [OF assms(1-5) this] show ?thesis by (rule Coupler_map_collect) (rule refl)
qed

lemma sample_run:
  "\<exists>w'. NetEngine_run sample_buf_env (events_loop [Readable (Token 0) {}])
      ((EngineInner_new sample_buf_env sample_config)
        \<lparr>conns := [(Token 0, Connection_new (BufProtocol sample_iobuf (protocol_size 4)) () 0 (ReadBuf []))]\<rparr>)
      (set_chan 0 (sync_queue 4) (sample_w0\<lparr>next_chan := Suc 0\<rparr>)) = Some (Ret (), w') \<and>
    map pm_item (ch_buf (chans w' 0)) = [[1, 2, 3, 4], [5, 6, 7, 8]]"
  by (simp add: NetEngine_run_def run_handler_def handle_def readable_def readable_connection_def read_frames_def
      EngineInner_new_def Connection_new_def Connection_read_def sample_mio_def sample_read_def sample_w0_def sample_start_def
      sample_slab_def sample_ab_def sample_config_def set_chan_def pbind_def abind_def unwrap_unit_def unwrap_io_def
      loop_act.simps frame_round_def BufProtocol_def BufProtocol_append_def sample_iobuf_def sample_window_def protocol_size_def
      SyncSender_send_def mpsc_push_def sync_queue_def drop_engine_def drop_sender_def Let_def)
    (simp add: word_le_nat_alt)

theorem streams_end_with_the_engine_witness:
  "\<exists>self w w' m w2. engine_reach sample_buf_env sample_config sample_w0 (self, w) \<and>
    NetEngine_run sample_buf_env (events_loop [Readable (Token 0) {}]) self w = Some (Ret (), w') \<and>
    run (Coupler_Publisher (Map_Subscriber Collect_Subscriber)) \<lparr>Coupler_data_rx = 0,
        Coupler_subscriber = Some ((Map_new (\<lambda>x. ret (pm_item x)))\<lparr>Map_subscriber := Some (Collect_new [])\<rparr>)\<rparr> w' =
      Some (Ret \<lparr>Coupler_data_rx = 0, Coupler_subscriber = Some m\<rparr>, w2) \<and>
    Collect_val (the (Map_subscriber m)) = [[1, 2, 3, 4], [5, 6, 7, 8]]"
proof -
  from sample_run obtain w' where w': "NetEngine_run sample_buf_env (events_loop [Readable (Token 0) {}])
      ((EngineInner_new sample_buf_env sample_config)
        \<lparr>conns := [(Token 0, Connection_new (BufProtocol sample_iobuf (protocol_size 4)) () 0 (ReadBuf []))]\<rparr>)
      (set_chan 0 (sync_queue 4) (sample_w0\<lparr>next_chan := Suc 0\<rparr>)) = Some (Ret (), w')"
    "map pm_item (ch_buf (chans w' 0)) = [[1, 2, 3, 4], [5, 6, 7, 8]]"
    by (elim exE conjE)
  from streams_end_with_the_engine [OF sample_env_private sample_w0_unused sample_connected events_loop_ok w'(1), of 0 pm_item, unfolded w'(2)]
  obtain m w2 where "run (Coupler_Publisher (Map_Subscriber Collect_Subscriber)) \<lparr>Coupler_data_rx = 0,
        Coupler_subscriber = Some ((Map_new (\<lambda>x. ret (pm_item x)))\<lparr>Map_subscriber := Some (Collect_new [])\<rparr>)\<rparr> w' =
      Some (Ret \<lparr>Coupler_data_rx = 0, Coupler_subscriber = Some m\<rparr>, w2)"
    "Collect_val (the (Map_subscriber m)) = [[1, 2, 3, 4], [5, 6, 7, 8]]" by auto
  with sample_connected w'(1) show ?thesis by (intro exI conjI)
qed

text \<open>C5. \<^verbatim>\<open>oneway_test\<close> comes to its end: when the loop of its engine has stopped, the part of its thread that
  collects on the queue of the server does not wait, however many messages have come. It reaches its
  assertion, which passes exactly if the first five messages in the queue are five fives.\<close>

theorem oneway_test_receiver_returns:
  assumes "env_private E" "keeps (el_configured (event_loop_config 524288 100))" "\<forall>q<next_chan w0. ch_senders (chans w0 q) = 0"
    and "oneway_setup E el_configured cb w0 = (Ret (ne, srv_rx, cl), w)"
    and "event_loop_ok el_run" "NetEngine_run E el_run ne w = Some (Ret (), w')"
  shows "\<exists>w2. oneway_collect srv_rx w' =
    Some (if map pm_item (take 5 (ch_buf (chans w' srv_rx))) = [5, 5, 5, 5, 5] then Ret () else Panic ''assertion failed'', w2)"
proof -
  obtain cfg w1 where r: "\<forall>q<next_chan w1. ch_senders (chans w1 q) = 0" "engine_reach E cfg w1 (ne, w)" "srv_rx < next_chan w"
    using oneway_setup_reach [OF assms(2-4,1)] by blast
  have "srv_rx < next_chan w'" using r(3) run_grows [OF assms(1,5,6)] by simp
  from run_drops_all_ends [OF assms(1) r(1,2) assms(5,6) this] have "ch_senders (chans w' srv_rx) = 0" .
  then show ?thesis by (intro oneway_collect_decides) simp_all
qed

text \<open>
  The test on the sample platform: the listener accepts a connection, the bytes of the five numbers
  arrive on it, the timer runs out.
\<close>

abbreviation oneway_env where
  "oneway_env \<equiv> (sample_env (U64Protocol sample_iobuf))\<lparr>e_mio := sample_mio\<lparr>tcp_accept := (\<lambda>_. ret (Inr (Ready ())))\<rparr>\<rparr>"

definition oneway_world :: "u64 ProtoMsg sample_world" where
  "oneway_world = \<lparr>stdout = [], chans = (\<lambda>_. sync_queue 0), next_chan = 0, sent = [], arrived = concat (map to_bytes [5, 5, 5, 5, 5])\<rparr>"

abbreviation oneway_loop where
  "oneway_loop \<equiv> events_loop [Readable (Token 0) {}, Readable (Token 1) {}, TimedOut (Token 0)]"

lemma oneway_env_private: "env_private oneway_env"
proof -
  have "mio_private (sample_mio\<lparr>tcp_accept := (\<lambda>_. ret (Inr (Ready ())))\<rparr>)"
    by (auto simp: mio_private_def sample_mio_def keeps_def sample_write_def sample_read_def same_ends_def Let_def)
  then show ?thesis
    by (auto simp: env_private_def sample_env_def keeps_def U64Protocol_def U64Protocol_append_def unwrap_unit_def abind_def Let_def
        split: sum.split prod.split outcome.split)
qed

lemma oneway_setup_sample:
  "\<exists>ne cl w. oneway_setup oneway_env (\<lambda>_. ret (Inr ())) True oneway_world = (Ret (ne, 0, cl), w) \<and>
     (\<exists>w'. NetEngine_run oneway_env oneway_loop ne w = Some (Ret (), w') \<and> map pm_item (ch_buf (chans w' 0)) = [5, 5, 5, 5, 5])"
  by (simp add: oneway_setup_def NetEngine_new_def NetEngine_configured_def NetEngine_listen_def EngineInner_listen_def
    NetEngine_connect_def EngineInner_connect_def NetEngine_timeout_def unwrap_net_def abind_def unwrap_io_def EngineInner_new_def
    sample_env_def sample_mio_def sample_slab_def first_address_def sync_channel_def unwrap_option_def new_buf_def sample_ab_def Let_def
    oneway_world_def Connection_new_def U64Protocol_def U64Protocol_append_def NetEngine_run_def run_handler_def handle_def readable_def
    readable_listener_def accept_connection_def clone_sender_def handle_timeout_def
    readable_connection_def read_frames_def Connection_read_def sample_read_def set_chan_def pbind_def unwrap_unit_def
    loop_act.simps frame_round_def sample_iobuf_def sample_window_def SyncSender_send_def mpsc_push_def sync_queue_def drop_engine_def drop_sender_def le_u64_to_bytes [where v = 5])

theorem oneway_test_receiver_returns_witness:
  "\<exists>ne cl w w' w2. oneway_setup oneway_env (\<lambda>_. ret (Inr ())) True oneway_world = (Ret (ne, 0, cl), w) \<and>
    NetEngine_run oneway_env oneway_loop ne w = Some (Ret (), w') \<and> oneway_collect 0 w' = Some (Ret (), w2)"
proof -
  from oneway_setup_sample obtain ne cl w w' where s: "oneway_setup oneway_env (\<lambda>_. ret (Inr ())) True oneway_world = (Ret (ne, 0, cl), w)"
    and r: "NetEngine_run oneway_env oneway_loop ne w = Some (Ret (), w')" "map pm_item (ch_buf (chans w' 0)) = [5, 5, 5, 5, 5]"
    by (elim exE conjE)
  have "\<forall>q<next_chan oneway_world. ch_senders (chans oneway_world q) = 0" by (simp add: oneway_world_def)
  from oneway_test_receiver_returns [OF oneway_env_private _ this s events_loop_ok r(1)] obtain w2 where
    "oneway_collect 0 w' = Some (Ret (), w2)" by (auto simp: r(2) take_map [symmetric])
  with s r(1) show ?thesis by (intro exI conjI)
qed

text \<open>C3. \<^verbatim>\<open>oneway_test\<close> passes: with the five numbers its thread sends arriving on the socket that the listener accepts, in
  pieces of whole numbers, however they are cut, the run of the engine comes to its end, and the receiving part of the
  thread then reaches its assertion and passes it.\<close>

theorem oneway_test_passes:
  assumes "env_private E" "slab_in_range (e_listeners E)" "slab_in_range (e_conns E)" "reading_ok E filled pieces"
    and "e_proto E = U64Protocol (e_iobuf E)" "accepts_ok (e_mio E) pieces (map (\<lambda>vs. concat (map to_bytes vs)) vss)" "concat vss = [5, 5, 5, 5, 5]"
    and "keeps (el_configured (event_loop_config 524288 100))" "\<forall>q<next_chan w0. ch_senders (chans w0 q) = 0"
    and "oneway_setup E el_configured cb w0 = (Ret (ne, srv_rx, cl), w)" "chans w srv_rx = sync_queue 524288"
    and "\<forall>v. \<exists>t cs. slab_insert (e_conns E) (conns ne) v = (Inr t, cs)"
  shows "\<exists>lt t w' w2. NetEngine_run E (events_loop (Readable lt {} # replicate (length vss) (Readable t {}))) ne w = Some (Ret (), w') \<and>
    oneway_collect srv_rx w' = Some (Ret (), w2)"
proof -
  obtain cfg w1 where r: "\<forall>q<next_chan w1. ch_senders (chans w1 q) = 0" "engine_reach E cfg w1 (ne, w)" "srv_rx < next_chan w"
    using oneway_setup_reach [OF assms(8-10,1)] by blast
  have "slab_ok (e_listeners E)" using assms(1) by (simp add: env_private_def)
  from oneway_setup_listener [OF this assms(10)] obtain lt a where lt: "slab_get (e_listeners E) (listeners ne) lt = Some (a, srv_rx)"
    and cfg: "read_buf_sz (config ne) = 1536" "min_read_buf_sz (config ne) = 64" by blast
  have "length vs \<le> length (concat vss)" if "vs \<in> set vss" for vs using that by (auto simp: length_concat intro: member_le_sum_list)
  moreover have "length (concat vss) = 5" by (simp add: assms(7))
  ultimately have small: "\<forall>vs\<in>set vss. 8 * length vs \<le> 40" by fastforce
  have room: "has_room (chans w srv_rx) (length (concat vss))" by (simp add: assms(7,11) has_room_def sync_queue_def)
  obtain t self' w' where run: "events_loop (Readable lt {} # replicate (length vss) (Readable t {})) (EngineInner_Handler E) ne w = Some (Ret (Inr self'), w')"
    and buf: "ch_buf (chans w' srv_rx) = ch_buf (chans w srv_rx) @ map (\<lambda>v. ProtoMsg v t) (concat vss)"
    using accepted_numbers [OF assms(4,5,2,3,6) r(2) lt _ small _ _ room] assms(12) cfg by auto
  let ?w = "drop_engine E self' w'" and ?loop = "events_loop (Readable lt {} # replicate (length vss) (Readable t {}))"
  have ne: "NetEngine_run E ?loop ne w = Some (Ret (), ?w)" using run by (rule NetEngine_run_returns)
  have "srv_rx < next_chan ?w" using r(3) run_grows [OF assms(1) events_loop_ok ne] by simp
  from run_drops_all_ends [OF assms(1) r(1,2) events_loop_ok ne this] have "ch_senders (chans ?w srv_rx) = 0" .
  moreover have "ch_buf (chans ?w srv_rx) = map (\<lambda>v. ProtoMsg v t) [5, 5, 5, 5, 5]"
    by (simp add: drop_engine_buf buf assms(7,11) sync_queue_def)
  ultimately have "\<exists>w2. oneway_collect srv_rx ?w = Some (Ret (), w2)"
    using oneway_collect_decides [of ?w srv_rx "map (\<lambda>v. ProtoMsg v t) [5, 5, 5, 5, 5]"] by simp
  with ne show ?thesis by blast
qed

text \<open>A platform whose listener accepts a connection on which the numbers arrive in two pieces.\<close>

abbreviation fives_mio where
  "fives_mio \<equiv> piece_mio\<lparr>tcp_accept := (\<lambda>_ w. (Ret (Inr (Ready 1)), w\<lparr>waiting := (waiting w)(1 := map (\<lambda>vs. concat (map to_bytes vs)) [[5, 5], [5, 5, 5]])\<rparr>))\<rparr>"

abbreviation fives_env where
  "fives_env \<equiv> (piece_env (U64Protocol sample_iobuf))\<lparr>e_mio := fives_mio\<rparr>"

lemma ranged_slab_counts: "slab_counts ranged_slab"
  unfolding slab_counts_def ranged_slab_def slab.simps split_paired_All prod.case length_values_map_of by (simp add: finite_dom_map_of)

lemma fives_env_private: "env_private fives_env"
proof -
  have "mio_private fives_mio"
    by (auto simp: mio_private_def piece_mio_def keeps_def piece_read_def same_ends_def Let_def split: list.split)
  then show ?thesis
    by (auto simp: env_private_def piece_env_def ranged_slab_ok ranged_slab_counts keeps_def U64Protocol_def U64Protocol_append_def unwrap_unit_def
        abind_def Let_def split: sum.split prod.split outcome.split)
qed

lemma fives_reading: "reading_ok fives_env piece_filled (\<lambda>s w. waiting w s)"
  using piece_reading [of "U64Protocol sample_iobuf"] by (simp add: reading_ok_def pieces_ok_def)

lemma fives_accepts: "accepts_ok (e_mio fives_env) (\<lambda>s w. waiting w s) (map (\<lambda>vs. concat (map to_bytes vs)) [[5, 5], [5, 5, 5]])"
  by (simp add: accepts_ok_def piece_mio_def set_chan_def)

lemma fives_setup:
  "\<exists>ne cl w. oneway_setup fives_env (\<lambda>_. ret (Inr ())) True (piece_world (\<lambda>_. [])\<lparr>next_chan := 0\<rparr>) = (Ret (ne, 0, cl), w) \<and> chans w 0 = sync_queue 524288 \<and>
     (\<forall>v. \<exists>t cs. slab_insert (e_conns fives_env) (conns ne) v = (Inr t, cs))"
  by (simp add: oneway_setup_def NetEngine_new_def NetEngine_configured_def NetEngine_listen_def EngineInner_listen_def
    NetEngine_connect_def EngineInner_connect_def NetEngine_timeout_def unwrap_net_def abind_def unwrap_io_def EngineInner_new_def
    piece_env_def piece_mio_def ranged_slab_def first_address_def sync_channel_def unwrap_option_def Let_def piece_world_def set_chan_def)

theorem oneway_test_passes_witness:
  "\<exists>ne cl w lt t w' w2. oneway_setup fives_env (\<lambda>_. ret (Inr ())) True (piece_world (\<lambda>_. [])\<lparr>next_chan := 0\<rparr>) = (Ret (ne, 0, cl), w) \<and>
    NetEngine_run fives_env (events_loop [Readable lt {}, Readable t {}, Readable t {}]) ne w = Some (Ret (), w') \<and> oneway_collect 0 w' = Some (Ret (), w2)"
  (is "\<exists>ne cl w lt t w' w2. oneway_setup ?E ?conf True ?w0 = _ \<and> _")
proof -
  from fives_setup obtain ne cl w where s: "oneway_setup ?E ?conf True ?w0 = (Ret (ne, 0, cl), w)" "chans w 0 = sync_queue 524288"
    "\<forall>v. \<exists>t cs. slab_insert (e_conns ?E) (conns ne) v = (Inr t, cs)" by (elim exE conjE)
  have rng: "slab_in_range (e_listeners ?E)" "slab_in_range (e_conns ?E)" by (simp_all add: ranged_slab_in_range)
  have P: "e_proto ?E = U64Protocol (e_iobuf ?E)" and v: "concat [[5, 5 :: u64], [5, 5, 5]] = [5, 5, 5, 5, 5]" by simp_all
  have k: "keeps (?conf (event_loop_config 524288 100))" by (simp add: keeps_def same_ends_def)
  have w0: "\<forall>q<next_chan ?w0. ch_senders (chans ?w0 q) = 0" by simp
  from oneway_test_passes [OF fives_env_private rng fives_reading P fives_accepts v k w0 s] obtain lt t w' w2 where
    "NetEngine_run ?E (events_loop (Readable lt {} # replicate (length [[5, 5 :: u64], [5, 5, 5]]) (Readable t {}))) ne w = Some (Ret (), w')"
    "oneway_collect 0 w' = Some (Ret (), w2)" by (elim exE conjE)
  with s(1) show ?thesis by (intro exI conjI) simp_all
qed

end
